(* ===== verification/Prelude.thy ===== *)
theory Prelude
  imports Main "HOL-Library.AList" "HOL-Library.List_Lexorder" "HOL-Library.Char_ord" "HOL-Library.Word"
begin

text \<open>
  The shared ground of the development: the Go types the code is written with (byte strings,
  maps, 64-bit integers, times), the small string functions of the packages strings and
  strconv it calls, and the generic lemmas the component theories share.

  A Go string is a list of bytes (\<open>string\<close>). A Go map is an association list with distinct
  keys; the order of the list stands for the iteration order Go leaves open, and every theorem
  is stated for every such list. A Go \<open>error\<close> that is nil or not is an \<open>option\<close>; a pair of a
  value and an error is a sum with the error on the left.
\<close>

named_theorems go_defs \<open>unfolding rules of the models of Go's standard functions\<close>
named_theorems alist_simps \<open>lookup rules of association lists\<close>

section \<open>Errors and sequences of checks\<close>

text \<open>\<open>guard b e\<close> is the statement \<open>if b { return e }\<close>; \<open>first_some\<close> runs checks in order.\<close>

definition guard :: "bool \<Rightarrow> 'e \<Rightarrow> 'e option" where
  "guard b e = (if b then Some e else None)"

fun first_some :: "'e option list \<Rightarrow> 'e option" where
  "first_some [] = None"
| "first_some (c # cs) = (case c of None \<Rightarrow> first_some cs | Some e \<Rightarrow> Some e)"

lemma guard_None [simp]: "guard b e = None \<longleftrightarrow> \<not> b"
  by (simp add: guard_def)

lemma guard_Some [simp]: "guard b e = Some e' \<longleftrightarrow> b \<and> e' = e"
  by (auto simp: guard_def)

lemma first_some_None [simp]: "first_some cs = None \<longleftrightarrow> (\<forall>c \<in> set cs. c = None)"
  by (induction cs) (auto split: option.splits)

text \<open>\<open>first_some.simps\<close> evaluates a concrete sequence of checks.\<close>

declare first_some.simps(2) [simp del]

lemma first_some_append:
  "first_some (cs @ ds) = (case first_some cs of None \<Rightarrow> first_some ds | Some e \<Rightarrow> Some e)"
  by (induction cs) (auto simp: first_some.simps split: option.splits simp del: first_some_None)

lemma first_some_in: "first_some cs = Some e \<Longrightarrow> Some e \<in> set cs"
  by (induction cs) (auto simp: first_some.simps split: option.splits)

section \<open>Maps\<close>

text \<open>
  \<open>mput\<close> is \<open>m[k] = v\<close>, \<open>mdel\<close> is \<open>delete(m, k)\<close>, \<open>map_of m k\<close> is \<open>v, ok := m[k]\<close>. \<open>sorted_keys\<close>
  is the pattern "collect the keys, then sort.Strings".
\<close>

definition mput :: "'k \<Rightarrow> 'v \<Rightarrow> ('k \<times> 'v) list \<Rightarrow> ('k \<times> 'v) list" where
  "mput k v m = AList.update k v m"

definition mdel :: "'k \<Rightarrow> ('k \<times> 'v) list \<Rightarrow> ('k \<times> 'v) list" where
  "mdel k m = AList.delete k m"

abbreviation has_key :: "('k \<times> 'v) list \<Rightarrow> 'k \<Rightarrow> bool" where
  "has_key m k \<equiv> map_of m k \<noteq> None"

definition sorted_keys :: "('k::linorder \<times> 'v) list \<Rightarrow> 'k list" where
  "sorted_keys m = sort (map fst m)"

text \<open>\<open>m[k]\<close> of a map of strings: the empty string when \<open>k\<close> is missing.\<close>

definition str_at :: "(string \<times> string) list \<Rightarrow> string \<Rightarrow> string" where
  "str_at m k = (case map_of m k of None \<Rightarrow> [] | Some v \<Rightarrow> v)"

lemma map_of_mput [simp, alist_simps]: "map_of (mput k v m) = (map_of m)(k \<mapsto> v)"
  by (simp add: mput_def update_conv')

lemma map_of_mdel [simp, alist_simps]: "map_of (mdel k m) = (map_of m)(k := None)"
  by (simp add: mdel_def delete_conv')

lemma distinct_mput [intro]: "distinct (map fst m) \<Longrightarrow> distinct (map fst (mput k v m))"
  by (simp add: mput_def distinct_update)

lemma distinct_mdel [intro]: "distinct (map fst m) \<Longrightarrow> distinct (map fst (mdel k m))"
  by (simp add: mdel_def distinct_delete)

lemma has_key_fst: "has_key m k \<longleftrightarrow> k \<in> fst ` set m"
  by (simp add: map_of_eq_None_iff)

lemma keys_mput [simp]: "fst ` set (mput k v m) = insert k (fst ` set m)"
  using dom_update [of k v m] by (simp add: mput_def)

lemma keys_mdel [simp]: "fst ` set (mdel k m) = fst ` set m - {k}"
  using delete_keys [of k m] by (metis image_set mdel_def set_removeAll)

lemma set_sorted_keys [simp]: "set (sorted_keys m) = fst ` set m"
  by (simp add: sorted_keys_def)

lemma distinct_sorted_keys [simp]: "distinct (sorted_keys m) \<longleftrightarrow> distinct (map fst m)"
  by (simp add: sorted_keys_def)

lemma sorted_sorted_keys [simp]: "sorted (sorted_keys m)"
  by (simp add: sorted_keys_def)

text \<open>A map in the order of its keys.\<close>

definition sorted_entries :: "('k::linorder \<times> 'v) list \<Rightarrow> ('k::linorder \<times> 'v) list" where
  "sorted_entries m = concat (map (\<lambda>k. case map_of m k of None \<Rightarrow> [] | Some v \<Rightarrow> [(k, v)]) (sorted_keys m))"

lemma fst_sorted_entries: "map fst (sorted_entries m) = sorted_keys m"
proof -
  have "map fst (concat (map (\<lambda>k. case map_of m k of None \<Rightarrow> [] | Some v \<Rightarrow> [(k, v)]) ks)) = ks"
    if "set ks \<subseteq> fst ` set m" for ks
    using that
  proof (induction ks)
    case (Cons k ks)
    then have "map_of m k \<noteq> None" by (simp add: map_of_eq_None_iff)
    then show ?case using Cons by auto
  qed simp
  then show ?thesis by (simp add: sorted_entries_def)
qed

lemma set_sorted_entries: "(k, v) \<in> set (sorted_entries m) \<Longrightarrow> (k, v) \<in> set m"
  by (auto simp: sorted_entries_def dest: map_of_SomeD map_of_SomeD [OF sym] split: option.splits)

lemma sorted_keys_cong: 
  assumes "distinct (map fst m)" "distinct (map fst m')" "fst ` set m = fst ` set m'"
  shows "sorted_keys m = sorted_keys m'"
proof (rule sorted_distinct_set_unique)
  show "set (sorted_keys m) = set (sorted_keys m')" using assms(3) by simp
qed (use assms in simp_all)

section \<open>Integers and durations\<close>

text \<open>
  Go's \<open>int\<close>, \<open>int64\<close> and \<open>time.Duration\<close> are 64-bit two's complement; \<open>wrap64\<close> is what an
  arithmetic result is stored as. A duration counts nanoseconds.
\<close>

definition wrap64 :: "int \<Rightarrow> int" where
  "wrap64 x = (x + 2 ^ 63) mod 2 ^ 64 - 2 ^ 63"

definition max_int64 :: int where "max_int64 = 2 ^ 63 - 1"
definition min_int64 :: int where "min_int64 = - (2 ^ 63)"

abbreviation in_int64 :: "int \<Rightarrow> bool" where
  "in_int64 x \<equiv> min_int64 \<le> x \<and> x \<le> max_int64"

lemma wrap64_id: "in_int64 x \<Longrightarrow> wrap64 x = x"
  by (simp add: wrap64_def max_int64_def min_int64_def)

lemma wrap64_range: "in_int64 (wrap64 x)"
  using pos_mod_bound [of "2 ^ 64" "x + 2 ^ 63"] pos_mod_sign [of "2 ^ 64" "x + 2 ^ 63"]
  by (simp add: wrap64_def max_int64_def min_int64_def)

type_synonym duration = int

definition second :: duration where "second = 1000000000"
definition millisecond :: duration where "millisecond = 1000000"

text \<open>
  A \<open>time.Time\<close> is the number of nanoseconds since the zero time (1 January of year 1, UTC), so
  \<open>IsZero\<close> is equality with 0. \<open>unix sec\<close> is \<open>time.Unix(sec, 0)\<close>. \<open>Before\<close>, \<open>Equal\<close> and \<open>Add\<close> are
  \<open><\<close>, \<open>=\<close> and \<open>+\<close>; \<open>Sub\<close> saturates at the bounds of a duration.
\<close>

type_synonym time = int

definition is_zero :: "time \<Rightarrow> bool" where "is_zero t \<longleftrightarrow> t = 0"
definition unix :: "int \<Rightarrow> time" where "unix sec = (sec + 62135596800) * second"

definition time_sub :: "time \<Rightarrow> time \<Rightarrow> duration" where
  "time_sub t u = max min_int64 (min max_int64 (t - u))"

lemma time_sub_exact: "in_int64 (t - u) \<Longrightarrow> time_sub t u = t - u"
  by (simp add: time_sub_def)

lemma time_sub_less: "in_int64 d \<Longrightarrow> d \<noteq> min_int64 \<Longrightarrow> time_sub t u < d \<longleftrightarrow> t - u < d"
  by (auto simp: time_sub_def min_int64_def max_int64_def)

lemma time_sub_greater: "in_int64 d \<Longrightarrow> d \<noteq> max_int64 \<Longrightarrow> d < time_sub t u \<longleftrightarrow> d < t - u"
  by (auto simp: time_sub_def min_int64_def max_int64_def)

section \<open>Strings\<close>

abbreviation nul :: char where "nul \<equiv> CHR 0x00"

text \<open>\<open>strings.HasPrefix\<close>, \<open>HasSuffix\<close>, \<open>ContainsAny\<close> (\<open>ContainsRune\<close> for one byte), \<open>CutPrefix\<close>, \<open>CutSuffix\<close>, \<open>Cut\<close>.\<close>

definition has_prefix :: "string \<Rightarrow> string \<Rightarrow> bool" where
  "has_prefix s p \<longleftrightarrow> take (length p) s = p"

definition has_suffix :: "string \<Rightarrow> string \<Rightarrow> bool" where
  "has_suffix s p \<longleftrightarrow> length p \<le> length s \<and> drop (length s - length p) s = p"

definition contains_any :: "string \<Rightarrow> string \<Rightarrow> bool" where
  "contains_any s cs \<longleftrightarrow> list_ex (\<lambda>c. List.member cs c) s"

definition trim_prefix :: "string \<Rightarrow> string \<Rightarrow> string" where
  "trim_prefix s p = (if has_prefix s p then drop (length p) s else s)"

definition cut_prefix :: "string \<Rightarrow> string \<Rightarrow> string option" where
  "cut_prefix s p = (if has_prefix s p then Some (drop (length p) s) else None)"

definition cut_suffix :: "string \<Rightarrow> string \<Rightarrow> string option" where
  "cut_suffix s p = (if has_suffix s p then Some (take (length s - length p) s) else None)"

text \<open>The part before the first byte \<open>c\<close>, and the part after it when there is one.\<close>

definition cut :: "char \<Rightarrow> string \<Rightarrow> string \<times> string option" where
  "cut c s = (takeWhile (\<lambda>x. x \<noteq> c) s,
     (case dropWhile (\<lambda>x. x \<noteq> c) s of [] \<Rightarrow> None | _ # t \<Rightarrow> Some t))"

lemma has_prefix_append [simp]: "has_prefix (p @ s) p"
  by (simp add: has_prefix_def)

lemma has_prefix_Nil [simp]: "has_prefix s []"
  by (simp add: has_prefix_def)

lemma has_prefix_Cons [simp]: "has_prefix (c # s) (d # p) \<longleftrightarrow> c = d \<and> has_prefix s p"
  by (simp add: has_prefix_def)

lemma has_prefix_Nil_Cons [simp]: "\<not> has_prefix [] (d # p)"
  by (simp add: has_prefix_def)

lemma has_prefix_iff: "has_prefix s p \<longleftrightarrow> (\<exists>t. s = p @ t)"
  by (metis append_eq_conv_conj append_take_drop_id has_prefix_def)

lemma has_suffix_iff: "has_suffix s p \<longleftrightarrow> (\<exists>t. s = t @ p)"
  by (auto simp: has_suffix_def) (metis append_take_drop_id)

lemma cut_prefix_Some: "cut_prefix s p = Some t \<longleftrightarrow> s = p @ t"
  by (auto simp: cut_prefix_def has_prefix_iff)

lemma cut_suffix_Some: "cut_suffix s p = Some t \<longleftrightarrow> s = t @ p"
  by (auto simp: cut_suffix_def has_suffix_iff)

lemma contains_any_iff: "contains_any s cs \<longleftrightarrow> (\<exists>c \<in> set s. c \<in> set cs)"
  by (auto simp: contains_any_def list_ex_iff)

lemma cut_append: "c \<notin> set s \<Longrightarrow> cut c (s @ c # t) = (s, Some t)"
  by (simp add: cut_def takeWhile_append dropWhile_append)

lemma cut_no: "c \<notin> set s \<Longrightarrow> cut c s = (s, None)"
  by (induction s) (auto simp: cut_def)

text \<open>\<open>strings.Split(s, sep)\<close> for a separator of one byte, and \<open>strings.Join\<close>.\<close>

fun split_on :: "char \<Rightarrow> string \<Rightarrow> string list" where
  "split_on c [] = [[]]"
| "split_on c (x # xs) =
     (if x = c then [] # split_on c xs
      else case split_on c xs of [] \<Rightarrow> [[x]] | p # ps \<Rightarrow> (x # p) # ps)"

fun join :: "string \<Rightarrow> string list \<Rightarrow> string" where
  "join sep [] = []"
| "join sep [x] = x"
| "join sep (x # xs) = x @ sep @ join sep xs"

lemma join_snoc: "join sep (es @ [e]) = (if es = [] then e else join sep es @ sep @ e)"
  by (induction sep es rule: join.induct) auto

lemma split_on_nonempty [simp]: "split_on c s \<noteq> []"
  by (induction s) (auto split: list.splits)

lemma join_split_on: "join [c] (split_on c s) = s"
proof (induction s)
  case (Cons x xs)
  obtain p ps where "split_on c xs = p # ps"
    using split_on_nonempty by (metis list.exhaust)
  with Cons show ?case by (cases ps) auto
qed simp

lemma split_on_no_sep: "p \<in> set (split_on c s) \<Longrightarrow> c \<notin> set p"
  by (induction s arbitrary: p) (auto split: list.splits if_splits)

lemma split_on_single: "c \<notin> set s \<Longrightarrow> split_on c s = [s]"
  by (induction s) auto

lemma split_on_append: "c \<notin> set s \<Longrightarrow> split_on c (s @ c # t) = s # split_on c t"
  by (induction s) auto

lemma split_on_join:
  "ps \<noteq> [] \<Longrightarrow> \<forall>p \<in> set ps. c \<notin> set p \<Longrightarrow> split_on c (join [c] ps) = ps"
  by (induction "[c]" ps rule: join.induct) (auto simp: split_on_single split_on_append)

section \<open>Decimal numbers\<close>

text \<open>\<open>%d\<close> and \<open>strconv.Itoa\<close>.\<close>

definition digit_char :: "nat \<Rightarrow> char" where
  "digit_char d = char_of (48 + d)"

fun show_nat :: "nat \<Rightarrow> string" where
  "show_nat n = (if n < 10 then [digit_char n] else show_nat (n div 10) @ [digit_char (n mod 10)])"

declare show_nat.simps [simp del]

definition show_int :: "int \<Rightarrow> string" where
  "show_int i = (if i < 0 then CHR ''-'' # show_nat (nat (- i)) else show_nat (nat i))"

definition is_digit :: "char \<Rightarrow> bool" where
  "is_digit c \<longleftrightarrow> 48 \<le> (of_char c :: nat) \<and> (of_char c :: nat) \<le> 57"

definition digit_val :: "char \<Rightarrow> nat" where
  "digit_val c = of_char c - 48"

definition read_nat :: "string \<Rightarrow> nat" where
  "read_nat s = foldl (\<lambda>n c. 10 * n + digit_val c) 0 s"

lemma of_char_digit_char: "d < 10 \<Longrightarrow> (of_char (digit_char d) :: nat) = 48 + d"
  by (simp add: digit_char_def)

lemma is_digit_digit_char [simp]: "d < 10 \<Longrightarrow> is_digit (digit_char d)"
  by (simp add: is_digit_def of_char_digit_char)

lemma digit_val_digit_char [simp]: "d < 10 \<Longrightarrow> digit_val (digit_char d) = d"
  by (simp add: digit_val_def of_char_digit_char)

lemma show_nat_digits: "c \<in> set (show_nat n) \<Longrightarrow> is_digit c"
proof (induction n rule: show_nat.induct)
  case (1 n)
  then show ?case by (cases "n < 10") (auto simp: show_nat.simps [of n])
qed

lemma show_nat_nonempty [simp]: "show_nat n \<noteq> []"
  by (subst show_nat.simps) simp

lemma read_show_nat: "read_nat (show_nat n) = n"
proof (induction n rule: show_nat.induct)
  case (1 n)
  then show ?case
    by (cases "n < 10") (auto simp: show_nat.simps [of n] read_nat_def)
qed

lemma show_nat_inj: "show_nat m = show_nat n \<longleftrightarrow> m = n"
  by (metis read_show_nat)

lemma show_nat_not_in: "\<not> is_digit c \<Longrightarrow> c \<notin> set (show_nat n)"
  using show_nat_digits by blast

section \<open>Sequencing\<close>

text \<open>\<open>if err := m; err != nil { return err }\<close> before \<open>k\<close>, and the loop of such statements.\<close>

definition and_then :: "'err option \<times> 's \<Rightarrow> ('s \<Rightarrow> 'err option \<times> 's) \<Rightarrow> 'err option \<times> 's" where
  "and_then m k = (case m of (Some e, s) \<Rightarrow> (Some e, s) | (None, s) \<Rightarrow> k s)"

fun foreach :: "('x \<Rightarrow> 's \<Rightarrow> 'err option \<times> 's) \<Rightarrow> 'x list \<Rightarrow> 's \<Rightarrow> 'err option \<times> 's" where
  "foreach f [] s = (None, s)"
| "foreach f (x # xs) s = and_then (f x s) (foreach f xs)"

lemma and_then_simps [simp]:
  "and_then (Some e, s) k = (Some e, s)" "and_then (None, s) k = k s"
  by (simp_all add: and_then_def)

lemma and_then_None: "and_then m k = (None, s') \<longleftrightarrow> (\<exists>s. m = (None, s) \<and> k s = (None, s'))"
  by (cases m) (auto simp: and_then_def split: option.splits)

lemma and_then_inv: "P (snd m) \<Longrightarrow> (\<And>s. P s \<Longrightarrow> P (snd (k s))) \<Longrightarrow> P (snd (and_then m k))"
  by (cases m) (auto simp: and_then_def split: option.splits)

lemma foreach_inv:
  assumes "\<And>x s. x \<in> set xs \<Longrightarrow> P s \<Longrightarrow> P (snd (f x s))" and "P s"
  shows "P (snd (foreach f xs s))"
  using assms by (induction xs arbitrary: s) (auto intro: and_then_inv)

lemma foreach_None_inv:
  assumes "\<And>x s s'. x \<in> set xs \<Longrightarrow> P s \<Longrightarrow> f x s = (None, s') \<Longrightarrow> P s'" and "P s"
    and "foreach f xs s = (None, s')"
  shows "P s'"
  using assms by (induction xs arbitrary: s) (auto simp: and_then_None)

section \<open>Errors of the file system\<close>

text \<open>An error of a file-system call, by what \<open>errors.Is\<close> tells apart.\<close>

datatype fs_error = NotExist | NotDir | FsError string

end
