(* ===== verification/Regex.thy ===== *)
theory Regex
  imports Prelude
begin

text \<open>
  Go's \<open>regexp\<close> as the program uses it: \<open>MatchString\<close> of a pattern anchored by \<open>^\<close> and \<open>$\<close>, built
  from byte classes, sequences, alternatives, \<open>*\<close>, \<open>+\<close>, \<open>?\<close> and \<open>{m,n}\<close>. A pattern is a value of
  \<open>regex\<close>; \<open>matches\<close> decides it by derivatives, and is proved equal to the language of the
  pattern. Every class of the program's patterns is of ASCII bytes, so a byte of a multi-byte
  rune is in none of them and matching bytes is matching runes.
\<close>

section \<open>Patterns and their languages\<close>

datatype regex =
    Zero
  | One
  | Cls "(char \<times> char) list"  \<comment> \<open>\<open>[a-z0-9]\<close>: one byte of one of the ranges\<close>
  | Seq regex regex
  | Alt regex regex
  | Star regex
  | UpTo regex nat             \<comment> \<open>\<open>r{0,n}\<close>\<close>

definition in_cls :: "char \<Rightarrow> (char \<times> char) list \<Rightarrow> bool" where
  "in_cls c rs \<longleftrightarrow> list_ex (\<lambda>(l, h). (of_char l :: nat) \<le> of_char c \<and> (of_char c :: nat) \<le> of_char h) rs"

definition Plus :: "regex \<Rightarrow> regex" where "Plus r = Seq r (Star r)"
definition Opt :: "regex \<Rightarrow> regex" where "Opt r = UpTo r 1"
definition Lit :: "char \<Rightarrow> regex" where "Lit c = Cls [(c, c)]"

text \<open>\<open>r{1,n}\<close>, for \<open>n\<close> at least 1.\<close>

definition OneTo :: "regex \<Rightarrow> nat \<Rightarrow> regex" where "OneTo r n = Seq r (UpTo r (n - 1))"

definition conc :: "string set \<Rightarrow> string set \<Rightarrow> string set" where
  "conc A B = {u @ v | u v. u \<in> A \<and> v \<in> B}"

fun pow :: "string set \<Rightarrow> nat \<Rightarrow> string set" where
  "pow A 0 = {[]}"
| "pow A (Suc n) = conc A (pow A n)"

primrec lang :: "regex \<Rightarrow> string set" where
  "lang Zero = {}"
| "lang One = {[]}"
| "lang (Cls rs) = {[c] | c. in_cls c rs}"
| "lang (Seq r s) = conc (lang r) (lang s)"
| "lang (Alt r s) = lang r \<union> lang s"
| "lang (Star r) = (\<Union>n. pow (lang r) n)"
| "lang (UpTo r n) = (\<Union>k \<le> n. pow (lang r) k)"

section \<open>The matcher\<close>

primrec nullable :: "regex \<Rightarrow> bool" where
  "nullable Zero \<longleftrightarrow> False"
| "nullable One \<longleftrightarrow> True"
| "nullable (Cls rs) \<longleftrightarrow> False"
| "nullable (Seq r s) \<longleftrightarrow> nullable r \<and> nullable s"
| "nullable (Alt r s) \<longleftrightarrow> nullable r \<or> nullable s"
| "nullable (Star r) \<longleftrightarrow> True"
| "nullable (UpTo r n) \<longleftrightarrow> True"

fun mk_seq :: "regex \<Rightarrow> regex \<Rightarrow> regex" where
  "mk_seq Zero s = Zero"
| "mk_seq One s = s"
| "mk_seq r s = Seq r s"

fun mk_alt :: "regex \<Rightarrow> regex \<Rightarrow> regex" where
  "mk_alt Zero s = s"
| "mk_alt r Zero = r"
| "mk_alt r s = Alt r s"

primrec deriv :: "char \<Rightarrow> regex \<Rightarrow> regex" where
  "deriv c Zero = Zero"
| "deriv c One = Zero"
| "deriv c (Cls rs) = (if in_cls c rs then One else Zero)"
| "deriv c (Seq r s) =
     (if nullable r then mk_alt (mk_seq (deriv c r) s) (deriv c s) else mk_seq (deriv c r) s)"
| "deriv c (Alt r s) = mk_alt (deriv c r) (deriv c s)"
| "deriv c (Star r) = mk_seq (deriv c r) (Star r)"
| "deriv c (UpTo r n) = (case n of 0 \<Rightarrow> Zero | Suc m \<Rightarrow> mk_seq (deriv c r) (UpTo r m))"

fun matches :: "regex \<Rightarrow> string \<Rightarrow> bool" where
  "matches r [] = nullable r"
| "matches r (c # cs) = matches (deriv c r) cs"

section \<open>The matcher decides the language\<close>

lemma Nil_in_conc [simp]: "[] \<in> conc A B \<longleftrightarrow> [] \<in> A \<and> [] \<in> B"
  by (auto simp: conc_def)

lemma Cons_in_conc:
  "c # w \<in> conc A B \<longleftrightarrow> w \<in> conc {u. c # u \<in> A} B \<or> ([] \<in> A \<and> c # w \<in> B)"
  unfolding conc_def by (auto simp: Cons_eq_append_conv)

lemma Nil_in_pow: "[] \<in> A \<Longrightarrow> [] \<in> pow A n"
  by (induction n) auto

lemma lang_mk_seq [simp]: "lang (mk_seq r s) = conc (lang r) (lang s)"
  by (induction r s rule: mk_seq.induct) (auto simp: conc_def)

lemma lang_mk_alt [simp]: "lang (mk_alt r s) = lang r \<union> lang s"
  by (induction r s rule: mk_alt.induct) auto

lemma nullable_lang: "nullable r \<longleftrightarrow> [] \<in> lang r"
  by (induction r) (auto intro: exI [of _ 0] bexI [of _ 0])

lemma pow_Cons_later:
  assumes "c # w \<in> pow A n"
  shows "\<exists>k < n. w \<in> conc {u. c # u \<in> A} (pow A k)"
  using assms
proof (induction n)
  case (Suc n)
  then consider "w \<in> conc {u. c # u \<in> A} (pow A n)" | "c # w \<in> pow A n"
    by (auto simp: Cons_in_conc)
  then show ?case
    using Suc.IH less_SucI by (cases) (blast, blast)
qed simp

lemma pow_Cons_now:
  assumes "w \<in> conc {u. c # u \<in> A} (pow A k)"
  shows "c # w \<in> pow A (Suc k)"
  using assms by (simp add: Cons_in_conc)

lemma conc_UN: "conc A (\<Union>k \<in> I. B k) = (\<Union>k \<in> I. conc A (B k))"
  by (auto simp: conc_def)

lemma conc_upto_iff:
  "w \<in> conc {u. c # u \<in> A} (\<Union>k \<le> m. pow A k) \<longleftrightarrow> (\<exists>k \<le> Suc m. c # w \<in> pow A k)"
proof
  assume "w \<in> conc {u. c # u \<in> A} (\<Union>k \<le> m. pow A k)"
  then obtain k where "k \<le> m" "w \<in> conc {u. c # u \<in> A} (pow A k)"
    unfolding conc_UN by blast
  then show "\<exists>k \<le> Suc m. c # w \<in> pow A k"
    using pow_Cons_now by (metis Suc_le_mono)
next
  assume "\<exists>k \<le> Suc m. c # w \<in> pow A k"
  then obtain k where "k \<le> Suc m" "c # w \<in> pow A k" by blast
  then obtain j where "j < k" "w \<in> conc {u. c # u \<in> A} (pow A j)"
    using pow_Cons_later by blast
  then show "w \<in> conc {u. c # u \<in> A} (\<Union>k \<le> m. pow A k)"
    unfolding conc_UN using \<open>k \<le> Suc m\<close> by auto
qed

lemma lang_deriv: "lang (deriv c r) = {w. c # w \<in> lang r}"
proof (induction r)
  case (Seq r s)
  then show ?case by (auto simp: Cons_in_conc nullable_lang)
next
  case (Star r)
  have "w \<in> conc {u. c # u \<in> lang r} (\<Union>n. pow (lang r) n) \<longleftrightarrow> (\<exists>n. c # w \<in> pow (lang r) n)" for w
    unfolding conc_UN using pow_Cons_later pow_Cons_now by fast
  with Star show ?case by auto
next
  case (UpTo r n)
  show ?case
  proof (cases n)
    case (Suc m)
    have "w \<in> conc {u. c # u \<in> lang r} (\<Union>k \<le> m. pow (lang r) k)
        \<longleftrightarrow> (\<exists>k \<le> n. c # w \<in> pow (lang r) k)" for w
      unfolding Suc by (rule conc_upto_iff)
    with UpTo Suc show ?thesis by (auto simp del: pow.simps)
  qed auto
qed (auto split: if_splits)

lemma matches_lang: "matches r s \<longleftrightarrow> s \<in> lang r"
  by (induction s arbitrary: r) (auto simp: nullable_lang lang_deriv)

section \<open>Patterns of one class\<close>

text \<open>What the program's patterns say, in terms of the bytes of the string.\<close>

lemma in_conc_Cls:
  "s \<in> conc {[c] | c. P c} B \<longleftrightarrow> (\<exists>c t. s = c # t \<and> P c \<and> t \<in> B)"
proof
  assume "s \<in> conc {[c] | c. P c} B"
  then show "\<exists>c t. s = c # t \<and> P c \<and> t \<in> B" by (auto simp: conc_def)
next
  assume "\<exists>c t. s = c # t \<and> P c \<and> t \<in> B"
  then obtain c t where "s = [c] @ t" "P c" "t \<in> B" by auto
  then show "s \<in> conc {[c] | c. P c} B" unfolding conc_def by blast
qed

lemma pow_Cls: "s \<in> pow (lang (Cls rs)) n \<longleftrightarrow> length s = n \<and> (\<forall>c \<in> set s. in_cls c rs)"
proof (induction n arbitrary: s)
  case (Suc n)
  have "s \<in> pow (lang (Cls rs)) (Suc n)
      \<longleftrightarrow> (\<exists>c t. s = c # t \<and> in_cls c rs \<and> t \<in> pow (lang (Cls rs)) n)"
    unfolding pow.simps lang.simps(3) by (rule in_conc_Cls)
  then show ?case unfolding Suc.IH by (cases s) auto
qed auto

lemma lang_UpTo_Cls: "s \<in> lang (UpTo (Cls rs) n) \<longleftrightarrow> length s \<le> n \<and> (\<forall>c \<in> set s. in_cls c rs)"
  unfolding lang.simps(7) using pow_Cls by auto

lemma lang_Star_Cls: "s \<in> lang (Star (Cls rs)) \<longleftrightarrow> (\<forall>c \<in> set s. in_cls c rs)"
  unfolding lang.simps(6) using pow_Cls by auto

lemma lang_Seq_Cls: "s \<in> lang (Seq (Cls rs) r) \<longleftrightarrow> (\<exists>c t. s = c # t \<and> in_cls c rs \<and> t \<in> lang r)"
  by (simp add: in_conc_Cls)

lemmas class_langs = lang_UpTo_Cls lang_Star_Cls lang_Seq_Cls

lemma matches_head_UpTo:
  "matches (Seq (Cls hs) (UpTo (Cls rs) n)) s \<longleftrightarrow>
     (case s of [] \<Rightarrow> False | c # t \<Rightarrow> in_cls c hs \<and> length t \<le> n \<and> list_all (\<lambda>c. in_cls c rs) t)"
  by (cases s) (auto simp: matches_lang lang_Seq_Cls lang_UpTo_Cls list_all_iff simp del: lang.simps)

lemma matches_OneTo:
  "0 < n \<Longrightarrow> matches (OneTo (Cls rs) n) s \<longleftrightarrow>
     s \<noteq> [] \<and> length s \<le> n \<and> list_all (\<lambda>c. in_cls c rs) s"
  unfolding OneTo_def matches_head_UpTo by (cases s) auto

end
