(* ===== verification/GoPath.thy ===== *)
theory GoPath
  imports Prelude
begin

text \<open>
  Go's package \<open>path\<close> (and \<open>path/filepath\<close> on Linux) as the program uses it: \<open>IsAbs\<close>, \<open>Clean\<close>,
  \<open>Join\<close>, \<open>Dir\<close>, \<open>Base\<close>. \<open>Clean\<close> is the lexical normal form: no empty, \<open>.\<close> or inner \<open>..\<close> element.
  The lemma \<open>clean_abs_iff\<close> says which paths the check "absolute and its own Clean" accepts.
\<close>

abbreviation slash :: char where "slash \<equiv> CHR ''/''"

definition path_is_abs :: "string \<Rightarrow> bool" where
  "path_is_abs p \<longleftrightarrow> has_prefix p ''/''"

text \<open>One element read, with the elements kept so far, the last first.\<close>

definition clean_step :: "bool \<Rightarrow> string \<Rightarrow> string list \<Rightarrow> string list" where
  "clean_step rooted e st =
     (if e = [] \<or> e = ''.'' then st
      else if e = ''..'' then
        (case st of
           [] \<Rightarrow> if rooted then [] else [''..'']
         | x # xs \<Rightarrow> if x = ''..'' then ''..'' # st else xs)
      else e # st)"

definition path_clean :: "string \<Rightarrow> string" where
  "path_clean p =
     (if p = [] then ''.''
      else let rooted = (hd p = slash);
               body = join ''/'' (rev (fold (clean_step rooted) (split_on slash p) []))
           in if rooted then slash # body else if body = [] then ''.'' else body)"

definition path_join :: "string list \<Rightarrow> string" where
  "path_join es =
     (let ne = filter (\<lambda>e. e \<noteq> []) es in if ne = [] then [] else path_clean (join ''/'' ne))"

text \<open>\<open>Dir\<close>: all but the last element, cleaned. \<open>Base\<close>: the last element, trailing slashes removed.\<close>

definition path_dir :: "string \<Rightarrow> string" where
  "path_dir p = path_clean (rev (dropWhile (\<lambda>c. c \<noteq> slash) (rev p)))"

definition path_base :: "string \<Rightarrow> string" where
  "path_base p =
     (if p = [] then ''.''
      else let q = rev (dropWhile (\<lambda>c. c = slash) (rev p))
           in if q = [] then ''/'' else rev (takeWhile (\<lambda>c. c \<noteq> slash) (rev q)))"

text \<open>The check the program makes of a path it is given.\<close>

definition clean_abs :: "string \<Rightarrow> bool" where
  "clean_abs p \<longleftrightarrow> path_is_abs p \<and> path_clean p = p"

section \<open>What a clean absolute path is\<close>

definition plain_elem :: "string \<Rightarrow> bool" where
  "plain_elem e \<longleftrightarrow> e \<noteq> [] \<and> e \<noteq> ''.'' \<and> e \<noteq> ''..'' \<and> slash \<notin> set e"

lemma clean_step_plain: "plain_elem e \<Longrightarrow> clean_step r e st = e # st"
  by (simp add: clean_step_def plain_elem_def)

lemma clean_step_rooted:
  "slash \<notin> set e \<Longrightarrow> list_all plain_elem st \<Longrightarrow> list_all plain_elem (clean_step True e st)"
  by (auto simp: clean_step_def plain_elem_def split: list.splits)

lemma fold_clean_plain: "list_all plain_elem es \<Longrightarrow> fold (clean_step r) es st = rev es @ st"
  by (induction es arbitrary: st) (auto simp: clean_step_plain)

lemma fold_clean_rooted:
  "\<forall>e \<in> set es. slash \<notin> set e \<Longrightarrow> list_all plain_elem st
     \<Longrightarrow> list_all plain_elem (fold (clean_step True) es st)"
  by (induction es arbitrary: st) (auto intro: clean_step_rooted)

lemma path_clean_rooted:
  "path_clean (slash # p) =
     slash # join ''/'' (rev (fold (clean_step True) (split_on slash p) []))"
  by (simp add: path_clean_def clean_step_def Let_def)

lemma path_clean_abs_elems:
  obtains es where "path_clean (slash # p) = slash # join ''/'' es" "list_all plain_elem es"
proof
  show "path_clean (slash # p) =
      slash # join ''/'' (rev (fold (clean_step True) (split_on slash p) []))"
    by (rule path_clean_rooted)
  show "list_all plain_elem (rev (fold (clean_step True) (split_on slash p) []))"
    using fold_clean_rooted [of "split_on slash p" "[]"] split_on_no_sep by auto
qed

lemma path_clean_plain:
  assumes "list_all plain_elem es"
  shows "path_clean (slash # join ''/'' es) = slash # join ''/'' es"
proof (cases "es = []")
  case False
  then have "split_on slash (join [slash] es) = es"
    using assms by (intro split_on_join) (auto simp: plain_elem_def list_all_iff)
  then show ?thesis
    using fold_clean_plain [OF assms, of True "[]"] by (simp add: path_clean_rooted)
qed (simp add: path_clean_def clean_step_def)

lemma clean_abs_iff: "clean_abs p \<longleftrightarrow> (\<exists>es. list_all plain_elem es \<and> p = slash # join ''/'' es)"
proof
  assume c: "clean_abs p"
  then obtain q where p: "p = slash # q" by (cases p) (auto simp: clean_abs_def path_is_abs_def)
  obtain es where "path_clean (slash # q) = slash # join ''/'' es" "list_all plain_elem es"
    by (rule path_clean_abs_elems)
  then show "\<exists>es. list_all plain_elem es \<and> p = slash # join ''/'' es"
    using c p by (auto simp: clean_abs_def)
next
  assume "\<exists>es. list_all plain_elem es \<and> p = slash # join ''/'' es"
  then show "clean_abs p" by (auto simp: clean_abs_def path_is_abs_def path_clean_plain)
qed

lemma path_clean_clean_abs: "path_is_abs p \<Longrightarrow> clean_abs (path_clean p)"
proof -
  assume "path_is_abs p"
  then obtain q where "p = slash # q" by (cases p) (auto simp: path_is_abs_def)
  then show ?thesis using path_clean_abs_elems [of q] by (metis clean_abs_iff)
qed

lemma path_clean_idem: "path_is_abs p \<Longrightarrow> path_clean (path_clean p) = path_clean p"
  using path_clean_clean_abs by (simp add: clean_abs_def)

end
