(* ===== verification/Spec.thy ===== *)
theory Spec
  imports Prelude Regex GoPath
begin

text \<open>
  Package \<open>internal/spec\<close>: the data of one declared container, its constants and its patterns. The record \<open>spec\<close> is
  \<open>Spec\<close>, field by field; the errors of \<open>refuse\<close> are the constructors of \<open>spec_error\<close>, one per call, with the
  values the message quotes, and \<open>rule_of\<close> gives the rule. Defaults and validation are in \<open>Validate\<close>.
\<close>

section \<open>Data\<close>

subsection \<open>Constants\<close>

definition PolicyNo :: string where "PolicyNo = ''no''"
definition PolicyOnFailure :: string where "PolicyOnFailure = ''on-failure''"
definition PolicyAlways :: string where "PolicyAlways = ''always''"

definition NetworkHost :: string where "NetworkHost = ''host''"
definition NetworkNone :: string where "NetworkNone = ''none''"

definition ReadyRunning :: string where "ReadyRunning = ''running''"
definition ReadyHealthy :: string where "ReadyHealthy = ''healthy''"

definition CapAll :: string where "CapAll = ''ALL''"

definition Capabilities :: "string list" where
  "Capabilities =
    [''CAP_CHOWN'', ''CAP_DAC_OVERRIDE'', ''CAP_DAC_READ_SEARCH'', ''CAP_FOWNER'', ''CAP_FSETID'', ''CAP_KILL'',
     ''CAP_SETGID'', ''CAP_SETUID'', ''CAP_SETPCAP'', ''CAP_LINUX_IMMUTABLE'', ''CAP_NET_BIND_SERVICE'', ''CAP_NET_BROADCAST'',
     ''CAP_NET_ADMIN'', ''CAP_NET_RAW'', ''CAP_IPC_LOCK'', ''CAP_IPC_OWNER'', ''CAP_SYS_MODULE'', ''CAP_SYS_RAWIO'', ''CAP_SYS_CHROOT'',
     ''CAP_SYS_PTRACE'', ''CAP_SYS_PACCT'', ''CAP_SYS_ADMIN'', ''CAP_SYS_BOOT'', ''CAP_SYS_NICE'', ''CAP_SYS_RESOURCE'', ''CAP_SYS_TIME'',
     ''CAP_SYS_TTY_CONFIG'', ''CAP_MKNOD'', ''CAP_LEASE'', ''CAP_AUDIT_WRITE'', ''CAP_AUDIT_CONTROL'', ''CAP_SETFCAP'',
     ''CAP_MAC_OVERRIDE'', ''CAP_MAC_ADMIN'', ''CAP_SYSLOG'', ''CAP_WAKE_ALARM'', ''CAP_BLOCK_SUSPEND'', ''CAP_AUDIT_READ'',
     ''CAP_PERFMON'', ''CAP_BPF'', ''CAP_CHECKPOINT_RESTORE'']"

definition StartRetries :: int where "StartRetries = 3"
definition StartSeconds :: int where "StartSeconds = 1"
definition BackoffSeconds :: int where "BackoffSeconds = 1"
definition BackoffMaxSeconds :: int where "BackoffMaxSeconds = 60"

definition DefaultHealthIntervalSeconds :: int where "DefaultHealthIntervalSeconds = 30"
definition DefaultHealthTimeoutSeconds :: int where "DefaultHealthTimeoutSeconds = 10"
definition DefaultHealthRetries :: int where "DefaultHealthRetries = 3"

lemmas spec_consts = PolicyNo_def PolicyOnFailure_def PolicyAlways_def NetworkHost_def NetworkNone_def
  ReadyRunning_def ReadyHealthy_def CapAll_def StartRetries_def StartSeconds_def BackoffSeconds_def
  BackoffMaxSeconds_def DefaultHealthIntervalSeconds_def DefaultHealthTimeoutSeconds_def
  DefaultHealthRetries_def

subsection \<open>Structures\<close>

record health =
  hCommand :: "string list"
  hIntervalSeconds :: int
  hTimeoutSeconds :: int
  hRetries :: int
  hStartPeriodSeconds :: int

record dependency =
  dName :: string
  dReady :: string

record port =
  pHost :: "16 word"
  pContainer :: "16 word"
  pProtocol :: string

record volume =
  vHost :: string
  vContainer :: string
  vReadOnly :: bool
  vMake :: bool

record device =
  dvHost :: string
  dvContainer :: string
  dvPermissions :: string

record limits =
  lPids :: int
  lMemory :: string
  lCPU :: string

record restart =
  rPolicy :: string
  rMaxRestarts :: int

text \<open>
  A slice or map whose nil and empty values the code tells apart (in the JSON that is hashed)
  is an option: \<open>None\<close> is nil. The other slices are lists; their nil and empty values are the same
  everywhere the code reads them.
\<close>

record spec =
  sName :: string
  sProject :: string
  sService :: string
  sImage :: string
  sEntrypoint :: "string list"
  sUser :: string
  sWorkingDir :: string
  sCommand :: "string list option"
  sEnvironment :: "(string \<times> string) list option"
  sPublish :: "port list"
  sVolumes :: "volume list option"
  sNetwork :: string
  sAliases :: "string list"
  sNetworkMode :: string
  sCapAdd :: "string list"
  sCapDrop :: "string list"
  sDevices :: "device list"
  sDeviceCgroupRules :: "string list"
  sLimits :: limits
  sRestart :: restart
  sHealth :: "health option"
  sDependsOn :: "dependency list"

text \<open>The elements of a slice or map that may be nil: \<open>range\<close> over nil runs no iteration.\<close>

definition elems :: "'a list option \<Rightarrow> 'a list" where
  "elems xs = (case xs of None \<Rightarrow> [] | Some ys \<Rightarrow> ys)"

lemma elems_simps [simp]: "elems None = []" "elems (Some xs) = xs"
  by (simp_all add: elems_def)

text \<open>The zero value of \<open>Spec\<close>, the base of the composite literals in the code and the tests.\<close>

definition zero_spec :: spec where
  "zero_spec = \<lparr>sName = [], sProject = [], sService = [], sImage = [], sEntrypoint = [], sUser = [],
     sWorkingDir = [], sCommand = None, sEnvironment = None, sPublish = [], sVolumes = None,
     sNetwork = [], sAliases = [], sNetworkMode = [], sCapAdd = [], sCapDrop = [], sDevices = [],
     sDeviceCgroupRules = [], sLimits = \<lparr>lPids = 0, lMemory = [], lCPU = []\<rparr>,
     sRestart = \<lparr>rPolicy = [], rMaxRestarts = 0\<rparr>, sHealth = None, sDependsOn = []\<rparr>"

subsection \<open>Errors\<close>

datatype spec_error =
    BadName string
  | BadImage string
  | CommandNul
  | EntrypointNul
  | BadUser string
  | BadWorkingDir string
  | BadProject string string string
  | BadNetwork string
  | BadAlias string
  | ModeJoinsNoNetwork string
  | HostPublishesNoPort
  | BadNetworkMode string
  | BadCapability string
  | BadEnvKey string
  | EnvValueNul string
  | PortZero "16 word" "16 word"
  | BadProtocol string
  | PortTwice string
  | BadVolumePath string
  | BadDevicePath string
  | BadDeviceTarget string
  | BadPermissions string string
  | BadCgroupRule string
  | BadPids int
  | BadMemory string
  | BadCPU string
  | BadPolicy string
  | BadMaxRestarts int
  | HealthEmpty
  | HealthNul
  | HealthBounds
  | HealthTimeout int int
  | BadDependency string
  | BadReady string
  \<comment> \<open>the refusals of a name made by the supervisor: see \<open>SupervisorState\<close>\<close>
  | NameDeclaredBy string string
  | NameHeldBy string string
  | NameDeclaredTwice string string string

fun rule_of :: "spec_error \<Rightarrow> string" where
  "rule_of (BadName _) = ''name''"
| "rule_of (BadImage _) = ''image''"
| "rule_of CommandNul = ''command''"
| "rule_of EntrypointNul = ''entrypoint''"
| "rule_of (BadUser _) = ''user''"
| "rule_of (BadWorkingDir _) = ''working_dir''"
| "rule_of (BadProject _ _ _) = ''project''"
| "rule_of (BadNetwork _) = ''network''"
| "rule_of (BadAlias _) = ''network''"
| "rule_of (ModeJoinsNoNetwork _) = ''network''"
| "rule_of HostPublishesNoPort = ''publish''"
| "rule_of (BadNetworkMode _) = ''network''"
| "rule_of (BadCapability _) = ''capabilities''"
| "rule_of (BadEnvKey _) = ''environment''"
| "rule_of (EnvValueNul _) = ''environment''"
| "rule_of (PortZero _ _) = ''publish''"
| "rule_of (BadProtocol _) = ''publish''"
| "rule_of (PortTwice _) = ''publish''"
| "rule_of (BadVolumePath _) = ''volume''"
| "rule_of (BadDevicePath _) = ''devices''"
| "rule_of (BadDeviceTarget _) = ''devices''"
| "rule_of (BadPermissions _ _) = ''devices''"
| "rule_of (BadCgroupRule _) = ''devices''"
| "rule_of (BadPids _) = ''limits''"
| "rule_of (BadMemory _) = ''limits''"
| "rule_of (BadCPU _) = ''limits''"
| "rule_of (BadPolicy _) = ''restart''"
| "rule_of (BadMaxRestarts _) = ''restart''"
| "rule_of HealthEmpty = ''health''"
| "rule_of HealthNul = ''health''"
| "rule_of HealthBounds = ''health''"
| "rule_of (HealthTimeout _ _) = ''health''"
| "rule_of (BadDependency _) = ''depends_on''"
| "rule_of (BadReady _) = ''depends_on''"
| "rule_of (NameDeclaredBy _ _) = ''name''"
| "rule_of (NameHeldBy _ _) = ''name''"
| "rule_of (NameDeclaredTwice _ _ _) = ''name''"

section \<open>The patterns\<close>

abbreviation (input) lower_digit :: "(char \<times> char) list" where
  "lower_digit \<equiv> [(CHR ''a'', CHR ''z''), (CHR ''0'', CHR ''9'')]"

abbreviation (input) alnum :: "(char \<times> char) list" where
  "alnum \<equiv> [(CHR ''A'', CHR ''Z''), (CHR ''a'', CHR ''z''), (CHR ''0'', CHR ''9'')]"

abbreviation (input) one :: "char \<Rightarrow> char \<times> char" where "one c \<equiv> (c, c)"

definition nameRE :: regex where
  "nameRE = Seq (Cls lower_digit)
     (UpTo (Cls (lower_digit @ [one CHR ''_'', one CHR ''.'', one CHR ''-''])) 62)"

definition envKeyRE :: regex where
  "envKeyRE = Seq (Cls [(CHR ''A'', CHR ''Z''), (CHR ''a'', CHR ''z''), one CHR ''_''])
     (Star (Cls (alnum @ [one CHR ''_''])))"

definition userPartRE :: regex where
  "userPartRE = Seq (Cls (alnum @ [one CHR ''_'']))
     (UpTo (Cls (alnum @ [one CHR ''_'', one CHR ''.'', one CHR ''-''])) 31)"

definition userRE :: regex where
  "userRE = Seq userPartRE (Opt (Seq (Lit CHR '':'') userPartRE))"

definition digits :: regex where "digits = Cls [(CHR ''0'', CHR ''9'')]"

definition memoryRE :: regex where
  "memoryRE = Seq (Cls [(CHR ''1'', CHR ''9'')])
     (Seq (Star digits) (Cls [one CHR ''k'', one CHR ''m'', one CHR ''g'']))"

definition cpuRE :: regex where
  "cpuRE = Seq (Plus digits) (Opt (Seq (Lit CHR ''.'') (OneTo digits 3)))"

definition permCls :: regex where "permCls = Cls [one CHR ''r'', one CHR ''w'', one CHR ''m'']"

definition permRE :: regex where "permRE = OneTo permCls 3"

definition numberOrStar :: regex where
  "numberOrStar = Alt (Lit CHR ''*'') (Plus digits)"

definition ruleRE :: regex where
  "ruleRE = Seq (Cls [one CHR ''a'', one CHR ''b'', one CHR ''c''])
     (Seq (Lit CHR '' '') (Seq numberOrStar (Seq (Lit CHR '':'') (Seq numberOrStar
       (Seq (Lit CHR '' '') (OneTo permCls 3))))))"

definition ValidName :: "string \<Rightarrow> bool" where
  "ValidName name = matches nameRE name"

end
