(* ===== verification/Validate.thy ===== *)
theory Validate
  imports Spec
begin

text \<open>
  \<open>Spec.Normalized\<close> and \<open>Spec.Validate\<close>. Each check of \<open>Validate\<close> is one definition, in the code's order;
  \<open>validate\<close> is the first one that refuses.
\<close>

section \<open>Normalized\<close>

definition normalized_port :: "port \<Rightarrow> port" where
  "normalized_port p = (if pProtocol p = [] then p\<lparr>pProtocol := ''tcp''\<rparr> else p)"

definition normalized_health :: "health \<Rightarrow> health" where
  "normalized_health h0 =
     (let h1 = (if hIntervalSeconds h0 = 0 then h0\<lparr>hIntervalSeconds := DefaultHealthIntervalSeconds\<rparr> else h0);
          h2 = (if hTimeoutSeconds h1 = 0 then h1\<lparr>hTimeoutSeconds := DefaultHealthTimeoutSeconds\<rparr> else h1)
      in if hRetries h2 = 0 then h2\<lparr>hRetries := DefaultHealthRetries\<rparr> else h2)"

definition normalized_dependency :: "dependency \<Rightarrow> dependency" where
  "normalized_dependency d = (if dReady d = [] then d\<lparr>dReady := ReadyRunning\<rparr> else d)"

definition normalized_restart :: "restart \<Rightarrow> restart" where
  "normalized_restart r = (if rPolicy r = [] then r\<lparr>rPolicy := PolicyNo\<rparr> else r)"

definition normalized :: "spec \<Rightarrow> spec" where
  "normalized s = s\<lparr>
     sRestart := normalized_restart (sRestart s),
     sPublish := map normalized_port (sPublish s),
     sHealth := map_option normalized_health (sHealth s),
     sDependsOn := map normalized_dependency (sDependsOn s)\<rparr>"

lemma normalized_sel [simp]:
  "sName (normalized s) = sName s" "sProject (normalized s) = sProject s"
  "sService (normalized s) = sService s" "sImage (normalized s) = sImage s"
  "sEntrypoint (normalized s) = sEntrypoint s" "sUser (normalized s) = sUser s"
  "sWorkingDir (normalized s) = sWorkingDir s" "sCommand (normalized s) = sCommand s"
  "sEnvironment (normalized s) = sEnvironment s" "sVolumes (normalized s) = sVolumes s"
  "sNetwork (normalized s) = sNetwork s" "sAliases (normalized s) = sAliases s"
  "sNetworkMode (normalized s) = sNetworkMode s" "sCapAdd (normalized s) = sCapAdd s"
  "sCapDrop (normalized s) = sCapDrop s" "sDevices (normalized s) = sDevices s"
  "sDeviceCgroupRules (normalized s) = sDeviceCgroupRules s" "sLimits (normalized s) = sLimits s"
  "sPublish (normalized s) = map normalized_port (sPublish s)"
  "sHealth (normalized s) = map_option normalized_health (sHealth s)"
  "sDependsOn (normalized s) = map normalized_dependency (sDependsOn s)"
  "sRestart (normalized s) = normalized_restart (sRestart s)"
  by (simp_all add: normalized_def)

lemma normalized_port_idem [simp]: "normalized_port (normalized_port p) = normalized_port p"
  by (simp add: normalized_port_def)

lemma normalized_health_idem [simp]: "normalized_health (normalized_health h) = normalized_health h"
  by (simp add: normalized_health_def spec_consts Let_def)

lemma normalized_dependency_idem [simp]:
  "normalized_dependency (normalized_dependency d) = normalized_dependency d"
  by (simp add: normalized_dependency_def spec_consts)

lemma normalized_restart_idem [simp]:
  "normalized_restart (normalized_restart r) = normalized_restart r"
  by (simp add: normalized_restart_def spec_consts)

lemma normalized_port_host [simp]: "pHost (normalized_port p) = pHost p"
  "pContainer (normalized_port p) = pContainer p"
  by (simp_all add: normalized_port_def)

lemma normalized_dependency_name [simp]: "dName (normalized_dependency d) = dName d"
  by (simp add: normalized_dependency_def)

lemma normalized_health_sel [simp]: "hCommand (normalized_health h) = hCommand h"
  "hStartPeriodSeconds (normalized_health h) = hStartPeriodSeconds h"
  by (simp_all add: normalized_health_def Let_def)

lemma normalized_restart_max [simp]: "rMaxRestarts (normalized_restart r) = rMaxRestarts r"
  by (simp add: normalized_restart_def)

lemma normalized_idem [simp]: "normalized (normalized s) = normalized s"
  by (cases "sHealth s") (simp_all add: normalized_def comp_def)

section \<open>The checks\<close>

definition check_image :: "spec \<Rightarrow> spec_error option" where
  "check_image s = guard (sImage s = [] \<or> length (sImage s) > 512 \<or> has_prefix (sImage s) ''-''
       \<or> contains_any (sImage s) [CHR '' '', CHR 0x09, CHR 0x0A, nul]) (BadImage (sImage s))"

definition check_args :: "spec_error \<Rightarrow> string list \<Rightarrow> spec_error option" where
  "check_args e args = first_some (map (\<lambda>arg. guard (contains_any arg [nul]) e) args)"

definition check_user :: "spec \<Rightarrow> spec_error option" where
  "check_user s = guard (sUser s \<noteq> [] \<and> \<not> matches userRE (sUser s)) (BadUser (sUser s))"

definition check_working_dir :: "spec \<Rightarrow> spec_error option" where
  "check_working_dir s =
     guard (sWorkingDir s \<noteq> [] \<and> (\<not> path_is_abs (sWorkingDir s) \<or> path_clean (sWorkingDir s) \<noteq> sWorkingDir s
         \<or> contains_any (sWorkingDir s) [nul])) (BadWorkingDir (sWorkingDir s))"

definition check_project :: "spec \<Rightarrow> spec_error option" where
  "check_project s = guard (\<not> matches nameRE (sProject s) \<or> \<not> matches nameRE (sService s))
     (BadProject (sName s) (sProject s) (sService s))"

definition check_network :: "spec \<Rightarrow> spec_error option" where
  "check_network s =
     (if sNetworkMode s = [] then
        first_some (guard (\<not> matches nameRE (sNetwork s)) (BadNetwork (sNetwork s))
          # map (\<lambda>a. guard (\<not> matches nameRE a) (BadAlias a)) (sAliases s))
      else if sNetworkMode s = NetworkHost \<or> sNetworkMode s = NetworkNone then
        first_some
          [guard (sNetwork s \<noteq> [] \<or> length (sAliases s) > 0) (ModeJoinsNoNetwork (sNetworkMode s)),
           guard (sNetworkMode s = NetworkHost \<and> length (sPublish s) > 0) HostPublishesNoPort]
      else Some (BadNetworkMode (sNetworkMode s)))"

definition check_capabilities :: "spec \<Rightarrow> spec_error option" where
  "check_capabilities s =
     first_some (map (\<lambda>c. guard (c \<noteq> CapAll \<and> \<not> List.member Capabilities c) (BadCapability c))
       (sCapAdd s @ sCapDrop s))"

definition check_environment :: "spec \<Rightarrow> spec_error option" where
  "check_environment s =
     first_some (concat (map (\<lambda>(k, v). [guard (\<not> matches envKeyRE k) (BadEnvKey k),
       guard (contains_any v [nul]) (EnvValueNul k)]) (elems (sEnvironment s))))"

text \<open>\<open>seen\<close> is the set of the keys \<open>host/protocol\<close> so far.\<close>

definition port_key :: "port \<Rightarrow> string" where
  "port_key p = show_nat (unat (pHost p)) @ ''/'' @ pProtocol p"

fun check_publish :: "string list \<Rightarrow> port list \<Rightarrow> spec_error option" where
  "check_publish seen [] = None"
| "check_publish seen (p # ps) =
     (if pHost p = 0 \<or> pContainer p = 0 then Some (PortZero (pHost p) (pContainer p))
      else if pProtocol p \<noteq> ''tcp'' \<and> pProtocol p \<noteq> ''udp'' then Some (BadProtocol (pProtocol p))
      else if List.member seen (port_key p) then Some (PortTwice (port_key p))
      else check_publish (port_key p # seen) ps)"

definition check_volumes :: "spec \<Rightarrow> spec_error option" where
  "check_volumes s =
     first_some (map (\<lambda>p. guard (\<not> path_is_abs p \<or> path_clean p \<noteq> p
         \<or> contains_any p [CHR '':'', CHR '','', nul]) (BadVolumePath p))
       (concat (map (\<lambda>v. [vHost v, vContainer v]) (elems (sVolumes s)))))"

definition check_device :: "device \<Rightarrow> spec_error option" where
  "check_device d = first_some
     [guard (\<not> path_is_abs (dvHost d) \<or> path_clean (dvHost d) \<noteq> dvHost d
        \<or> contains_any (dvHost d) [nul]) (BadDevicePath (dvHost d)),
      guard (\<not> path_is_abs (dvContainer d) \<or> path_clean (dvContainer d) \<noteq> dvContainer d
        \<or> contains_any (dvContainer d) [CHR '':'', CHR '','', nul]) (BadDeviceTarget (dvContainer d)),
      guard (\<not> matches permRE (dvPermissions d)) (BadPermissions (dvHost d) (dvPermissions d))]"

definition check_devices :: "spec \<Rightarrow> spec_error option" where
  "check_devices s = first_some (map check_device (sDevices s)
     @ map (\<lambda>r. guard (\<not> matches ruleRE r) (BadCgroupRule r)) (sDeviceCgroupRules s))"

text \<open>\<open>strings.Trim(s, cutset)\<close>.\<close>

definition trim_set :: "string \<Rightarrow> string \<Rightarrow> string" where
  "trim_set s cs = rev (dropWhile (\<lambda>c. List.member cs c) (rev (dropWhile (\<lambda>c. List.member cs c) s)))"

definition check_limits :: "limits \<Rightarrow> spec_error option" where
  "check_limits l = first_some
     [guard (lPids l < 0 \<or> lPids l > 65536) (BadPids (lPids l)),
      guard (lMemory l \<noteq> [] \<and> \<not> matches memoryRE (lMemory l)) (BadMemory (lMemory l)),
      guard (lCPU l \<noteq> [] \<and> (\<not> matches cpuRE (lCPU l) \<or> trim_set (lCPU l) ''0.'' = [])) (BadCPU (lCPU l))]"

definition check_restart :: "restart \<Rightarrow> spec_error option" where
  "check_restart r = first_some
     [guard (\<not> (rPolicy r = PolicyNo \<or> rPolicy r = PolicyOnFailure \<or> rPolicy r = PolicyAlways)) (BadPolicy (rPolicy r)),
      guard (rMaxRestarts r < 0) (BadMaxRestarts (rMaxRestarts r))]"

definition check_health :: "spec \<Rightarrow> spec_error option" where
  "check_health s =
     (case sHealth s of
        None \<Rightarrow> None
      | Some h \<Rightarrow> first_some
          [guard (case hCommand h of [] \<Rightarrow> True | c # _ \<Rightarrow> c = []) HealthEmpty,
           check_args HealthNul (hCommand h),
           guard (hIntervalSeconds h < 1 \<or> hTimeoutSeconds h < 1 \<or> hRetries h < 1 \<or> hStartPeriodSeconds h < 0) HealthBounds,
           guard (hTimeoutSeconds h > hIntervalSeconds h) (HealthTimeout (hTimeoutSeconds h) (hIntervalSeconds h))])"

fun check_depends_on :: "string \<Rightarrow> string list \<Rightarrow> dependency list \<Rightarrow> spec_error option" where
  "check_depends_on name seen [] = None"
| "check_depends_on name seen (d # ds) =
     (if \<not> matches nameRE (dName d) \<or> dName d = name \<or> List.member seen (dName d) then Some (BadDependency (dName d))
      else if dReady d \<noteq> ReadyRunning \<and> dReady d \<noteq> ReadyHealthy then Some (BadReady (dReady d))
      else check_depends_on name (dName d # seen) ds)"

definition validate :: "spec \<Rightarrow> spec_error option" where
  "validate s0 =
     (let s = normalized s0
      in first_some
        [guard (\<not> matches nameRE (sName s)) (BadName (sName s)),
         check_image s,
         check_args CommandNul (elems (sCommand s)),
         check_args EntrypointNul (sEntrypoint s),
         check_user s,
         check_working_dir s,
         check_project s,
         check_network s,
         check_capabilities s,
         check_environment s,
         check_publish [] (sPublish s),
         check_volumes s,
         check_devices s,
         check_limits (sLimits s),
         check_restart (sRestart s),
         check_health s,
         check_depends_on (sName s) [] (sDependsOn s)])"

end
