(* ===== verification/ValidSpec.thy ===== *)
theory ValidSpec
  imports Validate
begin

text \<open>
  What a valid spec is, said of the bytes and elements of its fields: no pattern, no loop and no
  order of checks. \<open>validate_iff\<close> is that \<open>Validate\<close> decides it.
\<close>

section \<open>The specification\<close>

definition byte_in :: "char \<Rightarrow> char \<Rightarrow> char \<Rightarrow> bool" where
  "byte_in l h c \<longleftrightarrow> (of_char l :: nat) \<le> of_char c \<and> (of_char c :: nat) \<le> of_char h"

abbreviation lower_or_digit :: "char \<Rightarrow> bool" where
  "lower_or_digit c \<equiv> byte_in CHR ''a'' CHR ''z'' c \<or> byte_in CHR ''0'' CHR ''9'' c"

abbreviation letter_or_digit :: "char \<Rightarrow> bool" where
  "letter_or_digit c \<equiv> byte_in CHR ''A'' CHR ''Z'' c \<or> lower_or_digit c"

text \<open>1 to 63 of \<open>[a-z0-9_.-]\<close>, starting with \<open>[a-z0-9]\<close>.\<close>

definition container_name :: "string \<Rightarrow> bool" where
  "container_name n \<longleftrightarrow> n \<noteq> [] \<and> length n \<le> 63 \<and> lower_or_digit (hd n)
     \<and> (\<forall>c \<in> set (tl n). lower_or_digit c \<or> c \<in> {CHR ''_'', CHR ''.'', CHR ''-''})"

definition env_key :: "string \<Rightarrow> bool" where
  "env_key k \<longleftrightarrow> k \<noteq> [] \<and> \<not> byte_in CHR ''0'' CHR ''9'' (hd k)
     \<and> (\<forall>c \<in> set k. letter_or_digit c \<or> c = CHR ''_'')"

definition user_part :: "string \<Rightarrow> bool" where
  "user_part u \<longleftrightarrow> u \<noteq> [] \<and> length u \<le> 32 \<and> (letter_or_digit (hd u) \<or> hd u = CHR ''_'')
     \<and> (\<forall>c \<in> set (tl u). letter_or_digit c \<or> c \<in> {CHR ''_'', CHR ''.'', CHR ''-''})"

definition user_or_group :: "string \<Rightarrow> bool" where
  "user_or_group u \<longleftrightarrow> user_part u \<or> (\<exists>n g. u = n @ '':'' @ g \<and> user_part n \<and> user_part g)"

definition decimal :: "string \<Rightarrow> bool" where
  "decimal s \<longleftrightarrow> s \<noteq> [] \<and> (\<forall>c \<in> set s. is_digit c)"

definition memory_size :: "string \<Rightarrow> bool" where
  "memory_size m \<longleftrightarrow> (\<exists>n u. m = n @ [u] \<and> decimal n \<and> hd n \<noteq> CHR ''0''
     \<and> u \<in> {CHR ''k'', CHR ''m'', CHR ''g''})"

definition cpu_number :: "string \<Rightarrow> bool" where
  "cpu_number c \<longleftrightarrow> decimal c \<or> (\<exists>i f. c = i @ ''.'' @ f \<and> decimal i \<and> decimal f \<and> length f \<le> 3)"

definition permissions :: "string \<Rightarrow> bool" where
  "permissions p \<longleftrightarrow> p \<noteq> [] \<and> length p \<le> 3 \<and> set p \<subseteq> {CHR ''r'', CHR ''w'', CHR ''m''}"

definition number_or_star :: "string \<Rightarrow> bool" where
  "number_or_star n \<longleftrightarrow> n = ''*'' \<or> decimal n"

definition cgroup_type :: "char \<Rightarrow> bool" where
  "cgroup_type t \<longleftrightarrow> t \<in> {CHR ''a'', CHR ''b'', CHR ''c''}"

definition cgroup_rule :: "string \<Rightarrow> bool" where
  "cgroup_rule r \<longleftrightarrow> (\<exists>t maj mnr p. r = [t] @ '' '' @ maj @ '':'' @ mnr @ '' '' @ p
     \<and> cgroup_type t \<and> number_or_star maj \<and> number_or_star mnr \<and> permissions p)"

section \<open>The patterns are these\<close>

lemma in_cls_simps [simp]:
  "in_cls c [] \<longleftrightarrow> False"
  "in_cls c ((l, h) # rs) \<longleftrightarrow> byte_in l h c \<or> in_cls c rs"
  by (simp_all add: in_cls_def byte_in_def)

lemma in_cls_append [simp]: "in_cls c (rs @ qs) \<longleftrightarrow> in_cls c rs \<or> in_cls c qs"
  by (simp add: in_cls_def)

lemma byte_in_self [simp]: "byte_in d d c \<longleftrightarrow> c = d"
  by (auto simp: byte_in_def)

lemma byte_in_digit: "byte_in CHR ''0'' CHR ''9'' c \<longleftrightarrow> is_digit c"
  by (simp add: byte_in_def is_digit_def)

lemma nameRE_iff: "matches nameRE n \<longleftrightarrow> container_name n"
  unfolding nameRE_def matches_head_UpTo container_name_def
  by (cases n) (auto simp: list_all_iff)

lemma ValidName_iff: "ValidName n \<longleftrightarrow> container_name n"
  by (simp add: ValidName_def nameRE_iff)

lemma digit_not_letter:
  "byte_in CHR ''A'' CHR ''Z'' c \<Longrightarrow> \<not> byte_in CHR ''0'' CHR ''9'' c"
  "byte_in CHR ''a'' CHR ''z'' c \<Longrightarrow> \<not> byte_in CHR ''0'' CHR ''9'' c"
  "\<not> byte_in CHR ''0'' CHR ''9'' CHR ''_''"
  by (auto simp: byte_in_def)

lemma envKeyRE_iff: "matches envKeyRE k \<longleftrightarrow> env_key k"
  unfolding envKeyRE_def matches_lang lang_Seq_Cls lang_Star_Cls env_key_def
  by (cases k) (auto simp: digit_not_letter)

lemma lang_userPartRE: "u \<in> lang userPartRE \<longleftrightarrow> user_part u"
  unfolding userPartRE_def lang_Seq_Cls lang_UpTo_Cls user_part_def
  by (cases u) auto

lemma lang_Opt: "s \<in> lang (Opt r) \<longleftrightarrow> s = [] \<or> s \<in> lang r"
proof -
  have "lang (Opt r) = pow (lang r) 0 \<union> pow (lang r) 1"
    unfolding Opt_def lang.simps(7) by (auto simp: atMost_Suc)
  then show ?thesis by (auto simp: conc_def)
qed

lemma lang_Seq: "s \<in> lang (Seq p q) \<longleftrightarrow> (\<exists>u v. s = u @ v \<and> u \<in> lang p \<and> v \<in> lang q)"
  by (auto simp: conc_def)

lemma lang_Lit: "s \<in> lang (Lit c) \<longleftrightarrow> s = [c]"
  by (auto simp: Lit_def)

lemma lang_Seq_Lit: "s \<in> lang (Seq (Lit c) r) \<longleftrightarrow> (\<exists>t. s = c # t \<and> t \<in> lang r)"
  unfolding lang_Seq lang_Lit by auto

lemma lang_Plus_Cls: "s \<in> lang (Plus (Cls rs)) \<longleftrightarrow> s \<noteq> [] \<and> (\<forall>c \<in> set s. in_cls c rs)"
  unfolding Plus_def lang_Seq_Cls lang_Star_Cls by (cases s) auto

lemma lang_OneTo_Cls: "0 < n \<Longrightarrow>
    s \<in> lang (OneTo (Cls rs) n) \<longleftrightarrow> s \<noteq> [] \<and> length s \<le> n \<and> (\<forall>c \<in> set s. in_cls c rs)"
  using matches_OneTo [of n rs s] by (simp add: matches_lang list_all_iff)

lemma userRE_iff: "matches userRE u \<longleftrightarrow> user_or_group u"
  unfolding userRE_def matches_lang lang_Seq [of _ userPartRE] lang_Opt
    lang_Seq [of _ "Lit CHR '':''" userPartRE] lang_Lit lang_userPartRE user_or_group_def
  by auto

lemma lang_digits: "s \<in> lang (Plus digits) \<longleftrightarrow> decimal s"
  by (auto simp: digits_def lang_Plus_Cls decimal_def byte_in_digit)

lemma byte_in_19: "byte_in CHR ''1'' CHR ''9'' c \<longleftrightarrow> is_digit c \<and> c \<noteq> CHR ''0''"
proof -
  have "(of_char c :: nat) = 48 \<longleftrightarrow> c = CHR ''0''"
    using of_char_eq_iff [of c "CHR ''0''", where ?'a = nat] by simp
  then show ?thesis by (auto simp: byte_in_def is_digit_def)
qed

lemma memoryRE_iff: "matches memoryRE m \<longleftrightarrow> memory_size m"
proof -
  have "matches memoryRE m \<longleftrightarrow>
      (\<exists>d n u. m = d # n @ [u] \<and> is_digit d \<and> d \<noteq> CHR ''0'' \<and> (\<forall>c \<in> set n. is_digit c)
        \<and> u \<in> {CHR ''k'', CHR ''m'', CHR ''g''})"
    unfolding memoryRE_def digits_def matches_lang lang_Seq_Cls
      lang_Seq [of _ "Star _"] lang_Star_Cls
    by (auto simp: byte_in_digit byte_in_19) blast+
  also have "\<dots> \<longleftrightarrow> memory_size m"
    unfolding memory_size_def decimal_def
    by (auto simp: neq_Nil_conv)
  finally show ?thesis .
qed

lemma lang_frac: "s \<in> lang (OneTo digits 3) \<longleftrightarrow> decimal s \<and> length s \<le> 3"
  by (auto simp: digits_def lang_OneTo_Cls decimal_def byte_in_digit)

lemma cpuRE_iff: "matches cpuRE c \<longleftrightarrow> cpu_number c"
  unfolding cpuRE_def matches_lang lang_Seq [of _ "Plus _"] lang_Opt lang_Seq [of _ "Lit _"]
    lang_Lit lang_digits lang_frac cpu_number_def
  by auto

lemma permCls_lang: "p \<in> lang (OneTo permCls 3) \<longleftrightarrow> permissions p"
  unfolding permCls_def permissions_def by (auto simp: lang_OneTo_Cls)

lemma permRE_iff: "matches permRE p \<longleftrightarrow> permissions p"
  by (simp add: permRE_def matches_lang permCls_lang)

lemma lang_numberOrStar: "s \<in> lang numberOrStar \<longleftrightarrow> number_or_star s"
  unfolding numberOrStar_def lang.simps(5) Un_iff lang_Lit lang_digits number_or_star_def ..

lemma in_cls_cgroup: "in_cls t [(CHR ''a'', CHR ''a''), (CHR ''b'', CHR ''b''), (CHR ''c'', CHR ''c'')]
    \<longleftrightarrow> cgroup_type t"
  by (simp add: cgroup_type_def)

lemma ruleRE_iff: "matches ruleRE r \<longleftrightarrow> cgroup_rule r"
proof -
  let ?p = "Seq (Lit CHR '' '') (OneTo permCls 3)"
  have 1: "w \<in> lang ?p \<longleftrightarrow> (\<exists>p. w = CHR '' '' # p \<and> permissions p)" for w
    unfolding lang_Seq_Lit permCls_lang ..
  have 2: "w \<in> lang (Seq numberOrStar ?p) \<longleftrightarrow>
      (\<exists>n p. w = n @ CHR '' '' # p \<and> number_or_star n \<and> permissions p)" for w
    unfolding lang_Seq [of _ numberOrStar] 1 lang_numberOrStar by blast
  have 3: "w \<in> lang (Seq numberOrStar (Seq (Lit CHR '':'') (Seq numberOrStar ?p))) \<longleftrightarrow>
      (\<exists>m n p. w = m @ CHR '':'' # n @ CHR '' '' # p
        \<and> number_or_star m \<and> number_or_star n \<and> permissions p)" for w
    unfolding lang_Seq [of _ numberOrStar "Seq (Lit CHR '':'') _"] lang_Seq_Lit 2 lang_numberOrStar
    by blast
  show ?thesis
    unfolding ruleRE_def matches_lang lang_Seq_Cls in_cls_cgroup lang_Seq_Lit 3 cgroup_rule_def
    by (simp only: append_Cons append_Nil) blast
qed

section \<open>A valid spec\<close>

definition image_ref :: "string \<Rightarrow> bool" where
  "image_ref i \<longleftrightarrow> i \<noteq> [] \<and> length i \<le> 512 \<and> hd i \<noteq> CHR ''-''
     \<and> (\<forall>c \<in> set i. c \<notin> {CHR '' '', CHR 0x09, CHR 0x0A, nul})"

definition no_nul :: "string \<Rightarrow> bool" where "no_nul s \<longleftrightarrow> nul \<notin> set s"

definition plain_path :: "string \<Rightarrow> bool" where
  "plain_path p \<longleftrightarrow> clean_abs p \<and> CHR '':'' \<notin> set p \<and> CHR '','' \<notin> set p \<and> no_nul p"

definition valid_network :: "spec \<Rightarrow> bool" where
  "valid_network s \<longleftrightarrow>
     (sNetworkMode s = [] \<and> container_name (sNetwork s) \<and> (\<forall>a \<in> set (sAliases s). container_name a))
   \<or> (sNetworkMode s \<in> {''host'', ''none''} \<and> sNetwork s = [] \<and> sAliases s = []
      \<and> (sNetworkMode s = ''host'' \<longrightarrow> sPublish s = []))"

text \<open>The published ports, an empty protocol being tcp: no host port twice for one protocol.\<close>

definition valid_publish :: "port list \<Rightarrow> bool" where
  "valid_publish ps \<longleftrightarrow>
     (\<forall>p \<in> set ps. pHost p \<noteq> 0 \<and> pContainer p \<noteq> 0 \<and> pProtocol p \<in> {[], ''tcp'', ''udp''})
   \<and> distinct (map (\<lambda>p. (pHost p, pProtocol p = ''udp'')) ps)"

definition valid_device :: "device \<Rightarrow> bool" where
  "valid_device d \<longleftrightarrow> clean_abs (dvHost d) \<and> no_nul (dvHost d) \<and> plain_path (dvContainer d)
     \<and> permissions (dvPermissions d)"

definition valid_limits :: "limits \<Rightarrow> bool" where
  "valid_limits l \<longleftrightarrow> 0 \<le> lPids l \<and> lPids l \<le> 65536
     \<and> (lMemory l = [] \<or> memory_size (lMemory l))
     \<and> (lCPU l = [] \<or> cpu_number (lCPU l) \<and> (\<exists>c \<in> set (lCPU l). c \<notin> {CHR ''0'', CHR ''.''}))"

text \<open>A health check's values, zero standing for the default.\<close>

definition or_default :: "int \<Rightarrow> int \<Rightarrow> int" where "or_default d x = (if x = 0 then d else x)"

definition valid_health :: "health \<Rightarrow> bool" where
  "valid_health h \<longleftrightarrow> (\<exists>c cs. hCommand h = c # cs \<and> c \<noteq> []) \<and> (\<forall>a \<in> set (hCommand h). no_nul a)
     \<and> 1 \<le> or_default 10 (hTimeoutSeconds h)
     \<and> or_default 10 (hTimeoutSeconds h) \<le> or_default 30 (hIntervalSeconds h)
     \<and> 0 \<le> hRetries h \<and> 0 \<le> hStartPeriodSeconds h"

definition valid_depends_on :: "string \<Rightarrow> dependency list \<Rightarrow> bool" where
  "valid_depends_on n ds \<longleftrightarrow> distinct (map dName ds)
     \<and> (\<forall>d \<in> set ds. container_name (dName d) \<and> dName d \<noteq> n \<and> dReady d \<in> {[], ''running'', ''healthy''})"

definition valid_spec :: "spec \<Rightarrow> bool" where
  "valid_spec s \<longleftrightarrow>
     container_name (sName s) \<and> container_name (sProject s) \<and> container_name (sService s)
   \<and> image_ref (sImage s)
   \<and> (\<forall>a \<in> set (elems (sCommand s)) \<union> set (sEntrypoint s). no_nul a)
   \<and> (sUser s = [] \<or> user_or_group (sUser s))
   \<and> (sWorkingDir s = [] \<or> clean_abs (sWorkingDir s) \<and> no_nul (sWorkingDir s))
   \<and> valid_network s
   \<and> set (sCapAdd s) \<union> set (sCapDrop s) \<subseteq> insert ''ALL'' (set Capabilities)
   \<and> (\<forall>(k, v) \<in> set (elems (sEnvironment s)). env_key k \<and> no_nul v)
   \<and> valid_publish (sPublish s)
   \<and> (\<forall>v \<in> set (elems (sVolumes s)). plain_path (vHost v) \<and> plain_path (vContainer v))
   \<and> (\<forall>d \<in> set (sDevices s). valid_device d)
   \<and> (\<forall>r \<in> set (sDeviceCgroupRules s). cgroup_rule r)
   \<and> valid_limits (sLimits s)
   \<and> rPolicy (sRestart s) \<in> {[], ''no'', ''on-failure'', ''always''} \<and> 0 \<le> rMaxRestarts (sRestart s)
   \<and> (case sHealth s of None \<Rightarrow> True | Some h \<Rightarrow> valid_health h)
   \<and> valid_depends_on (sName s) (sDependsOn s)"

section \<open>Each check decides its part\<close>

lemma check_image_None: "check_image s = None \<longleftrightarrow> image_ref (sImage s)"
proof (cases "sImage s")
  case (Cons c cs)
  have "contains_any (c # cs) [CHR '' '', CHR 0x09, CHR 0x0A, nul]
      \<longleftrightarrow> \<not> (\<forall>x \<in> set (c # cs). x \<notin> {CHR '' '', CHR 0x09, CHR 0x0A, nul})"
    unfolding contains_any_iff by simp
  then show ?thesis by (simp add: check_image_def image_ref_def Cons del: set_simps)
    (meson linorder_not_less)
qed (simp add: check_image_def image_ref_def)

lemma check_args_None: "check_args e xs = None \<longleftrightarrow> (\<forall>a \<in> set xs. no_nul a)"
  by (auto simp: check_args_def no_nul_def contains_any_iff)

lemma check_user_None: "check_user s = None \<longleftrightarrow> sUser s = [] \<or> user_or_group (sUser s)"
  by (auto simp: check_user_def userRE_iff)

lemma check_working_dir_None: "check_working_dir s = None \<longleftrightarrow>
    sWorkingDir s = [] \<or> clean_abs (sWorkingDir s) \<and> no_nul (sWorkingDir s)"
  by (auto simp: check_working_dir_def clean_abs_def no_nul_def contains_any_iff)

lemma check_project_None: "check_project s = None \<longleftrightarrow>
    container_name (sProject s) \<and> container_name (sService s)"
  by (auto simp: check_project_def nameRE_iff)

lemma check_network_None: "check_network s = None \<longleftrightarrow> valid_network s"
  by (auto simp: check_network_def valid_network_def nameRE_iff spec_consts)

lemma check_capabilities_None: "check_capabilities s = None \<longleftrightarrow>
    set (sCapAdd s) \<union> set (sCapDrop s) \<subseteq> insert ''ALL'' (set Capabilities)"
  by (auto simp: check_capabilities_def spec_consts List.member_iff ball_Un)

lemma check_environment_None: "check_environment s = None \<longleftrightarrow>
    (\<forall>(k, v) \<in> set (elems (sEnvironment s)). env_key k \<and> no_nul v)"
  by (fastforce simp: check_environment_def envKeyRE_iff no_nul_def contains_any_iff)

lemma plain_path_iff: "plain_path p \<longleftrightarrow>
    \<not> (\<not> path_is_abs p \<or> path_clean p \<noteq> p \<or> contains_any p [CHR '':'', CHR '','', nul])"
  by (auto simp: plain_path_def clean_abs_def no_nul_def contains_any_iff)

lemma check_volumes_None: "check_volumes s = None \<longleftrightarrow>
    (\<forall>v \<in> set (elems (sVolumes s)). plain_path (vHost v) \<and> plain_path (vContainer v))"
  unfolding check_volumes_def first_some_None set_map ball_simps guard_None plain_path_iff [symmetric]
  by auto

lemma check_device_None: "check_device d = None \<longleftrightarrow> valid_device d"
  by (auto simp: check_device_def valid_device_def plain_path_def clean_abs_def no_nul_def
      contains_any_iff permRE_iff)

lemma check_devices_None: "check_devices s = None \<longleftrightarrow>
    (\<forall>d \<in> set (sDevices s). valid_device d) \<and> (\<forall>r \<in> set (sDeviceCgroupRules s). cgroup_rule r)"
  by (auto simp: check_devices_def check_device_None ruleRE_iff ball_Un)

lemma dropWhile_Nil_iff: "dropWhile P xs = [] \<longleftrightarrow> (\<forall>x \<in> set xs. P x)"
  by (induction xs) auto

lemma dropWhile_both_Nil: "dropWhile P (rev (dropWhile P xs)) = [] \<longleftrightarrow> (\<forall>x \<in> set xs. P x)"
proof (induction xs)
  case (Cons x xs)
  then show ?case by (cases "P x") (auto simp: dropWhile_Nil_iff)
qed simp

lemma trim_set_Nil: "trim_set s cs = [] \<longleftrightarrow> (\<forall>c \<in> set s. c \<in> set cs)"
  unfolding trim_set_def rev_is_Nil_conv dropWhile_both_Nil by (simp add: List.member_iff)

lemma check_limits_None: "check_limits l = None \<longleftrightarrow> valid_limits l"
  by (auto simp: check_limits_def valid_limits_def memoryRE_iff cpuRE_iff trim_set_Nil)

lemma check_restart_None: "check_restart (normalized_restart r) = None \<longleftrightarrow>
    rPolicy r \<in> {[], ''no'', ''on-failure'', ''always''} \<and> 0 \<le> rMaxRestarts r"
  by (auto simp: check_restart_def normalized_restart_def spec_consts)

lemma check_health_None: "check_health (normalized s) = None \<longleftrightarrow>
    (case sHealth s of None \<Rightarrow> True | Some h \<Rightarrow> valid_health h)"
  by (auto simp: check_health_def check_args_None valid_health_def or_default_def
      normalized_health_def spec_consts Let_def split: option.splits list.splits if_splits)

lemma check_depends_on_None: "check_depends_on n seen (map normalized_dependency ds) = None \<longleftrightarrow>
    valid_depends_on n ds \<and> set seen \<inter> dName ` set ds = {}"
proof (induction ds arbitrary: seen)
  case (Cons d ds)
  then show ?case
    by (auto simp: valid_depends_on_def nameRE_iff normalized_dependency_def spec_consts List.member_iff)
qed (simp add: valid_depends_on_def)

subsection \<open>The published ports\<close>

lemma port_key_eq: "port_key p = port_key q \<longleftrightarrow> pHost p = pHost q \<and> pProtocol p = pProtocol q"
proof
  assume eq: "port_key p = port_key q"
  have slash: "CHR ''/'' \<notin> set (show_nat n)" for n
    by (rule show_nat_not_in) (simp add: is_digit_def)
  have "cut CHR ''/'' (port_key r) = (show_nat (unat (pHost r)), Some (pProtocol r))" for r
    using cut_append [OF slash] by (simp add: port_key_def)
  then have "show_nat (unat (pHost p)) = show_nat (unat (pHost q)) \<and> pProtocol p = pProtocol q"
    using eq by (metis option.inject prod.inject)
  then show "pHost p = pHost q \<and> pProtocol p = pProtocol q"
    unfolding show_nat_inj by (blast intro: unsigned_word_eqI)
qed (simp add: port_key_def)

definition protocol_ok :: "port \<Rightarrow> bool" where
  "protocol_ok p \<longleftrightarrow> pProtocol p \<in> {[], ''tcp'', ''udp''}"

lemma normalized_protocol: "pProtocol (normalized_port p) \<noteq> ''tcp'' \<and> pProtocol (normalized_port p) \<noteq> ''udp''
    \<longleftrightarrow> \<not> protocol_ok p"
  by (auto simp: normalized_port_def protocol_ok_def)

lemma normalized_port_key: "protocol_ok p \<Longrightarrow> protocol_ok q \<Longrightarrow>
    port_key (normalized_port p) = port_key (normalized_port q)
      \<longleftrightarrow> (pHost p, pProtocol p = ''udp'') = (pHost q, pProtocol q = ''udp'')"
  unfolding port_key_eq normalized_port_def protocol_ok_def
  by (elim insertE emptyE) simp_all

lemma check_publish_iff: "check_publish seen (map normalized_port ps) = None \<longleftrightarrow>
    (\<forall>p \<in> set ps. pHost p \<noteq> 0 \<and> pContainer p \<noteq> 0 \<and> protocol_ok p)
    \<and> distinct (map (port_key \<circ> normalized_port) ps)
    \<and> (\<forall>p \<in> set ps. port_key (normalized_port p) \<notin> set seen)"
proof (induction ps arbitrary: seen)
  case (Cons p ps)
  show ?case
    unfolding list.map check_publish.simps normalized_protocol normalized_port_host List.member_iff
    using Cons.IH [of "port_key (normalized_port p) # seen"] by (auto simp: image_iff comp_def)
qed simp

lemma distinct_map_cong_inj:
  assumes "\<And>x y. x \<in> set xs \<Longrightarrow> y \<in> set xs \<Longrightarrow> f x = f y \<longleftrightarrow> g x = g y"
  shows "distinct (map f xs) \<longleftrightarrow> distinct (map g xs)"
  using assms by (induction xs) (simp_all add: image_iff)

lemma check_publish_None: "check_publish [] (map normalized_port ps) = None \<longleftrightarrow> valid_publish ps"
proof -
  have "distinct (map (port_key \<circ> normalized_port) ps)
      \<longleftrightarrow> distinct (map (\<lambda>p. (pHost p, pProtocol p = ''udp'')) ps)"
    if "\<forall>p \<in> set ps. protocol_ok p"
    using that normalized_port_key by (intro distinct_map_cong_inj) simp
  then show ?thesis
    unfolding check_publish_iff valid_publish_def by (auto simp: protocol_ok_def)
qed

section \<open>Validate\<close>

lemma valid_network_normalized: "valid_network (normalized s) \<longleftrightarrow> valid_network s"
  by (simp add: valid_network_def)

lemma check_normalized [simp]:
  "check_image (normalized s) = check_image s" "check_user (normalized s) = check_user s"
  "check_working_dir (normalized s) = check_working_dir s" "check_project (normalized s) = check_project s"
  "check_capabilities (normalized s) = check_capabilities s"
  "check_environment (normalized s) = check_environment s"
  "check_volumes (normalized s) = check_volumes s" "check_devices (normalized s) = check_devices s"
  by (simp_all add: check_image_def check_user_def check_working_dir_def check_project_def
      check_capabilities_def check_environment_def check_volumes_def check_devices_def)

lemmas checks_None = check_image_None check_args_None check_user_None check_working_dir_None
  check_project_None check_network_None check_capabilities_None check_environment_None
  check_publish_None check_volumes_None check_devices_None check_limits_None check_restart_None
  check_health_None check_depends_on_None valid_network_normalized

lemma validate_valid_spec: "validate s = None \<longleftrightarrow> valid_spec s"
  unfolding validate_def Let_def first_some_None
  by (auto simp: checks_None valid_spec_def nameRE_iff)

text \<open>C1: \<open>Validate\<close> accepts a spec exactly when every field is what the specification says.\<close>

theorem validate_iff: "validate s = None \<longleftrightarrow> valid_spec s"
  by (rule validate_valid_spec)

end
