(* ===== verification/Engine.thy ===== *)
theory Engine
  imports ValidSpec
begin

text \<open>
  Package \<open>internal/engine\<close>, the part the supervisor sees: what the engine reports of a container
  (\<open>container\<close>, with \<open>Running\<close> and \<open>Managed\<close>), of a network, and the interface \<open>Engine\<close> as a
  record of functions over the engine's state. The streaming calls \<open>Logs\<close> and \<open>Events\<close> are
  in \<open>Streams\<close>. \<open>logging\<close> is any engine with a log of the calls that change something, for the theorems that
  say which calls the supervisor makes.
\<close>

section \<open>Containers and networks\<close>

definition LabelManaged :: string where "LabelManaged = ''mica.containerd''"
definition LabelSpec :: string where "LabelSpec = ''mica.containerd.spec''"
definition LabelProject :: string where "LabelProject = ''mica.containerd.project''"

record container =
  cID :: string
  cName :: string
  cImage :: string
  cImageID :: string
  cLabels :: "(string \<times> string) list"
  cState :: string
  cExitCode :: int
  cStartedAt :: time
  cExitedAt :: time

definition running :: "container \<Rightarrow> bool" where
  "running c \<longleftrightarrow> cState c = ''running'' \<or> cState c = ''paused''"

definition managed :: "container \<Rightarrow> bool" where
  "managed c \<longleftrightarrow> str_at (cLabels c) LabelManaged = ''1''"

record network =
  nName :: string
  nProject :: string

section \<open>The interface\<close>

text \<open>
  An operation of the engine takes the engine's state and returns its result and the new state. An
  error is its text. \<open>eHealthCheck\<close> takes the time its context is limited to and returns both its
  results.
\<close>

record 'e engine =
  eList :: "'e \<Rightarrow> (string + container list) \<times> 'e"
  eRun :: "spec \<Rightarrow> 'e \<Rightarrow> string option \<times> 'e"
  eStart :: "string \<Rightarrow> 'e \<Rightarrow> string option \<times> 'e"
  eStop :: "string \<Rightarrow> duration \<Rightarrow> 'e \<Rightarrow> string option \<times> 'e"
  eRemove :: "string \<Rightarrow> 'e \<Rightarrow> string option \<times> 'e"
  eHealthCheck :: "string \<Rightarrow> duration \<Rightarrow> 'e \<Rightarrow> (bool \<times> string option) \<times> 'e"
  eNetworks :: "'e \<Rightarrow> (string + network list) \<times> 'e"
  eCreateNetwork :: "string \<Rightarrow> string \<Rightarrow> 'e \<Rightarrow> string option \<times> 'e"
  eRemoveNetwork :: "string \<Rightarrow> 'e \<Rightarrow> string option \<times> 'e"

section \<open>The calls an engine is asked for\<close>

datatype call =
    CallRun spec
  | CallStart string
  | CallStop string
  | CallRemove string
  | CallHealth string
  | CallCreateNetwork string string
  | CallRemoveNetwork string

text \<open>The container a call is about, and whether the call starts it.\<close>

fun call_on :: "call \<Rightarrow> string option" where
  "call_on (CallRun s) = Some (sName s)"
| "call_on (CallStart n) = Some n"
| "call_on (CallStop n) = Some n"
| "call_on (CallRemove n) = Some n"
| "call_on (CallHealth n) = Some n"
| "call_on (CallCreateNetwork n p) = None"
| "call_on (CallRemoveNetwork n) = None"

fun starts :: "call \<Rightarrow> bool" where
  "starts (CallRun s) = True"
| "starts (CallStart n) = True"
| "starts _ = False"

definition log_call :: "call \<Rightarrow> ('e \<Rightarrow> 'r \<times> 'e) \<Rightarrow> 'e \<times> call list \<Rightarrow> 'r \<times> ('e \<times> call list)" where
  "log_call c f st = (case f (fst st) of (r, e) \<Rightarrow> (r, (e, snd st @ [c])))"

definition logging :: "'e engine \<Rightarrow> ('e \<times> call list) engine" where
  "logging E = \<lparr>
     eList = (\<lambda>st. case eList E (fst st) of (r, e) \<Rightarrow> (r, (e, snd st))),
     eRun = (\<lambda>s. log_call (CallRun s) (eRun E s)),
     eStart = (\<lambda>n. log_call (CallStart n) (eStart E n)),
     eStop = (\<lambda>n d. log_call (CallStop n) (eStop E n d)),
     eRemove = (\<lambda>n. log_call (CallRemove n) (eRemove E n)),
     eHealthCheck = (\<lambda>n d. log_call (CallHealth n) (eHealthCheck E n d)),
     eNetworks = (\<lambda>st. case eNetworks E (fst st) of (r, e) \<Rightarrow> (r, (e, snd st))),
     eCreateNetwork = (\<lambda>n p. log_call (CallCreateNetwork n p) (eCreateNetwork E n p)),
     eRemoveNetwork = (\<lambda>n. log_call (CallRemoveNetwork n) (eRemoveNetwork E n))\<rparr>"

lemma log_call_log [simp]: "snd (snd (log_call c f st)) = snd st @ [c]"
  by (simp add: log_call_def split: prod.split)

lemma logging_sel [simp]:
  "eRun (logging E) s = log_call (CallRun s) (eRun E s)"
  "eStart (logging E) n = log_call (CallStart n) (eStart E n)"
  "eStop (logging E) n d = log_call (CallStop n) (eStop E n d)"
  "eRemove (logging E) n = log_call (CallRemove n) (eRemove E n)"
  "eHealthCheck (logging E) n d = log_call (CallHealth n) (eHealthCheck E n d)"
  "eCreateNetwork (logging E) n p = log_call (CallCreateNetwork n p) (eCreateNetwork E n p)"
  "eRemoveNetwork (logging E) n = log_call (CallRemoveNetwork n) (eRemoveNetwork E n)"
  by (simp_all add: logging_def)

lemma logging_reads [simp]:
  "snd (snd (eList (logging E) st)) = snd st" "snd (snd (eNetworks (logging E) st)) = snd st"
  "fst (eList (logging E) st) = fst (eList E (fst st))"
  by (simp_all add: logging_def split: prod.split)

end
