(* ===== verification/Problem.thy ===== *)
theory Problem
  imports Spec
begin

text \<open>
  What package compose reports of a refused file: \<open>Problem\<close> and \<open>Error\<close>. The detail of a problem is a
  constructor of \<open>detail\<close>, one for each message of the checker, with the values the message
  quotes; what an error or a value reads like is no part of it.
\<close>

text \<open>What yaml decodes to under \<open>map[string]any\<close>: a scalar that is no string, and a map with other keys, are \<open>YOther\<close>.\<close>

datatype yaml =
    YNull
  | YStr string
  | YSeq "yaml list"
  | YMap "(string \<times> yaml) list"
  | YOther string

datatype detail =
    Refused spec_error
  | ProjectName string
  | ProjectDir string
  | YamlError string
  | ComposeError string
  | BadContainerName string
  | ContainerTaken string string
  | NotSupported string
  | OtherName yaml string
  | OnlyDefaultNetwork yaml
  | NoService
  | BadService string
  | BadPortMode yaml
  | HomePath string
  | NetworksAndMode
  | HostPublishes
  | BadMode string
  | UnknownCapability string
  | NoValue string
  | HostAddress nat string
  | HostModePort nat
  | NotPublished nat
  | BadPortPair string nat
  | Unresolved string fs_error
  | VolumeMissing string
  | VolumeUnmakable string detail
  | AnonymousVolume string
  | VolumeOptions string
  | VolumeType string string
  | NotADirectory string
  | DeviceRelative string
  | DeviceAbsent string
  | NotADevice string
  | BadRestartCount string
  | BadRestartPolicy string
  | BadCondition string string
  | OptionalDependency string
  | DependencyRestart string
  | NotWholeSeconds string int
  | StartInterval
  | ZeroSeconds
  | ZeroRetries
  | BadTest string
  | BadReplicas int
  | BadPidsLimit int
  | NotWholeKiB int

record problem =
  pbProject :: string
  pbService :: string
  pbField :: string
  pbDetail :: detail

text \<open>\<open>Problem.String\<close> and \<open>Error.Error\<close>, over the text of a detail.\<close>

definition problem_prefix :: "problem \<Rightarrow> string" where
  "problem_prefix p = (if pbService p \<noteq> [] then trim_prefix (pbProject p @ ''/'' @ pbService p) ''/'' else pbProject p)"

definition problem_string :: "(detail \<Rightarrow> string) \<Rightarrow> problem \<Rightarrow> string" where
  "problem_string text p = (if problem_prefix p = [] then text (pbDetail p) else problem_prefix p @ '': '' @ text (pbDetail p))"

definition error_string :: "(detail \<Rightarrow> string) \<Rightarrow> problem list \<Rightarrow> string" where
  "error_string text ps = join ''; '' (map (problem_string text) ps)"

end
