(* ===== verification/SupervisorState.thy ===== *)
theory SupervisorState
  imports Engine Problem
begin

text \<open>
  Package \<open>internal/supervisor\<close>: its state and the operations the API calls. The record \<open>sup\<close> is
  \<open>Supervisor\<close> together with the store and the engine it owns; \<open>svSched\<close> is the environment: the
  API calls that take the mutex while the pass has released it (theory \<open>Reconcile\<close>). An operation
  here is one section under \<open>mu\<close>, so it is one step; \<open>api_step\<close> collects them.
\<close>

section \<open>Declarations\<close>

definition Running :: string where "Running = ''running''"
definition Stopped :: string where "Stopped = ''stopped''"

text \<open>\<open>store.Record\<close> and \<open>store.Project\<close>.\<close>

record store_record =
  recSpec :: spec
  recDesired :: string

record project =
  prjCompose :: string
  prjDir :: string

text \<open>
  The operations of \<open>store.Store\<close> the supervisor calls, over the state of the disk. A write returns
  its error, if any, and the new state of the disk; a read returns an error or what it read
  (\<open>stLoad\<close>: the records, and the errors of the files left alone).
\<close>

record 'd store_ops =
  stPut :: "store_record \<Rightarrow> 'd \<Rightarrow> string option \<times> 'd"
  stDelete :: "string \<Rightarrow> 'd \<Rightarrow> string option \<times> 'd"
  stPutProject :: "string \<Rightarrow> project \<Rightarrow> 'd \<Rightarrow> string option \<times> 'd"
  stDeleteProject :: "string \<Rightarrow> 'd \<Rightarrow> string option \<times> 'd"
  stSetBootID :: "string \<Rightarrow> 'd \<Rightarrow> string option \<times> 'd"
  stLoad :: "'d \<Rightarrow> string + ((string \<times> store_record) list \<times> string list)"
  stProjects :: "'d \<Rightarrow> string + (string \<times> project) list"
  stBootID :: "'d \<Rightarrow> string + string"

section \<open>State\<close>

text \<open>\<open>Phase\<close>; \<open>PhaseNone\<close> is the empty string, \<open>PhaseDeleted\<close> the phase of a published deletion.\<close>

datatype phase = PhaseNone | PhaseStopped | PhaseStarting | PhaseRunning | PhaseBackoff | PhaseExited
  | PhaseFatal | PhaseWaiting | PhaseDeleted

datatype health_state = HealthNone | HealthStarting | HealthHealthy | HealthUnhealthy

record tracking =
  tPhase :: phase
  tStartAttempts :: int
  tRestarts :: int
  tNextAttempt :: time
  tHandledExit :: time
  tForce :: bool
  tRestart :: bool
  tErr :: string
  tHealth :: health_state
  tFailures :: int
  tNextHealth :: time
  tHealthRun :: time

text \<open>\<open>tracking{}\<close> and \<open>tracking{force: true}\<close>.\<close>

definition zero_tracking :: tracking where
  "zero_tracking = \<lparr>tPhase = PhaseNone, tStartAttempts = 0, tRestarts = 0, tNextAttempt = 0,
     tHandledExit = 0, tForce = False, tRestart = False, tErr = [], tHealth = HealthNone,
     tFailures = 0, tNextHealth = 0, tHealthRun = 0\<rparr>"

definition forced :: tracking where "forced = zero_tracking\<lparr>tForce := True\<rparr>"

record change =
  chName :: string
  chPhase :: phase
  chDesired :: string
  chExitCode :: int
  chTime :: time

datatype sup_error =
    ESpec spec_error            \<comment> \<open>\<open>*spec.Error\<close>\<close>
  | ECompose "problem list"     \<comment> \<open>\<open>*compose.Error\<close>\<close>
  | ENotFound                   \<comment> \<open>\<open>ErrNotFound\<close>\<close>
  | ENoProject                  \<comment> \<open>\<open>ErrNoProject\<close>\<close>
  | EOther string               \<comment> \<open>an error of the store or the engine\<close>

record options =
  oBootID :: string
  oBootTime :: time
  oResync :: duration
  oStopTimeout :: duration
  oVolumes :: string

text \<open>A section of an API call under \<open>mu\<close>; the second of \<open>Restart\<close> is \<open>OpMarkRestart\<close>.\<close>

datatype api_op =
    OpPutProject string project "spec list"
  | OpPutProjects "(string \<times> project) list" "(string \<times> spec list) list"
  | OpDeleteProject string
  | OpSetDesired string string
  | OpMarkRestart string

text \<open>
  \<open>svSeq\<close> counts the touches; the code's \<open>seq\<close> is its low 64 bits, \<open>word_of_nat svSeq\<close>, and that is
  what \<open>changed\<close> keeps and \<open>unlocked\<close> compares.
\<close>

record ('d, 'e) sup =
  svStore :: 'd
  svEngine :: 'e
  svRecords :: "(string \<times> store_record) list"
  svTrack :: "(string \<times> tracking) list"
  svObserved :: "(string \<times> container) list"
  svForeign :: "(string \<times> container) list"
  svProjects :: "(string \<times> project) list"
  svChanged :: "(string \<times> 64 word) list"
  svSeq :: nat
  svWake :: bool
  svSubs :: "(nat \<times> change list) list"
  svLastPhase :: "(string \<times> phase) list"
  svSched :: "api_op list list"

text \<open>
  What a supervisor is given: its store, its engine, the hash of a spec (\<open>Spec.Hash\<close>), its options,
  and \<open>compose.Load\<close> of a project with the volumes directory filled in.
\<close>

record ('d, 'e) env =
  envStore :: "'d store_ops"
  envEngine :: "'e engine"
  envHash :: "spec \<Rightarrow> string"
  envOpts :: options
  envLoad :: "string \<Rightarrow> project \<Rightarrow> sup_error + spec list"

section \<open>Operations under the mutex\<close>

definition poke :: "('d, 'e) sup \<Rightarrow> ('d, 'e) sup" where
  "poke s = s\<lparr>svWake := True\<rparr>"

definition touch :: "string \<Rightarrow> ('d, 'e) sup \<Rightarrow> ('d, 'e) sup" where
  "touch name s =
     (let q = svSeq s + 1
      in poke (s\<lparr>svSeq := q, svChanged := mput name (word_of_nat q) (svChanged s)\<rparr>))"

definition get_t :: "string \<Rightarrow> ('d, 'e) sup \<Rightarrow> tracking" where
  "get_t name s = (case map_of (svTrack s) name of None \<Rightarrow> zero_tracking | Some t \<Rightarrow> t)"

definition set_t :: "string \<Rightarrow> tracking \<Rightarrow> ('d, 'e) sup \<Rightarrow> ('d, 'e) sup" where
  "set_t name t s = s\<lparr>svTrack := mput name t (svTrack s)\<rparr>"

definition upd_t :: "string \<Rightarrow> (tracking \<Rightarrow> tracking) \<Rightarrow> ('d, 'e) sup \<Rightarrow> ('d, 'e) sup" where
  "upd_t name f s = set_t name (f (get_t name s)) s"

text \<open>\<open>tr(name)\<close>: the tracking of \<open>name\<close>, made when there is none.\<close>

definition tr :: "string \<Rightarrow> ('d, 'e) sup \<Rightarrow> ('d, 'e) sup" where
  "tr name s = (case map_of (svTrack s) name of
     None \<Rightarrow> s\<lparr>svTrack := mput name zero_tracking (svTrack s)\<rparr> | Some t \<Rightarrow> s)"

definition put :: "('d, 'e) env \<Rightarrow> spec \<Rightarrow> ('d, 'e) sup \<Rightarrow> sup_error option \<times> ('d, 'e) sup" where
  "put E sp s =
     (let r0 = (case map_of (svRecords s) (sName sp) of
                  None \<Rightarrow> \<lparr>recSpec = zero_spec, recDesired = Running\<rparr>
                | Some r \<Rightarrow> r);
          r = r0\<lparr>recSpec := sp\<rparr>
      in case stPut (envStore E) r (svStore s) of
           (Some e, d) \<Rightarrow> (Some (EOther e), s\<lparr>svStore := d\<rparr>)
         | (None, d) \<Rightarrow>
             let s1 = s\<lparr>svStore := d, svRecords := mput (sName sp) r (svRecords s)\<rparr>;
                 s2 = (case map_of (svTrack s1) (sName sp) of
                         None \<Rightarrow> s1
                       | Some t \<Rightarrow> if tPhase t = PhaseFatal then set_t (sName sp) forced s1 else s1)
             in (None, touch (sName sp) s2))"

definition delete :: "('d, 'e) env \<Rightarrow> string \<Rightarrow> ('d, 'e) sup \<Rightarrow> sup_error option \<times> ('d, 'e) sup" where
  "delete E name s =
     (case stDelete (envStore E) name (svStore s) of
        (Some e, d) \<Rightarrow> (Some (EOther e), s\<lparr>svStore := d\<rparr>)
      | (None, d) \<Rightarrow> (None, touch name (s\<lparr>svStore := d, svRecords := mdel name (svRecords s),
                                          svTrack := mdel name (svTrack s)\<rparr>)))"

text \<open>The calls of the store about a project, with the map that mirrors them.\<close>

definition store_project :: "('d, 'e) env \<Rightarrow> string \<Rightarrow> project \<Rightarrow> ('d, 'e) sup \<Rightarrow> sup_error option \<times> ('d, 'e) sup" where
  "store_project E name p s =
     (case stPutProject (envStore E) name p (svStore s) of
        (Some e, d) \<Rightarrow> (Some (EOther e), s\<lparr>svStore := d\<rparr>)
      | (None, d) \<Rightarrow> (None, s\<lparr>svStore := d, svProjects := mput name p (svProjects s)\<rparr>))"

definition drop_project :: "('d, 'e) env \<Rightarrow> string \<Rightarrow> ('d, 'e) sup \<Rightarrow> sup_error option \<times> ('d, 'e) sup" where
  "drop_project E name s =
     (case stDeleteProject (envStore E) name (svStore s) of
        (Some e, d) \<Rightarrow> (Some (EOther e), s\<lparr>svStore := d\<rparr>)
      | (None, d) \<Rightarrow> (None, s\<lparr>svStore := d, svProjects := mdel name (svProjects s)\<rparr>))"

text \<open>Deletes the records, in the map's order, that \<open>gone\<close> names: the loops of \<open>range s.records\<close>.\<close>

definition delete_where ::
  "('d, 'e) env \<Rightarrow> (string \<Rightarrow> store_record \<Rightarrow> bool) \<Rightarrow> ('d, 'e) sup \<Rightarrow> sup_error option \<times> ('d, 'e) sup" where
  "delete_where E gone s =
     foreach (\<lambda>(n, r) s. if gone n r then delete E n s else (None, s)) (svRecords s) s"

definition declare_project ::
  "('d, 'e) env \<Rightarrow> string \<Rightarrow> project \<Rightarrow> spec list \<Rightarrow> ('d, 'e) sup \<Rightarrow> sup_error option \<times> ('d, 'e) sup" where
  "declare_project E name p specs s =
     and_then (store_project E name p s) (\<lambda>s.
     and_then (foreach (put E) specs s) (\<lambda>s.
       delete_where E (\<lambda>n r. sProject (recSpec r) = name \<and> n \<notin> set (map sName specs)) s))"

section \<open>Declaring projects\<close>

text \<open>\<open>unmanaged\<close>: runs without \<open>mu\<close>; a later container of a name listed twice wins, as in the map.\<close>

definition held_names :: "container list \<Rightarrow> (string \<times> container) list" where
  "held_names listed = fold (\<lambda>c m. if managed c then m else mput (cName c) c m) listed []"

definition unmanaged ::
  "('d, 'e) env \<Rightarrow> spec list \<Rightarrow> ('d, 'e) sup \<Rightarrow> sup_error option \<times> ('d, 'e) sup" where
  "unmanaged E specs s =
     (case eList (envEngine E) (svEngine s) of
        (Inl e, en) \<Rightarrow> (Some (EOther e), s\<lparr>svEngine := en\<rparr>)
      | (Inr listed, en) \<Rightarrow>
          (first_some (map (\<lambda>sp. case map_of (held_names listed) (sName sp) of
               None \<Rightarrow> None
             | Some c \<Rightarrow> Some (ESpec (NameHeldBy (sName sp) (take 12 (cID c))))) specs),
           s\<lparr>svEngine := en\<rparr>))"

definition put_project_locked ::
  "('d, 'e) env \<Rightarrow> string \<Rightarrow> project \<Rightarrow> spec list \<Rightarrow> ('d, 'e) sup \<Rightarrow> sup_error option \<times> ('d, 'e) sup" where
  "put_project_locked E name p specs s =
     (case first_some (map (\<lambda>sp. case map_of (svRecords s) (sName sp) of
               Some r \<Rightarrow> guard (sProject (recSpec r) \<noteq> name)
                           (ESpec (NameDeclaredBy (sName sp) (sProject (recSpec r))))
             | None \<Rightarrow> None) specs) of
        Some e \<Rightarrow> (Some e, s)
      | None \<Rightarrow> declare_project E name p specs s)"

definition put_project ::
  "('d, 'e) env \<Rightarrow> string \<Rightarrow> project \<Rightarrow> ('d, 'e) sup \<Rightarrow> sup_error option \<times> ('d, 'e) sup" where
  "put_project E name p s =
     (case envLoad E name p of
        Inl e \<Rightarrow> (Some e, s)
      | Inr specs \<Rightarrow> and_then (unmanaged E specs s) (put_project_locked E name p specs))"

text \<open>
  \<open>PutProjects\<close>, before the mutex: every file loaded in the order of the names, the owner of every
  container name noted. The problems of a refused file are marked with their project.
\<close>

definition mark_project :: "string \<Rightarrow> sup_error \<Rightarrow> sup_error" where
  "mark_project n e = (case e of ECompose ps \<Rightarrow> ECompose (map (\<lambda>p. p\<lparr>pbProject := n\<rparr>) ps) | _ \<Rightarrow> e)"

fun own_names ::
  "string \<Rightarrow> spec list \<Rightarrow> (string \<times> string) list \<Rightarrow> sup_error + (string \<times> string) list" where
  "own_names n [] owners = Inr owners"
| "own_names n (sp # sps) owners =
     (case map_of owners (sName sp) of
        Some ow \<Rightarrow> Inl (ESpec (NameDeclaredTwice (sName sp) ow n))
      | None \<Rightarrow> own_names n sps (mput (sName sp) n owners))"

fun load_all ::
  "('d, 'e) env \<Rightarrow> (string \<times> project) list \<Rightarrow> string list \<Rightarrow> (string \<times> string) list
     \<Rightarrow> sup_error + (string \<times> spec list) list" where
  "load_all E files [] owners = Inr []"
| "load_all E files (n # ns) owners =
     (case envLoad E n (case map_of files n of Some p \<Rightarrow> p | None \<Rightarrow> \<lparr>prjCompose = [], prjDir = []\<rparr>) of
        Inl e \<Rightarrow> Inl (mark_project n e)
      | Inr specs \<Rightarrow>
          (case own_names n specs owners of
             Inl e \<Rightarrow> Inl e
           | Inr owners' \<Rightarrow>
               (case load_all E files ns owners' of
                  Inl e \<Rightarrow> Inl e
                | Inr rest \<Rightarrow> Inr ((n, specs) # rest))))"

text \<open>The owners of the container names of a loaded set.\<close>

definition owners_of :: "(string \<times> spec list) list \<Rightarrow> (string \<times> string) list" where
  "owners_of loaded = fold (\<lambda>(n, specs) m. fold (\<lambda>sp m. mput (sName sp) n m) specs m) loaded []"

definition put_projects_locked ::
  "('d, 'e) env \<Rightarrow> (string \<times> project) list \<Rightarrow> (string \<times> spec list) list
     \<Rightarrow> ('d, 'e) sup \<Rightarrow> sup_error option \<times> ('d, 'e) sup" where
  "put_projects_locked E files loaded s =
     and_then (delete_where E (\<lambda>name r. \<not> has_key loaded (sProject (recSpec r))
         \<or> str_at (owners_of loaded) name \<noteq> sProject (recSpec r)) s) (\<lambda>s.
     and_then (foreach (\<lambda>(n, _) s. if has_key files n then (None, s) else drop_project E n s)
         (svProjects s) s) (\<lambda>s.
       foreach (\<lambda>(n, specs) s. declare_project E n (case map_of files n of
             Some p \<Rightarrow> p | None \<Rightarrow> \<lparr>prjCompose = [], prjDir = []\<rparr>) specs s) loaded s))"

definition put_projects ::
  "('d, 'e) env \<Rightarrow> (string \<times> project) list \<Rightarrow> ('d, 'e) sup \<Rightarrow> sup_error option \<times> ('d, 'e) sup" where
  "put_projects E files s =
     (case load_all E files (sorted_keys files) [] of
        Inl e \<Rightarrow> (Some e, s)
      | Inr loaded \<Rightarrow>
          and_then (unmanaged E (concat (map snd loaded)) s) (put_projects_locked E files loaded))"

definition delete_project ::
  "('d, 'e) env \<Rightarrow> string \<Rightarrow> ('d, 'e) sup \<Rightarrow> sup_error option \<times> ('d, 'e) sup" where
  "delete_project E name s =
     (let found = has_key (svProjects s) name
                \<or> list_ex (\<lambda>(n, r). sProject (recSpec r) = name) (svRecords s)
      in and_then (delete_where E (\<lambda>n r. sProject (recSpec r) = name) s) (\<lambda>s.
           if \<not> found then (Some ENoProject, s) else drop_project E name s))"

section \<open>Start, stop, restart\<close>

definition set_desired ::
  "('d, 'e) env \<Rightarrow> string \<Rightarrow> string \<Rightarrow> ('d, 'e) sup \<Rightarrow> sup_error option \<times> ('d, 'e) sup" where
  "set_desired E name desired s =
     (case map_of (svRecords s) name of
        None \<Rightarrow> (Some ENotFound, s)
      | Some r \<Rightarrow>
          and_then
            (if recDesired r \<noteq> desired then
               let r' = r\<lparr>recDesired := desired\<rparr>
               in case stPut (envStore E) r' (svStore s) of
                    (Some e, d) \<Rightarrow> (Some (EOther e), s\<lparr>svStore := d\<rparr>)
                  | (None, d) \<Rightarrow> (None, s\<lparr>svStore := d, svRecords := mput name r' (svRecords s)\<rparr>)
             else (None, s))
            (\<lambda>s. (None, touch name (if desired = Running then set_t name forced s else s))))"

definition start_container where "start_container E name = set_desired E name Running"
definition stop_container where "stop_container E name = set_desired E name Stopped"

text \<open>The second section of \<open>Restart\<close>, which takes the mutex again.\<close>

definition mark_restart :: "string \<Rightarrow> ('d, 'e) sup \<Rightarrow> ('d, 'e) sup" where
  "mark_restart name s = touch name (upd_t name (\<lambda>t. t\<lparr>tRestart := True\<rparr>) s)"

definition restart_container ::
  "('d, 'e) env \<Rightarrow> string \<Rightarrow> ('d, 'e) sup \<Rightarrow> sup_error option \<times> ('d, 'e) sup" where
  "restart_container E name s =
     and_then (set_desired E name Running s) (\<lambda>s. (None, mark_restart name s))"

fun api_step :: "('d, 'e) env \<Rightarrow> api_op \<Rightarrow> ('d, 'e) sup \<Rightarrow> ('d, 'e) sup" where
  "api_step E (OpPutProject n p specs) s = snd (put_project_locked E n p specs s)"
| "api_step E (OpPutProjects files loaded) s = snd (put_projects_locked E files loaded s)"
| "api_step E (OpDeleteProject n) s = snd (delete_project E n s)"
| "api_step E (OpSetDesired n d) s = snd (set_desired E n d s)"
| "api_step E (OpMarkRestart n) s = mark_restart n s"

end
