(* ===== verification/Reconcile.thy ===== *)
theory Reconcile
  imports SupervisorState
begin

text \<open>
  One container's part of the pass of \<open>internal/supervisor\<close>: \<open>unlocked\<close>, \<open>unready\<close>, \<open>start\<close>, \<open>health\<close>,
  and \<open>reconcile\<close> with the branches it decides between.

  The code releases \<open>mu\<close> around every engine call. What happens meanwhile is the environment: each
  such point takes one list of API sections from \<open>svSched\<close> and runs it (\<open>interfere\<close>), so a theorem
  for every \<open>svSched\<close> is a theorem for every interleaving. The pointer \<open>t\<close> of \<open>reconcile\<close> is the
  entry of \<open>svTrack\<close>: an API section that replaces or removes the entry also touches the name, and
  then \<open>unlocked\<close> reports it and the code does not use \<open>t\<close> again.

  \<open>now\<close> is the clock as \<open>reconcile\<close> reads it once for a container; a pass is given the reading for
  each name. What is written to the log is left out.
\<close>

section \<open>Releasing the mutex\<close>

definition interfere :: "('d, 'e) env \<Rightarrow> ('d, 'e) sup \<Rightarrow> ('d, 'e) sup" where
  "interfere E s = (case svSched s of
     [] \<Rightarrow> s | ops # rest \<Rightarrow> fold (api_step E) ops (s\<lparr>svSched := rest\<rparr>))"

text \<open>\<open>changed[name]\<close>: 0 when \<open>name\<close> was never changed.\<close>

definition changed_at :: "string \<Rightarrow> ('d, 'e) sup \<Rightarrow> 64 word" where
  "changed_at name s = (case map_of (svChanged s) name of None \<Rightarrow> 0 | Some q \<Rightarrow> q)"

definition unlocked ::
  "('d, 'e) env \<Rightarrow> string \<Rightarrow> ('e \<Rightarrow> 'r \<times> 'e) \<Rightarrow> ('d, 'e) sup \<Rightarrow> (bool \<times> 'r) \<times> ('d, 'e) sup" where
  "unlocked E name call s =
     (let seen = changed_at name s in
      case call (svEngine s) of (r, en) \<Rightarrow>
        let s' = interfere E (s\<lparr>svEngine := en\<rparr>) in ((changed_at name s' = seen, r), s'))"

section \<open>Durations\<close>

text \<open>\<open>time.Duration(n) * time.Second\<close>, at 64 bits.\<close>

definition secs :: "int \<Rightarrow> duration" where "secs n = wrap64 (n * second)"

definition startConfirm :: duration where "startConfirm = StartSeconds * second"
definition backoffMax :: duration where "backoffMax = BackoffMaxSeconds * second"

definition gap :: "int \<Rightarrow> duration" where
  "gap n = min (secs (wrap64 (n * BackoffSeconds))) backoffMax"

section \<open>Dependencies\<close>

fun unready_deps :: "('d, 'e) sup \<Rightarrow> dependency list \<Rightarrow> string" where
  "unready_deps s [] = []"
| "unready_deps s (d # ds) =
     (if \<not> has_key (svRecords s) (dName d) then dName d @ '' (not declared)''
      else case map_of (svTrack s) (dName d) of
             None \<Rightarrow> dName d @ '' (running)''
           | Some dt \<Rightarrow>
               if tPhase dt \<noteq> PhaseRunning then dName d @ '' (running)''
               else if dReady d = ReadyHealthy \<and> tHealth dt \<noteq> HealthHealthy then dName d @ '' (healthy)''
               else unready_deps s ds)"

definition unready :: "('d, 'e) sup \<Rightarrow> spec \<Rightarrow> string" where
  "unready s sp = unready_deps s (sDependsOn sp)"

section \<open>Starting\<close>

text \<open>The engine calls of \<open>start\<close>: the body of its \<open>unlocked\<close>.\<close>

definition start_call :: "'e engine \<Rightarrow> spec \<Rightarrow> bool \<Rightarrow> 'e \<Rightarrow> string option \<times> 'e" where
  "start_call En sp exists en =
     (if exists \<and> length (sDevices sp) = 0 then eStart En (sName sp) en
      else if sNetwork sp = [] then eRun En sp en
      else and_then (eCreateNetwork En (sNetwork sp) (sProject sp) en) (eRun En sp))"

definition start_failed :: "string \<Rightarrow> time \<Rightarrow> tracking \<Rightarrow> tracking" where
  "start_failed e now t =
     (let t1 = t\<lparr>tErr := e, tStartAttempts := tStartAttempts t + 1\<rparr>
      in if tStartAttempts t1 > StartRetries then t1\<lparr>tPhase := PhaseFatal\<rparr>
         else t1\<lparr>tPhase := PhaseBackoff, tNextAttempt := now + gap (tStartAttempts t1)\<rparr>)"

definition start ::
  "('d, 'e) env \<Rightarrow> spec \<Rightarrow> bool \<Rightarrow> time \<Rightarrow> ('d, 'e) sup \<Rightarrow> time \<times> ('d, 'e) sup" where
  "start E sp exists now s =
     (case (if exists then None else map_of (svForeign s) (sName sp)) of
        Some c \<Rightarrow> (0, upd_t (sName sp) (\<lambda>t. t\<lparr>tPhase := PhaseWaiting, tErr := ''the name is held by container ''
            @ take 12 (cID c) @ '', which mica-containerd does not manage''\<rparr>) s)
      | None \<Rightarrow>
          let waiting = unready s sp in
          if waiting \<noteq> [] then
            (now + second, upd_t (sName sp) (\<lambda>t. t\<lparr>tPhase := PhaseWaiting, tErr := ''waiting for '' @ waiting\<rparr>) s)
          else case unlocked E (sName sp) (start_call (envEngine E) sp exists) s of
            ((same, err), s1) \<Rightarrow>
              if \<not> same then (0, s1)
              else let s2 = upd_t (sName sp) (\<lambda>t. t\<lparr>tForce := False\<rparr>) s1 in
                case err of
                  Some e \<Rightarrow>
                    let s3 = upd_t (sName sp) (start_failed e now) s2;
                        t3 = get_t (sName sp) s3
                    in (if tPhase t3 = PhaseFatal then 0 else tNextAttempt t3, s3)
                | None \<Rightarrow> (now + startConfirm, upd_t (sName sp) (\<lambda>t. t\<lparr>tErr := [], tPhase := PhaseStarting\<rparr>) s2))"

section \<open>Health checks\<close>

text \<open>The state of the check of a run that has just begun.\<close>

definition health_run :: "container \<Rightarrow> tracking \<Rightarrow> tracking" where
  "health_run c t =
     (if tHealthRun t \<noteq> cStartedAt c
      then t\<lparr>tHealthRun := cStartedAt c, tHealth := HealthStarting, tFailures := 0,
             tNextHealth := cStartedAt c + startConfirm\<rparr>
      else t)"

text \<open>What a check's result does to the state; \<open>now\<close> is the time the check was begun.\<close>

definition health_result :: "health \<Rightarrow> container \<Rightarrow> time \<Rightarrow> bool \<Rightarrow> string option \<Rightarrow> tracking \<Rightarrow> tracking" where
  "health_result h c now ok err t =
     (let t1 = t\<lparr>tNextHealth := now + secs (hIntervalSeconds h)\<rparr>;
          t2 = (case err of None \<Rightarrow> t1 | Some e \<Rightarrow> t1\<lparr>tErr := ''health check: '' @ e\<rparr>)
      in if ok then t2\<lparr>tHealth := HealthHealthy, tFailures := 0\<rparr>
         else if time_sub now (cStartedAt c) < secs (hStartPeriodSeconds h) then t2
         else let t3 = t2\<lparr>tFailures := tFailures t2 + 1\<rparr>
              in if tFailures t3 < hRetries h \<or> tHealth t3 = HealthUnhealthy then t3
                 else t3\<lparr>tHealth := HealthUnhealthy\<rparr>)"

definition health_sup ::
  "('d, 'e) env \<Rightarrow> string \<Rightarrow> health \<Rightarrow> container \<Rightarrow> time \<Rightarrow> ('d, 'e) sup \<Rightarrow> (time \<times> bool) \<times> ('d, 'e) sup" where
  "health_sup E name h c now s =
     (let s1 = upd_t name (health_run c) s in
      if now < tNextHealth (get_t name s1) then ((tNextHealth (get_t name s1), True), s1)
      else case unlocked E name
          (eHealthCheck (envEngine E) name (wrap64 (secs (hTimeoutSeconds h) + 5 * second))) s1 of
        ((same, (ok, err)), s2) \<Rightarrow>
          if \<not> same then ((0, False), s2)
          else let s3 = upd_t name (health_result h c now ok err) s2
               in ((tNextHealth (get_t name s3), True), s3))"

section \<open>An exit not yet decided on\<close>

text \<open>The restart policy: whether a container that exited with a code is restarted.\<close>

definition policy_restarts :: "restart \<Rightarrow> int \<Rightarrow> bool" where
  "policy_restarts r code \<longleftrightarrow> rPolicy r = PolicyAlways \<or> (rPolicy r = PolicyOnFailure \<and> code \<noteq> 0)"

text \<open>
  What the code decides of an exit: \<open>Leave\<close> is the phase exited, \<open>GiveUp\<close> fatal, \<open>Backoff n\<close> a
  restart after the gap of attempt \<open>n\<close>; with the tallies it leaves.
\<close>

datatype decision = Leave | GiveUp | Backoff int

definition decide_exit :: "restart \<Rightarrow> container \<Rightarrow> tracking \<Rightarrow> decision \<times> tracking" where
  "decide_exit rs c t0 =
     (let t1 = t0\<lparr>tHandledExit := cExitedAt c\<rparr>;
          ran = time_sub (cExitedAt c) (cStartedAt c);
          t2 = (if ran > backoffMax then t1\<lparr>tStartAttempts := 0, tRestarts := 0\<rparr> else t1)
      in if \<not> policy_restarts rs (cExitCode c) then (Leave, t2\<lparr>tPhase := PhaseExited\<rparr>)
         else if ran < startConfirm then
           let t3 = t2\<lparr>tStartAttempts := tStartAttempts t2 + 1\<rparr>
           in if tStartAttempts t3 > StartRetries then (GiveUp, t3\<lparr>tPhase := PhaseFatal\<rparr>)
              else (Backoff (tStartAttempts t3), t3)
         else
           let t3 = t2\<lparr>tRestarts := tRestarts t2 + 1\<rparr>
           in if rMaxRestarts rs > 0 \<and> tRestarts t3 > rMaxRestarts rs then (GiveUp, t3\<lparr>tPhase := PhaseFatal\<rparr>)
              else (Backoff (tRestarts t3), t3))"

definition exited ::
  "('d, 'e) env \<Rightarrow> spec \<Rightarrow> container \<Rightarrow> time \<Rightarrow> ('d, 'e) sup \<Rightarrow> time \<times> ('d, 'e) sup" where
  "exited E sp c now s =
     (case decide_exit (sRestart sp) c (get_t (sName sp) s) of
        (Leave, t) \<Rightarrow> (0, set_t (sName sp) t s)
      | (GiveUp, t) \<Rightarrow> (0, set_t (sName sp) t s)
      | (Backoff n, t) \<Rightarrow>
          let next = now + gap n;
              s1 = set_t (sName sp) (t\<lparr>tPhase := PhaseBackoff, tNextAttempt := next\<rparr>) s
          in if \<not> now < next then start E sp True now s1 else (next, s1))"

section \<open>One container\<close>

text \<open>
  The parts of \<open>reconcile\<close> in its order. \<open>recreate\<close> is the first: \<open>Inl\<close> is an early return,
  \<open>Inr\<close> goes on with whether the container exists now.
\<close>

definition recreate ::
  "('d, 'e) env \<Rightarrow> store_record \<Rightarrow> spec \<Rightarrow> ('d, 'e) sup \<Rightarrow> ('d, 'e) sup + (bool \<times> ('d, 'e) sup)" where
  "recreate E r sp s =
     (case map_of (svObserved s) (sName sp) of
        None \<Rightarrow> Inr (False, s)
      | Some c \<Rightarrow>
          if str_at (cLabels c) LabelSpec \<noteq> envHash E sp then
            (case unlocked E (sName sp) (eRemove (envEngine E) (sName sp)) s of
               ((same, err), s1) \<Rightarrow>
                 if \<not> same then Inl s1
                 else case err of
                     Some e \<Rightarrow> Inl (upd_t (sName sp) (\<lambda>t. t\<lparr>tErr := e\<rparr>) s1)
                   | None \<Rightarrow>
                       let s2 = s1\<lparr>svObserved := mdel (sName sp) (svObserved s1)\<rparr>
                       in Inr (False,
                            if recDesired r = Running \<and> \<not> tForce (get_t (sName sp) s2)
                            then set_t (sName sp) forced s2 else s2))
          else Inr (True, s))"

text \<open>A container desired stopped. \<open>c\<close> is what was observed of it when it exists.\<close>

definition reconcile_stopped ::
  "('d, 'e) env \<Rightarrow> string \<Rightarrow> container option \<Rightarrow> ('d, 'e) sup \<Rightarrow> time \<times> ('d, 'e) sup" where
  "reconcile_stopped E name c s =
     (let settle = (\<lambda>s. (0, set_t name (zero_tracking\<lparr>tPhase := PhaseStopped,
                        tHandledExit := (case c of None \<Rightarrow> 0 | Some c \<Rightarrow> cExitedAt c)\<rparr>) s))
      in case c of
           None \<Rightarrow> settle s
         | Some c \<Rightarrow>
             if running c then
               (case unlocked E name (eStop (envEngine E) name (oStopTimeout (envOpts E))) s of
                  ((same, err), s1) \<Rightarrow>
                    if \<not> same then (0, s1)
                    else case err of
                        Some e \<Rightarrow> (0, upd_t name (\<lambda>t. t\<lparr>tErr := e\<rparr>) s1)
                      | None \<Rightarrow> settle s1)
             else settle s)"

text \<open>A running container the API asked to restart.\<close>

definition reconcile_restart ::
  "('d, 'e) env \<Rightarrow> spec \<Rightarrow> time \<Rightarrow> ('d, 'e) sup \<Rightarrow> time \<times> ('d, 'e) sup" where
  "reconcile_restart E sp now s =
     (case unlocked E (sName sp) (eStop (envEngine E) (sName sp) (oStopTimeout (envOpts E))) s of
        ((same, err), s1) \<Rightarrow>
          if \<not> same then (0, s1)
          else case err of
              Some e \<Rightarrow> (0, upd_t (sName sp) (\<lambda>t. t\<lparr>tErr := e\<rparr>) s1)
            | None \<Rightarrow> start E sp True now (upd_t (sName sp) (\<lambda>t. t\<lparr>tRestart := False\<rparr>) s1))"

text \<open>A running container: its start confirmed, its health checked. The time 0 is the zero time.\<close>

definition reconcile_running ::
  "('d, 'e) env \<Rightarrow> spec \<Rightarrow> container \<Rightarrow> time \<Rightarrow> ('d, 'e) sup \<Rightarrow> time \<times> ('d, 'e) sup" where
  "reconcile_running E sp c now s =
     (let confirmed = cStartedAt c + startConfirm;
          starting = now < confirmed;
          next = (if starting then confirmed else 0);
          s1 = upd_t (sName sp) (\<lambda>t. t\<lparr>tForce := False, tErr := [],
                 tPhase := (if starting then PhaseStarting else PhaseRunning)\<rparr>) s
      in case sHealth sp of
           None \<Rightarrow> (next, s1)
         | Some h \<Rightarrow>
             (case health_sup E (sName sp) h c now s1 of
                ((due, current), s2) \<Rightarrow>
                  if \<not> current then (0, s2)
                  else (if is_zero next \<or> due < next then due else next, s2)))"

text \<open>A container that is not running and is desired running.\<close>

definition reconcile_idle ::
  "('d, 'e) env \<Rightarrow> spec \<Rightarrow> container option \<Rightarrow> time \<Rightarrow> ('d, 'e) sup \<Rightarrow> time \<times> ('d, 'e) sup" where
  "reconcile_idle E sp c now s0 =
     (let name = sName sp;
          s = upd_t name (\<lambda>t. t\<lparr>tHealth := HealthNone, tFailures := 0, tHealthRun := 0\<rparr>) s0;
          t = get_t name s
      in case (if tForce t then None else
               case c of None \<Rightarrow> None
               | Some c \<Rightarrow> if is_zero (cStartedAt c) \<or> cStartedAt c < oBootTime (envOpts E) then None else Some c) of
           None \<Rightarrow>
             if \<not> tForce t \<and> tPhase t = PhaseFatal then (0, s)
             else if \<not> tForce t \<and> tPhase t = PhaseBackoff \<and> now < tNextAttempt t then (tNextAttempt t, s)
             else start E sp (c \<noteq> None) now
                    (if tForce t \<or> tPhase t = PhaseNone \<or> tPhase t = PhaseStopped
                     then set_t name zero_tracking s else s)
         | Some c \<Rightarrow>
             if tPhase t = PhaseFatal \<or> (tPhase t = PhaseExited \<and> cExitedAt c = tHandledExit t) then (0, s)
             else if tPhase t = PhaseWaiting \<and> cExitedAt c = tHandledExit t then start E sp True now s
             else if tPhase t = PhaseBackoff \<and> cExitedAt c = tHandledExit t then
               (if now < tNextAttempt t then (tNextAttempt t, s) else start E sp True now s)
             else exited E sp c now s)"

definition reconcile ::
  "('d, 'e) env \<Rightarrow> time \<Rightarrow> store_record \<Rightarrow> ('d, 'e) sup \<Rightarrow> time \<times> ('d, 'e) sup" where
  "reconcile E now r s0 =
     (let sp = normalized (recSpec r);
          name = sName sp;
          s = tr name s0;
          c = map_of (svObserved s) name
      in case recreate E r sp s of
           Inl s1 \<Rightarrow> (0, s1)
         | Inr (exists, s1) \<Rightarrow>
             let c = (if exists then c else None) in
             if recDesired r = Stopped then reconcile_stopped E name c s1
             else case c of
               Some k \<Rightarrow>
                 if running k \<and> tRestart (get_t name s1) then reconcile_restart E sp now s1
                 else let s2 = upd_t name (\<lambda>t. t\<lparr>tRestart := False\<rparr>) s1
                      in if running k then reconcile_running E sp k now s2
                         else reconcile_idle E sp (Some k) now s2
             | None \<Rightarrow> reconcile_idle E sp None now (upd_t name (\<lambda>t. t\<lparr>tRestart := False\<rparr>) s1))"

end
