(* ===== verification/Status.thy ===== *)
theory Status
  imports SupervisorState
begin

text \<open>
  What \<open>internal/supervisor\<close> reports: \<open>status\<close>, \<open>Get\<close>, \<open>List\<close>, \<open>Projects\<close>, \<open>Project\<close>; the phase changes
  it publishes (\<open>publish\<close>, \<open>Subscribe\<close>); and \<open>New\<close>, which loads the store and brings it to a boot.
\<close>

section \<open>Status\<close>

record status =
  stsProject :: string
  stsService :: string
  stsSpec :: spec
  stsDesired :: string
  stsPhase :: phase
  stsHealth :: health_state
  stsExists :: bool
  stsImageID :: string
  stsStartedAt :: time
  stsExitedAt :: time
  stsExitCode :: int
  stsStartAttempts :: int
  stsRestarts :: int
  stsNextAttempt :: time
  stsError :: string

definition status_of :: "('d, 'e) sup \<Rightarrow> store_record \<Rightarrow> status" where
  "status_of s r =
     (let name = sName (recSpec r);
          st0 = \<lparr>stsProject = sProject (recSpec r), stsService = sService (recSpec r), stsSpec = recSpec r,
                 stsDesired = recDesired r, stsPhase = PhaseStopped, stsHealth = HealthNone, stsExists = False,
                 stsImageID = [], stsStartedAt = 0, stsExitedAt = 0, stsExitCode = 0, stsStartAttempts = 0,
                 stsRestarts = 0, stsNextAttempt = 0, stsError = []\<rparr>;
          st1 = (case map_of (svTrack s) name of
                   None \<Rightarrow> st0
                 | Some t \<Rightarrow> (if tPhase t \<noteq> PhaseNone then st0\<lparr>stsPhase := tPhase t\<rparr> else st0)
                     \<lparr>stsStartAttempts := tStartAttempts t, stsRestarts := tRestarts t,
                      stsNextAttempt := tNextAttempt t, stsError := tErr t, stsHealth := tHealth t\<rparr>)
      in case map_of (svObserved s) name of
           None \<Rightarrow> st1
         | Some c \<Rightarrow> st1\<lparr>stsExists := True, stsImageID := cImageID c, stsStartedAt := cStartedAt c,
                        stsExitedAt := cExitedAt c, stsExitCode := cExitCode c\<rparr>)"

definition get_status :: "string \<Rightarrow> ('d, 'e) sup \<Rightarrow> sup_error + status" where
  "get_status name s = (case map_of (svRecords s) name of
     None \<Rightarrow> Inl ENotFound | Some r \<Rightarrow> Inr (status_of s r))"

definition spec_name :: "status \<Rightarrow> string" where "spec_name st = sName (stsSpec st)"

definition list_status :: "('d, 'e) sup \<Rightarrow> status list" where
  "list_status s = sort_key spec_name (map (status_of s \<circ> snd) (svRecords s))"

record project_status =
  psName :: string
  psProjectDir :: string
  psCompose :: string
  psServices :: "status list"

text \<open>\<open>compose.Dir(volumes, project)\<close> is \<open>path.Join\<close>.\<close>

definition project_of :: "('d, 'e) env \<Rightarrow> ('d, 'e) sup \<Rightarrow> string \<Rightarrow> project_status" where
  "project_of E s name =
     \<lparr>psName = name,
      psProjectDir = (case map_of (svProjects s) name of
          None \<Rightarrow> []
        | Some p \<Rightarrow> if prjDir p = [] then path_join [oVolumes (envOpts E), name] else prjDir p),
      psCompose = [],
      psServices = sort_key spec_name
        (map (status_of s \<circ> snd) (filter (\<lambda>(n, r). sProject (recSpec r) = name) (svRecords s)))\<rparr>"

definition list_projects :: "('d, 'e) env \<Rightarrow> ('d, 'e) sup \<Rightarrow> project_status list" where
  "list_projects E s =
     (let names = remdups (map fst (svProjects s) @ map (sProject \<circ> recSpec \<circ> snd) (svRecords s))
      in sort_key psName (map (project_of E s) names))"

definition get_project :: "('d, 'e) env \<Rightarrow> string \<Rightarrow> ('d, 'e) sup \<Rightarrow> sup_error + project_status" where
  "get_project E name s =
     (let p = project_of E s name in
      case map_of (svProjects s) name of
        None \<Rightarrow> if length (psServices p) = 0 then Inl ENoProject else Inr p
      | Some d \<Rightarrow> Inr (p\<lparr>psCompose := prjCompose d\<rparr>))"

section \<open>Changes\<close>

text \<open>A subscription is a channel of 64 changes, by a number; what a full one is sent is lost.\<close>

definition subscribe :: "nat \<Rightarrow> ('d, 'e) sup \<Rightarrow> ('d, 'e) sup" where
  "subscribe i s = s\<lparr>svSubs := mput i [] (svSubs s)\<rparr>"

definition unsubscribe :: "nat \<Rightarrow> ('d, 'e) sup \<Rightarrow> ('d, 'e) sup" where
  "unsubscribe i s = s\<lparr>svSubs := mdel i (svSubs s)\<rparr>"

definition send :: "change \<Rightarrow> change list \<Rightarrow> change list" where
  "send ch buf = (if length buf < 64 then buf @ [ch] else buf)"

definition phase_changes :: "time \<Rightarrow> ('d, 'e) sup \<Rightarrow> change list" where
  "phase_changes now s =
     sort_key chName
       (concat (map (\<lambda>(name, r).
            let st = status_of s r in
            if map_of (svLastPhase s) name = Some (stsPhase st) then []
            else [\<lparr>chName = name, chPhase = stsPhase st, chDesired = stsDesired st,
                   chExitCode = stsExitCode st, chTime = now\<rparr>]) (svRecords s))
        @ concat (map (\<lambda>(name, p).
            if has_key (svRecords s) name then []
            else [\<lparr>chName = name, chPhase = PhaseDeleted, chDesired = [], chExitCode = 0, chTime = now\<rparr>])
            (svLastPhase s)))"

definition publish :: "time \<Rightarrow> ('d, 'e) sup \<Rightarrow> ('d, 'e) sup" where
  "publish now s =
     s\<lparr>svLastPhase := map (\<lambda>(name, r). (name, stsPhase (status_of s r))) (svRecords s),
       svSubs := map (\<lambda>(i, buf). (i, fold send (phase_changes now s) buf)) (svSubs s)\<rparr>"

section \<open>A new supervisor\<close>

definition default_options :: "options \<Rightarrow> options" where
  "default_options p =
     (let p1 = (if oResync p \<le> 0 then p\<lparr>oResync := 60 * second\<rparr> else p);
          p2 = (if oStopTimeout p1 \<le> 0 then p1\<lparr>oStopTimeout := 10 * second\<rparr> else p1)
      in if oVolumes p2 = [] then p2\<lparr>oVolumes := ''/mica/volumes''\<rparr> else p2)"

text \<open>The loop that makes every record desired running, and stores it.\<close>

definition boot_record ::
  "('d, 'e) env \<Rightarrow> string \<times> store_record \<Rightarrow> ('d, 'e) sup \<Rightarrow> sup_error option \<times> ('d, 'e) sup" where
  "boot_record E nr s =
     (let r = (snd nr)\<lparr>recDesired := Running\<rparr> in
      case stPut (envStore E) r (svStore s) of
        (Some e, d) \<Rightarrow> (Some (EOther e), s\<lparr>svStore := d\<rparr>)
      | (None, d) \<Rightarrow> (None, s\<lparr>svStore := d, svRecords := mput (fst nr) r (svRecords s)\<rparr>))"

definition boot :: "('d, 'e) env \<Rightarrow> ('d, 'e) sup \<Rightarrow> sup_error option \<times> ('d, 'e) sup" where
  "boot E s =
     and_then (foreach (boot_record E) (svRecords s) s) (\<lambda>s.
       case stSetBootID (envStore E) (oBootID (envOpts E)) (svStore s) of
         (Some e, d) \<Rightarrow> (Some (EOther e), s\<lparr>svStore := d\<rparr>)
       | (None, d) \<Rightarrow> (None, s\<lparr>svStore := d\<rparr>))"

definition new_sup :: "'d \<Rightarrow> 'e \<Rightarrow> api_op list list \<Rightarrow> (string \<times> store_record) list
    \<Rightarrow> (string \<times> project) list \<Rightarrow> ('d, 'e) sup" where
  "new_sup d en sched recs projs =
     \<lparr>svStore = d, svEngine = en, svRecords = recs, svTrack = [], svObserved = [], svForeign = [],
      svProjects = projs, svChanged = [], svSeq = 0, svWake = False, svSubs = [], svLastPhase = [],
      svSched = sched\<rparr>"

text \<open>
  \<open>New\<close>, over an environment whose options have their defaults; it returns the supervisor or the
  error, with the state of the disk either way.
\<close>

definition new ::
  "('d, 'e) env \<Rightarrow> 'd \<Rightarrow> 'e \<Rightarrow> api_op list list \<Rightarrow> sup_error option \<times> ('d, 'e) sup" where
  "new E d en sched =
     (case stLoad (envStore E) d of
        Inl e \<Rightarrow> (Some (EOther e), new_sup d en sched [] [])
      | Inr (recs, bad) \<Rightarrow>
          (case stProjects (envStore E) d of
             Inl e \<Rightarrow> (Some (EOther e), new_sup d en sched recs [])
           | Inr projs \<Rightarrow>
               let s = new_sup d en sched recs projs in
               case stBootID (envStore E) d of
                 Inl e \<Rightarrow> (Some (EOther e), s)
               | Inr lastID \<Rightarrow>
                   if oBootID (envOpts E) \<noteq> [] \<and> lastID \<noteq> oBootID (envOpts E) then boot E s
                   else (None, s)))"

end
