(* ===== verification/Pass.thy ===== *)
theory Pass
  imports Reconcile Status
begin

text \<open>
  \<open>Pass\<close> of \<open>internal/supervisor\<close>, its network collection, and the time \<open>Run\<close> waits after it. A pass
  is given the clock readings: one for each container's \<open>reconcile\<close>, one for \<open>publish\<close>.
\<close>

section \<open>The listing\<close>

text \<open>One listed container: foreign, undeclared (removed; an error is only logged) or observed.\<close>

definition scan_one :: "('d, 'e) env \<Rightarrow> container \<Rightarrow> ('d, 'e) sup \<Rightarrow> ('d, 'e) sup" where
  "scan_one E c s =
     (if \<not> managed c then s\<lparr>svForeign := mput (cName c) c (svForeign s)\<rparr>
      else if \<not> has_key (svRecords s) (cName c) then
        snd (unlocked E (cName c) (eRemove (envEngine E) (cName c)) s)
      else s\<lparr>svObserved := mput (cName c) c (svObserved s)\<rparr>)"

definition scan :: "('d, 'e) env \<Rightarrow> container list \<Rightarrow> ('d, 'e) sup \<Rightarrow> ('d, 'e) sup" where
  "scan E listed s = fold (scan_one E) listed (s\<lparr>svObserved := [], svForeign := []\<rparr>)"

section \<open>The containers, by name\<close>

text \<open>\<open>due\<close>: the earlier of two deadlines, 0 being none.\<close>

definition due :: "time \<Rightarrow> time \<Rightarrow> time" where
  "due t next = (if \<not> is_zero t \<and> (is_zero next \<or> t < next) then t else next)"

definition visit :: "('d, 'e) env \<Rightarrow> (string \<Rightarrow> time) \<Rightarrow> string \<Rightarrow> time \<times> ('d, 'e) sup \<Rightarrow> time \<times> ('d, 'e) sup" where
  "visit E clk name ns =
     (case map_of (svRecords (snd ns)) name of
        None \<Rightarrow> ns
      | Some r \<Rightarrow> (case reconcile E (clk name) r (snd ns) of (t, s) \<Rightarrow> (due t (fst ns), s)))"

definition visit_all :: "('d, 'e) env \<Rightarrow> (string \<Rightarrow> time) \<Rightarrow> string list \<Rightarrow> time \<times> ('d, 'e) sup \<Rightarrow> time \<times> ('d, 'e) sup" where
  "visit_all E clk names ns = fold (visit E clk) names ns"

section \<open>The networks\<close>

text \<open>Errors are only logged.\<close>

definition remove_networks_call :: "'e engine \<Rightarrow> string list \<Rightarrow> 'e \<Rightarrow> 'e" where
  "remove_networks_call En declared en =
     (case eNetworks En en of
        (Inl e, en1) \<Rightarrow> en1
      | (Inr nets, en1) \<Rightarrow>
          fold (\<lambda>n en. if List.member declared (nName n) then en else snd (eRemoveNetwork En (nName n) en)) nets en1)"

definition remove_networks :: "('d, 'e) env \<Rightarrow> ('d, 'e) sup \<Rightarrow> ('d, 'e) sup" where
  "remove_networks E s =
     interfere E (s\<lparr>svEngine := remove_networks_call (envEngine E)
        (map (sNetwork \<circ> recSpec \<circ> snd) (svRecords s)) (svEngine s)\<rparr>)"

section \<open>Pass\<close>

definition pass ::
  "('d, 'e) env \<Rightarrow> (string \<Rightarrow> time) \<Rightarrow> time \<Rightarrow> ('d, 'e) sup \<Rightarrow> (string + time) \<times> ('d, 'e) sup" where
  "pass E clk pub s =
     (case eList (envEngine E) (svEngine s) of
        (Inl e, en) \<Rightarrow> (Inl e, interfere E (s\<lparr>svEngine := en\<rparr>))
      | (Inr listed, en) \<Rightarrow>
          let s1 = scan E listed (interfere E (s\<lparr>svEngine := en\<rparr>)) in
          case visit_all E clk (sorted_keys (svRecords s1)) (0, s1) of
            (next, s2) \<Rightarrow> (Inr next, publish pub (remove_networks E s2)))"

text \<open>
  How long \<open>Run\<close> waits for the next pass, unless something wakes it: until the deadline, but at least
  100 ms, and at most the resync period. An error of the pass is no deadline.
\<close>

definition run_wait :: "duration \<Rightarrow> time \<Rightarrow> string + time \<Rightarrow> duration" where
  "run_wait resync now result =
     (let next = (case result of Inl _ \<Rightarrow> 0 | Inr t \<Rightarrow> t);
          d = time_sub next now
      in if \<not> is_zero next \<and> d < resync then max d (100 * millisecond) else resync)"

end
