(* ===== verification/Interleaving.thy ===== *)
theory Interleaving
  imports Pass
begin

text \<open>
  What the environment can do while the mutex is released. \<open>evolves s s'\<close> says how API sections
  change what the pass holds: whatever they change of a name, they touch the name, so its entry of
  \<open>changed\<close> is a later sequence number. So \<open>unlocked\<close> reports every change (\<open>unlocked_same\<close>), as long as
  fewer than \<open>2 ^ 64\<close> touches have been made in all.
\<close>

section \<open>How API sections change the state\<close>

definition later :: "('d, 'e) sup \<Rightarrow> ('d, 'e) sup \<Rightarrow> string \<Rightarrow> bool" where
  "later s s' n \<longleftrightarrow>
     (\<exists>j. svSeq s < j \<and> j \<le> svSeq s' \<and> map_of (svChanged s') n = Some (word_of_nat j))"

definition same_entry :: "('d, 'e) sup \<Rightarrow> ('d, 'e) sup \<Rightarrow> string \<Rightarrow> bool" where
  "same_entry s s' n \<longleftrightarrow> map_of (svChanged s') n = map_of (svChanged s) n
     \<and> map_of (svTrack s') n = map_of (svTrack s) n \<and> map_of (svRecords s') n = map_of (svRecords s) n"

definition evolves :: "('d, 'e) sup \<Rightarrow> ('d, 'e) sup \<Rightarrow> bool" where
  "evolves s s' \<longleftrightarrow> svSeq s \<le> svSeq s' \<and> svObserved s' = svObserved s \<and> svForeign s' = svForeign s
     \<and> svEngine s' = svEngine s \<and> svSched s' = svSched s \<and> svLastPhase s' = svLastPhase s \<and> svSubs s' = svSubs s
     \<and> (\<forall>n. same_entry s s' n \<or> later s s' n)"

lemma evolves_refl [simp]: "evolves s s"
  by (simp add: evolves_def same_entry_def)

lemma same_entry_trans: "same_entry s s' n \<Longrightarrow> same_entry s' s'' n \<Longrightarrow> same_entry s s'' n"
  by (simp add: same_entry_def)

lemma later_trans:
  "later s' s'' n \<Longrightarrow> svSeq s \<le> svSeq s' \<Longrightarrow> later s s'' n"
  "later s s' n \<Longrightarrow> same_entry s' s'' n \<Longrightarrow> svSeq s' \<le> svSeq s'' \<Longrightarrow> later s s'' n"
  unfolding later_def same_entry_def by (meson le_less_trans, metis le_trans)

lemma evolves_trans:
  assumes "evolves s s'" "evolves s' s''"
  shows "evolves s s''"
proof -
  have "same_entry s s'' n \<or> later s s'' n" for n
    using assms same_entry_trans later_trans unfolding evolves_def by metis
  then show ?thesis using assms by (simp add: evolves_def)
qed

lemma evolves_foreach:
  assumes "\<And>x s. x \<in> set xs \<Longrightarrow> evolves s (snd (f x s))"
  shows "evolves s (snd (foreach f xs s))"
  using foreach_inv [where P = "evolves s" and f = f and xs = xs and s = s] assms evolves_trans
  by (metis evolves_refl)

lemma evolves_and_then:
  "evolves s (snd m) \<Longrightarrow> (\<And>s. evolves s (snd (k s))) \<Longrightarrow> evolves s (snd (and_then m k))"
  using evolves_trans by (metis and_then_inv)

lemma evolves_touch:
  assumes "svSeq s' = svSeq s" "svObserved s' = svObserved s" "svForeign s' = svForeign s"
    "svEngine s' = svEngine s" "svSched s' = svSched s" "svLastPhase s' = svLastPhase s" "svSubs s' = svSubs s"
    "svChanged s' = svChanged s"
    "\<And>n. n \<noteq> name \<Longrightarrow> map_of (svTrack s') n = map_of (svTrack s) n"
    "\<And>n. n \<noteq> name \<Longrightarrow> map_of (svRecords s') n = map_of (svRecords s) n"
  shows "evolves s (touch name s')"
  using assms
  by (auto simp: evolves_def touch_def poke_def Let_def same_entry_def later_def)

text \<open>What only writes the store or the projects is not seen by a pass.\<close>

lemma evolves_disk:
  "evolves s (s\<lparr>svStore := d\<rparr>)" "evolves s (s\<lparr>svStore := d, svProjects := ps\<rparr>)"
  by (simp_all add: evolves_def same_entry_def)

lemma evolves_put: "evolves s (snd (put E sp s))"
  unfolding put_def Let_def
  by (auto simp: evolves_disk set_t_def intro!: evolves_touch split: prod.split option.split)

lemma evolves_delete: "evolves s (snd (delete E n s))"
  unfolding delete_def
  by (auto simp: evolves_disk intro!: evolves_touch split: prod.split option.split)

lemma evolves_store_project: "evolves s (snd (store_project E n p s))"
  by (auto simp: store_project_def evolves_disk split: prod.split option.split)

lemma evolves_drop_project: "evolves s (snd (drop_project E n s))"
  by (auto simp: drop_project_def evolves_disk split: prod.split option.split)

lemma evolves_delete_where: "evolves s (snd (delete_where E gone s))"
  unfolding delete_where_def by (rule evolves_foreach) (auto simp: evolves_delete)

lemmas evolves_intros = evolves_and_then evolves_foreach evolves_put evolves_delete
  evolves_store_project evolves_drop_project evolves_delete_where

lemma evolves_declare: "evolves s (snd (declare_project E n p specs s))"
  unfolding declare_project_def by (intro evolves_intros)

lemma evolves_put_project: "evolves s (snd (put_project_locked E n p specs s))"
  by (auto simp: put_project_locked_def evolves_declare split: option.split)

lemma evolves_put_projects: "evolves s (snd (put_projects_locked E files loaded s))"
  unfolding put_projects_locked_def
  by (intro evolves_intros) (auto intro: evolves_declare evolves_drop_project)

lemma evolves_delete_project: "evolves s (snd (delete_project E n s))"
  unfolding delete_project_def Let_def by (intro evolves_intros) (auto intro: evolves_drop_project)

lemma evolves_set_desired: "evolves s (snd (set_desired E n d s))"
  unfolding set_desired_def Let_def
  by (auto simp: and_then_def set_t_def evolves_disk intro!: evolves_touch
      split: prod.split option.split)

lemma evolves_mark_restart: "evolves s (mark_restart n s)"
  unfolding mark_restart_def upd_t_def set_t_def by (rule evolves_touch) auto

lemma evolves_api_step: "evolves s (api_step E p s)"
  by (cases p) (simp_all add: evolves_put_project evolves_put_projects evolves_delete_project
      evolves_set_desired evolves_mark_restart)

lemma evolves_fold: "evolves s (fold (api_step E) ops s)"
  by (induction ops arbitrary: s) (auto intro: evolves_trans evolves_api_step)

section \<open>What a released mutex can hide\<close>

text \<open>Every entry of \<open>changed\<close> is one of the sequence numbers handed out so far.\<close>

definition seq_inv :: "('d, 'e) sup \<Rightarrow> bool" where
  "seq_inv s \<longleftrightarrow> (\<forall>n w. map_of (svChanged s) n = Some w \<longrightarrow> (\<exists>j. 1 \<le> j \<and> j \<le> svSeq s \<and> w = word_of_nat j))"

text \<open>What the pass may rely on about \<open>name\<close> across an unlocked call that reports no change.\<close>

definition undisturbed :: "string \<Rightarrow> ('d, 'e) sup \<Rightarrow> ('d, 'e) sup \<Rightarrow> bool" where
  "undisturbed name s s' \<longleftrightarrow> map_of (svTrack s') name = map_of (svTrack s) name
     \<and> map_of (svRecords s') name = map_of (svRecords s) name
     \<and> svObserved s' = svObserved s \<and> svForeign s' = svForeign s"

lemma word_of_nat_inj:
  "i < 2 ^ 64 \<Longrightarrow> j < 2 ^ 64 \<Longrightarrow> (word_of_nat i :: 64 word) = word_of_nat j \<Longrightarrow> i = j"
  by (drule arg_cong [where f = unat]) (simp add: unsigned_of_nat take_bit_nat_eq_self)

lemma seq_inv_evolves:
  assumes "seq_inv s" "evolves s s'" shows "seq_inv s'"
  unfolding seq_inv_def
proof (intro allI impI)
  fix n w assume n: "map_of (svChanged s') n = Some w"
  consider "same_entry s s' n" | "later s s' n" using assms(2) by (auto simp: evolves_def)
  then show "\<exists>j. 1 \<le> j \<and> j \<le> svSeq s' \<and> w = word_of_nat j"
  proof cases
    case 1
    then show ?thesis using n assms unfolding seq_inv_def evolves_def same_entry_def by (metis le_trans)
  next
    case 2
    then show ?thesis using n unfolding later_def by (metis One_nat_def Suc_leI gr_implies_not0 neq0_conv option.inject)
  qed
qed

lemma later_changes:
  assumes "seq_inv s" "later s s' name" "svSeq s' < 2 ^ 64"
  shows "changed_at name s' \<noteq> changed_at name s"
proof
  assume e: "changed_at name s' = changed_at name s"
  obtain j where j: "svSeq s < j" "j \<le> svSeq s'" "changed_at name s' = word_of_nat j"
    using assms(2) by (auto simp: later_def changed_at_def)
  obtain i where "i \<le> svSeq s" "changed_at name s = word_of_nat i"
    using assms(1) unfolding seq_inv_def changed_at_def
    by (cases "map_of (svChanged s) name") (force intro: that [of 0], fastforce intro: that)
  then show False using word_of_nat_inj [of i j] j e assms(3) by auto
qed

lemma interfere_evolves: "\<exists>rest. evolves (s\<lparr>svSched := rest\<rparr>) (interfere E s)"
proof (cases "svSched s")
  case Nil
  then have "s\<lparr>svSched := []\<rparr> = s" by (cases s) simp
  then show ?thesis using Nil by (metis evolves_refl interfere_def list.case(1))
next
  case (Cons ops rest)
  then show ?thesis by (intro exI [of _ rest]) (simp add: interfere_def evolves_fold)
qed

lemma unlocked_evolves:
  assumes "unlocked E name call s = ((same, r), s')"
  shows "\<exists>en rest. call (svEngine s) = (r, en) \<and> svEngine s' = en
           \<and> evolves (s\<lparr>svEngine := en, svSched := rest\<rparr>) s'
           \<and> same = (changed_at name s' = changed_at name s)"
proof -
  obtain r' en where c: "call (svEngine s) = (r', en)" by fastforce
  obtain rest where "evolves (s\<lparr>svEngine := en, svSched := rest\<rparr>) (interfere E (s\<lparr>svEngine := en\<rparr>))"
    using interfere_evolves [of "s\<lparr>svEngine := en\<rparr>" E] by auto
  with c assms show ?thesis by (auto simp: unlocked_def Let_def evolves_def)
qed

lemma unlocked_seq_inv:
  assumes "unlocked E name call s = (x, s')" "seq_inv s"
  shows "seq_inv s'"
proof -
  obtain same r where x: "x = (same, r)" by fastforce
  obtain en rest where "evolves (s\<lparr>svEngine := en, svSched := rest\<rparr>) s'"
    using unlocked_evolves [OF assms(1) [unfolded x]] by blast
  moreover have "seq_inv (s\<lparr>svEngine := en, svSched := rest\<rparr>)"
    using assms(2) by (simp add: seq_inv_def)
  ultimately show ?thesis by (rule seq_inv_evolves [rotated])
qed

lemma unlocked_undisturbed:
  assumes "seq_inv s" "unlocked E name call s = ((True, r), s')" "svSeq s' < 2 ^ 64"
  shows "undisturbed name s s'"
proof -
  obtain en rest where e: "evolves (s\<lparr>svEngine := en, svSched := rest\<rparr>) s'"
    and c: "changed_at name s' = changed_at name s"
    using unlocked_evolves [OF assms(2)] by auto
  let ?s = "s\<lparr>svEngine := en, svSched := rest\<rparr>"
  have "seq_inv ?s" using assms(1) by (simp add: seq_inv_def)
  then have "\<not> later ?s s' name"
    using later_changes [of ?s s' name] c assms(3) by (auto simp: changed_at_def)
  then have "same_entry ?s s' name" using e unfolding evolves_def by blast
  then show ?thesis using e by (simp add: undisturbed_def same_entry_def evolves_def)
qed

end
