(* ===== verification/Footprint.thy ===== *)
theory Footprint
  imports Interleaving
begin

text \<open>
  What one \<open>reconcile\<close> may do. The locale \<open>reconcile_steps\<close> is the contract between \<open>reconcile\<close> and an
  invariant: the few ways it changes the state, each with the condition under which the code makes
  that step. Whatever keeps an invariant across those steps keeps it across \<open>reconcile\<close>. Its
  instances here are the numbering of \<open>changed\<close> and, over an engine that logs, the calls made.
\<close>

section \<open>The steps of reconcile\<close>

lemma unlocked_listing [simp]:
  "svObserved (snd (unlocked E n call s)) = svObserved s"
  "svForeign (snd (unlocked E n call s)) = svForeign s"
proof -
  obtain same res s' where u: "unlocked E n call s = ((same, res), s')" by (metis surj_pair)
  then show "svObserved (snd (unlocked E n call s)) = svObserved s"
    "svForeign (snd (unlocked E n call s)) = svForeign s"
    using unlocked_evolves [OF u] by (auto simp: evolves_def)
qed

lemma unlocked_observed: "unlocked E n call s = (x, s') \<Longrightarrow> svObserved s' = svObserved s"
  using unlocked_listing(1) [of E n call s] by simp

lemma set_t_sel [simp]:
  "svObserved (set_t n t s) = svObserved s" "svForeign (set_t n t s) = svForeign s"
  "svEngine (set_t n t s) = svEngine s" "svRecords (set_t n t s) = svRecords s"
  "svTrack (set_t n t s) = mput n t (svTrack s)" "svSched (set_t n t s) = svSched s"
  "svChanged (set_t n t s) = svChanged s" "svSeq (set_t n t s) = svSeq s"
  by (simp_all add: set_t_def)

lemma upd_t_sel [simp]:
  "svObserved (upd_t n f s) = svObserved s" "svForeign (upd_t n f s) = svForeign s"
  "svEngine (upd_t n f s) = svEngine s" "svRecords (upd_t n f s) = svRecords s"
  "svSched (upd_t n f s) = svSched s" "svChanged (upd_t n f s) = svChanged s" "svSeq (upd_t n f s) = svSeq s"
  by (simp_all add: upd_t_def)

lemma get_set_t [simp]: "get_t n (set_t n t s) = t" "get_t n (upd_t n f s) = f (get_t n s)"
  by (simp_all add: get_t_def upd_t_def)

lemma tr_sel [simp]:
  "svObserved (tr n s) = svObserved s" "svForeign (tr n s) = svForeign s"
  "svEngine (tr n s) = svEngine s" "svRecords (tr n s) = svRecords s" "svSched (tr n s) = svSched s"
  "get_t m (tr n s) = get_t m s"
  by (auto simp: tr_def get_t_def split: option.split)

locale reconcile_steps =
  fixes E :: "('d, 'e) env" and r :: store_record and I :: "('d, 'e) sup \<Rightarrow> bool"
  assumes track: "I s \<Longrightarrow> I (set_t (sName (recSpec r)) t s)"
    and forget: "I s \<Longrightarrow> I (s\<lparr>svObserved := mdel (sName (recSpec r)) (svObserved s)\<rparr>)"
    and remove: "I s \<Longrightarrow> map_of (svObserved s) (sName (recSpec r)) = Some c
      \<Longrightarrow> str_at (cLabels c) LabelSpec \<noteq> envHash E (normalized (recSpec r))
      \<Longrightarrow> I (snd (unlocked E (sName (recSpec r)) (eRemove (envEngine E) (sName (recSpec r))) s))"
    and stop: "I s \<Longrightarrow> map_of (svObserved s) (sName (recSpec r)) = Some c \<Longrightarrow> running c
      \<Longrightarrow> I (snd (unlocked E (sName (recSpec r)) (eStop (envEngine E) (sName (recSpec r)) (oStopTimeout (envOpts E))) s))"
    and check: "I s \<Longrightarrow> map_of (svObserved s) (sName (recSpec r)) = Some c \<Longrightarrow> running c
      \<Longrightarrow> sHealth (normalized (recSpec r)) = Some h \<Longrightarrow> recDesired r \<noteq> Stopped
      \<Longrightarrow> I (snd (unlocked E (sName (recSpec r))
            (eHealthCheck (envEngine E) (sName (recSpec r)) (wrap64 (secs (hTimeoutSeconds h) + 5 * second))) s))"
    and run: "I s \<Longrightarrow> recDesired r \<noteq> Stopped \<Longrightarrow> unready s (normalized (recSpec r)) = []
      \<Longrightarrow> (if ex then has_key (svObserved s) (sName (recSpec r)) else map_of (svForeign s) (sName (recSpec r)) = None)
      \<Longrightarrow> I (snd (unlocked E (sName (recSpec r)) (start_call (envEngine E) (normalized (recSpec r)) ex) s))"
begin

lemma upd: "I s \<Longrightarrow> I (upd_t (sName (recSpec r)) f s)"
  unfolding upd_t_def by (rule track)

lemma make: "I s \<Longrightarrow> I (tr (sName (recSpec r)) s)"
  using track [of s zero_tracking] by (simp add: tr_def set_t_def split: option.split)

lemma start_kept:
  assumes "I s" "recDesired r \<noteq> Stopped" "ex \<Longrightarrow> has_key (svObserved s) (sName (recSpec r))"
  shows "I (snd (start E (normalized (recSpec r)) ex now s))"
proof -
  let ?u = "unlocked E (sName (recSpec r)) (start_call (envEngine E) (normalized (recSpec r)) ex) s"
  have u: "I (snd ?u)" if "ex \<or> map_of (svForeign s) (sName (recSpec r)) = None" "unready s (normalized (recSpec r)) = []"
    by (rule run) (use assms that in auto)
  show ?thesis
    using assms u by (auto simp: start_def Let_def upd split: option.split prod.split)
qed

lemma health_kept:
  assumes "I s" "map_of (svObserved s) (sName (recSpec r)) = Some c" "running c"
    "sHealth (normalized (recSpec r)) = Some h" "recDesired r \<noteq> Stopped"
  shows "I (snd (health_sup E (sName (recSpec r)) h c now s))"
proof -
  let ?s = "upd_t (sName (recSpec r)) (health_run c) s"
  have "I (snd (unlocked E (sName (recSpec r))
      (eHealthCheck (envEngine E) (sName (recSpec r)) (wrap64 (secs (hTimeoutSeconds h) + 5 * second))) ?s))"
    by (rule check) (use assms in \<open>auto simp: upd\<close>)
  then show ?thesis using assms by (auto simp: health_sup_def Let_def upd split: prod.split)
qed

lemma exited_kept:
  assumes "I s" "recDesired r \<noteq> Stopped" "has_key (svObserved s) (sName (recSpec r))"
  shows "I (snd (exited E (normalized (recSpec r)) c now s))"
  using assms by (auto simp: exited_def Let_def track start_kept split: prod.split decision.split)

lemma recreate_kept:
  assumes "I s"
  shows "case recreate E r (normalized (recSpec r)) s of
    Inl s' \<Rightarrow> I s' | Inr (ex, s') \<Rightarrow> I s' \<and> (ex \<longrightarrow> svObserved s' = svObserved s \<and> has_key (svObserved s) (sName (recSpec r)))"
proof (cases "map_of (svObserved s) (sName (recSpec r))")
  case (Some c)
  let ?u = "unlocked E (sName (recSpec r)) (eRemove (envEngine E) (sName (recSpec r))) s"
  have "I (snd ?u)" if "str_at (cLabels c) LabelSpec \<noteq> envHash E (normalized (recSpec r))"
    by (rule remove [OF assms Some that])
  then show ?thesis
    using assms Some by (auto simp: recreate_def Let_def upd track forget split: prod.split option.split)
qed (simp add: recreate_def assms)

lemma stopped_kept:
  assumes "I s" "c = None \<or> map_of (svObserved s) (sName (recSpec r)) = c"
  shows "I (snd (reconcile_stopped E (sName (recSpec r)) c s))"
proof (cases c)
  case (Some k)
  let ?u = "unlocked E (sName (recSpec r)) (eStop (envEngine E) (sName (recSpec r)) (oStopTimeout (envOpts E))) s"
  have "I (snd ?u)" if "running k"
    by (rule stop) (use assms Some that in auto)
  then show ?thesis
    using assms Some by (auto simp: reconcile_stopped_def Let_def upd track split: prod.split option.split)
qed (simp add: reconcile_stopped_def assms track)

lemma restart_kept:
  assumes "I s" "map_of (svObserved s) (sName (recSpec r)) = Some c" "running c" "recDesired r \<noteq> Stopped"
  shows "I (snd (reconcile_restart E (normalized (recSpec r)) now s))"
proof -
  let ?u = "unlocked E (sName (recSpec r)) (eStop (envEngine E) (sName (recSpec r)) (oStopTimeout (envOpts E))) s"
  have "I (snd ?u)" by (rule stop) (use assms in auto)
  then show ?thesis using assms
    by (auto simp: reconcile_restart_def Let_def upd start_kept unlocked_observed split: prod.split option.split)
qed

lemma running_kept:
  assumes "I s" "map_of (svObserved s) (sName (recSpec r)) = Some c" "running c" "recDesired r \<noteq> Stopped"
  shows "I (snd (reconcile_running E (normalized (recSpec r)) c now s))"
proof -
  let ?f = "\<lambda>t. t\<lparr>tForce := False, tErr := [], tPhase := (if now < cStartedAt c + startConfirm then PhaseStarting else PhaseRunning)\<rparr>"
  have "I (snd (health_sup E (sName (recSpec r)) h c now (upd_t (sName (recSpec r)) ?f s)))"
    if "sHealth (normalized (recSpec r)) = Some h" for h
    by (rule health_kept) (use assms that in \<open>auto simp: upd\<close>)
  then show ?thesis using assms
    by (auto simp del: normalized_sel(20) simp: reconcile_running_def Let_def upd split: prod.split option.split)
qed

lemma idle_kept:
  assumes "I s" "c = None \<or> map_of (svObserved s) (sName (recSpec r)) = c" "recDesired r \<noteq> Stopped"
  shows "I (snd (reconcile_idle E (normalized (recSpec r)) c now s))"
  using assms
  by (auto simp: reconcile_idle_def Let_def upd track start_kept exited_kept split: option.split if_splits)

lemma reconcile_kept:
  assumes "I s"
  shows "I (snd (reconcile E now r s))"
proof (cases "recreate E r (normalized (recSpec r)) (tr (sName (recSpec r)) s)")
  case (Inl s')
  then show ?thesis using recreate_kept [OF make [OF assms]] by (simp add: reconcile_def Let_def)
next
  case (Inr p)
  obtain ex s' where p: "p = (ex, s')" by fastforce
  have kept: "I s'" and ob: "ex \<Longrightarrow> svObserved s' = svObserved s \<and> has_key (svObserved s) (sName (recSpec r))"
    using recreate_kept [OF make [OF assms]] Inr p by auto
  have c: "(if ex then map_of (svObserved s) (sName (recSpec r)) else None) = None
      \<or> map_of (svObserved s') (sName (recSpec r)) = (if ex then map_of (svObserved s) (sName (recSpec r)) else None)"
    using ob by auto
  have "recDesired r = Stopped \<Longrightarrow> ?thesis"
    using Inr p stopped_kept [OF kept c] by (auto simp: reconcile_def Let_def split: if_splits)
  moreover have "recDesired r \<noteq> Stopped \<Longrightarrow> ?thesis"
    using Inr p kept c
    by (auto simp: reconcile_def Let_def upd restart_kept running_kept idle_kept split: option.split)
  ultimately show ?thesis by blast
qed

end

interpretation numbering: reconcile_steps E r seq_inv for E r
proof unfold_locales
  show "seq_inv (set_t (sName (recSpec r)) t s)" if "seq_inv s" for t s
    using that by (simp add: seq_inv_def)
  show "seq_inv (s\<lparr>svObserved := mdel (sName (recSpec r)) (svObserved s)\<rparr>)" if "seq_inv s" for s
    using that by (simp add: seq_inv_def)
qed (use unlocked_seq_inv in \<open>metis prod.collapse\<close>)+

section \<open>The calls of reconcile\<close>

text \<open>
  The calls about the record \<open>r\<close> that are allowed when \<open>c\<close> is the container observed under its name and
  \<open>f\<close> the one of that name the supervisor does not manage.
\<close>

fun permitted :: "('d, 'e) env \<Rightarrow> container option \<Rightarrow> container option \<Rightarrow> store_record \<Rightarrow> call \<Rightarrow> bool" where
  "permitted E c f r (CallRun sp) \<longleftrightarrow>
     sp = normalized (recSpec r) \<and> recDesired r \<noteq> Stopped \<and> (c \<noteq> None \<or> f = None)"
| "permitted E c f r (CallStart n) \<longleftrightarrow>
     n = sName (recSpec r) \<and> recDesired r \<noteq> Stopped \<and> c \<noteq> None \<and> sDevices (recSpec r) = []"
| "permitted E c f r (CallStop n) \<longleftrightarrow> n = sName (recSpec r) \<and> (\<exists>k. c = Some k \<and> running k)"
| "permitted E c f r (CallRemove n) \<longleftrightarrow>
     n = sName (recSpec r) \<and> (\<exists>k. c = Some k \<and> str_at (cLabels k) LabelSpec \<noteq> envHash E (normalized (recSpec r)))"
| "permitted E c f r (CallHealth n) \<longleftrightarrow>
     n = sName (recSpec r) \<and> recDesired r \<noteq> Stopped \<and> sHealth (recSpec r) \<noteq> None \<and> (\<exists>k. c = Some k \<and> running k)"
| "permitted E c f r (CallCreateNetwork n p) \<longleftrightarrow>
     n = sNetwork (recSpec r) \<and> p = sProject (recSpec r) \<and> n \<noteq> [] \<and> recDesired r \<noteq> Stopped"
| "permitted E c f r (CallRemoveNetwork n) \<longleftrightarrow> False"

text \<open>The log since \<open>s0\<close> holds only permitted calls, and the listing only lost what was removed.\<close>

definition within ::
  "('d, 'e \<times> call list) env \<Rightarrow> store_record \<Rightarrow> ('d, 'e \<times> call list) sup \<Rightarrow> ('d, 'e \<times> call list) sup \<Rightarrow> bool" where
  "within E r s0 s \<longleftrightarrow>
     (let n = sName (recSpec r) in
      (\<exists>cs. snd (svEngine s) = snd (svEngine s0) @ cs
         \<and> (\<forall>k \<in> set cs. permitted E (map_of (svObserved s0) n) (map_of (svForeign s0) n) r k))
      \<and> svForeign s = svForeign s0
      \<and> (map_of (svObserved s) n = None \<or> map_of (svObserved s) n = map_of (svObserved s0) n)
      \<and> (\<forall>m. m \<noteq> n \<longrightarrow> map_of (svObserved s) m = map_of (svObserved s0) m))"

lemma within_refl: "within E r s s"
  by (simp add: within_def)

lemma unlocked_engine: "svEngine (snd (unlocked E n call s)) = snd (call (svEngine s))"
proof -
  obtain same res s' where u: "unlocked E n call s = ((same, res), s')" by (metis surj_pair)
  then show ?thesis using unlocked_evolves [OF u] by auto
qed

lemma within_call:
  assumes "within E r s0 s" "snd (snd (call (svEngine s))) = snd (svEngine s) @ cs"
    "\<And>k. k \<in> set cs \<Longrightarrow> permitted E (map_of (svObserved s0) (sName (recSpec r)))
       (map_of (svForeign s0) (sName (recSpec r))) r k"
  shows "within E r s0 (snd (unlocked E n call s))"
  using assms by (auto simp: within_def Let_def unlocked_engine)

lemma within_observed:
  "within E r s0 s \<Longrightarrow> map_of (svObserved s) (sName (recSpec r)) = Some c
     \<Longrightarrow> map_of (svObserved s0) (sName (recSpec r)) = Some c"
  by (auto simp: within_def Let_def)

text \<open>The calls one start makes, the network before the container.\<close>

definition start_calls :: "spec \<Rightarrow> bool \<Rightarrow> call list set" where
  "start_calls sp ex =
     (if ex \<and> sDevices sp = [] then {[CallStart (sName sp)]}
      else if sNetwork sp = [] then {[CallRun sp]}
      else {[CallCreateNetwork (sNetwork sp) (sProject sp)],
            [CallCreateNetwork (sNetwork sp) (sProject sp), CallRun sp]})"

lemma start_call_log:
  "\<exists>cs \<in> start_calls sp ex. snd (snd (start_call (logging En) sp ex en)) = snd en @ cs"
  by (auto simp: start_calls_def start_call_def and_then_def split: prod.split option.split)
     (metis append_assoc append_Cons append_Nil log_call_log snd_conv)+

text \<open>An environment whose engine logs.\<close>

definition logged :: "('d, 'e) env \<Rightarrow> ('d, 'e \<times> call list) env" where
  "logged E = \<lparr>envStore = envStore E, envEngine = logging (envEngine E), envHash = envHash E,
     envOpts = envOpts E, envLoad = envLoad E\<rparr>"

lemma logged_sel [simp]:
  "envEngine (logged E) = logging (envEngine E)" "envHash (logged E) = envHash E"
  "envOpts (logged E) = envOpts E" "envStore (logged E) = envStore E" "envLoad (logged E) = envLoad E"
  by (simp_all add: logged_def)

interpretation calls: reconcile_steps "logged E" r "within (logged E) r s0" for E r s0
proof unfold_locales
  fix s :: "('a, 'b \<times> call list) sup" and ex
  assume a: "within (logged E) r s0 s" "recDesired r \<noteq> Stopped" "unready s (normalized (recSpec r)) = []"
    "if ex then has_key (svObserved s) (sName (recSpec r)) else map_of (svForeign s) (sName (recSpec r)) = None"
  then have ok: "map_of (svObserved s0) (sName (recSpec r)) \<noteq> None \<or> map_of (svForeign s0) (sName (recSpec r)) = None"
    "ex \<Longrightarrow> map_of (svObserved s0) (sName (recSpec r)) \<noteq> None"
    by (auto simp: within_def Let_def split: if_splits)
  obtain cs where cs: "cs \<in> start_calls (normalized (recSpec r)) ex"
    "snd (snd (start_call (logging (envEngine E)) (normalized (recSpec r)) ex (svEngine s))) = snd (svEngine s) @ cs"
    using start_call_log by blast
  have "permitted (logged E) (map_of (svObserved s0) (sName (recSpec r)))
       (map_of (svForeign s0) (sName (recSpec r))) r k" if "k \<in> set cs" for k
    using ok a(2) cs(1) that by (auto simp: start_calls_def split: if_splits)
  then show "within (logged E) r s0 (snd (unlocked (logged E) (sName (recSpec r))
      (start_call (envEngine (logged E)) (normalized (recSpec r)) ex) s))"
    by (intro within_call [OF a(1), where cs = cs]) (use cs(2) in simp_all)
next
  fix s :: "('a, 'b \<times> call list) sup" and c
  assume a: "within (logged E) r s0 s" "map_of (svObserved s) (sName (recSpec r)) = Some c"
  note c = within_observed [OF a]
  show "within (logged E) r s0 (snd (unlocked (logged E) (sName (recSpec r))
      (eRemove (envEngine (logged E)) (sName (recSpec r))) s))"
    if "str_at (cLabels c) LabelSpec \<noteq> envHash (logged E) (normalized (recSpec r))"
    by (intro within_call [OF a(1), where cs = "[CallRemove (sName (recSpec r))]"]) (use c that in auto)
  show "within (logged E) r s0 (snd (unlocked (logged E) (sName (recSpec r))
      (eStop (envEngine (logged E)) (sName (recSpec r)) (oStopTimeout (envOpts (logged E)))) s))" if "running c"
    by (intro within_call [OF a(1), where cs = "[CallStop (sName (recSpec r))]"]) (use c that in auto)
  show "within (logged E) r s0 (snd (unlocked (logged E) (sName (recSpec r)) (eHealthCheck (envEngine (logged E))
      (sName (recSpec r)) (wrap64 (secs (hTimeoutSeconds h) + 5 * second))) s))"
    if "running c" "sHealth (normalized (recSpec r)) = Some h" "recDesired r \<noteq> Stopped" for h
    by (intro within_call [OF a(1), where cs = "[CallHealth (sName (recSpec r))]"]) (use c that in auto)
qed (auto simp: within_def Let_def)

end
