(* ===== verification/PassCalls.thy ===== *)
theory PassCalls
  imports Footprint
begin

text \<open>
  The calls of a whole pass, over an engine that logs and for every interleaving with the API: which
  containers it may call about. A container that is listed without the managed label is never
  called about.
\<close>

section \<open>The parts of a pass\<close>

abbreviation log_of :: "('d, 'e \<times> call list) sup \<Rightarrow> call list" where
  "log_of s \<equiv> snd (svEngine s)"

definition strange :: "container list \<Rightarrow> string set" where
  "strange listed = cName ` {c \<in> set listed. \<not> managed c}"

text \<open>Since \<open>s0\<close> every call about a container was about one outside \<open>S\<close>.\<close>

definition spares :: "string set \<Rightarrow> ('d, 'e \<times> call list) sup \<Rightarrow> ('d, 'e \<times> call list) sup \<Rightarrow> bool" where
  "spares S s0 s \<longleftrightarrow> (\<exists>cs. log_of s = log_of s0 @ cs \<and> (\<forall>k \<in> set cs. \<forall>n \<in> S. call_on k \<noteq> Some n))"

lemma spares_refl [simp]: "spares S s s"
  by (simp add: spares_def)

lemma spares_trans: "spares S s s' \<Longrightarrow> spares S s' s'' \<Longrightarrow> spares S s s''"
  by (auto simp: spares_def)

lemma spares_same: "log_of s' = log_of s \<Longrightarrow> spares S s s'"
  by (simp add: spares_def)

lemma interfere_same [simp]:
  "svEngine (interfere E s) = svEngine s" "svObserved (interfere E s) = svObserved s"
  "svForeign (interfere E s) = svForeign s" "svLastPhase (interfere E s) = svLastPhase s"
  "svSubs (interfere E s) = svSubs s"
  using interfere_evolves [of s E] by (auto simp: evolves_def)

text \<open>\<open>S\<close> is among the foreign names, and nothing of it is observed.\<close>

definition guarded :: "string set \<Rightarrow> ('d, 'e) sup \<Rightarrow> bool" where
  "guarded S s \<longleftrightarrow> S \<subseteq> fst ` set (svForeign s) \<and> fst ` set (svObserved s) \<inter> S = {}"

lemma permitted_spares:
  assumes "permitted E (map_of ob m) (map_of fo m) r k" "m = sName (recSpec r)"
    "map_of ob n = None" "map_of fo n \<noteq> None"
  shows "call_on k \<noteq> Some n"
  using assms by (cases k) auto

lemma reconcile_spares:
  assumes "guarded S s"
  shows "spares S s (snd (reconcile (logged E) now r s))" "guarded S (snd (reconcile (logged E) now r s))"
proof -
  let ?s = "snd (reconcile (logged E) now r s)" and ?n = "sName (recSpec r)"
  have w: "within (logged E) r s ?s" by (rule calls.reconcile_kept) (rule within_refl)
  have S: "map_of (svObserved s) n = None" "map_of (svForeign s) n \<noteq> None" if "n \<in> S" for n
    using that assms unfolding map_of_eq_None_iff guarded_def by blast+
  obtain cs where cs: "log_of ?s = log_of s @ cs"
    "\<forall>k \<in> set cs. permitted (logged E) (map_of (svObserved s) ?n) (map_of (svForeign s) ?n) r k"
    using w unfolding within_def Let_def by blast
  then have "\<forall>k \<in> set cs. \<forall>n \<in> S. call_on k \<noteq> Some n"
    using S permitted_spares by metis
  with cs(1) show "spares S s ?s" unfolding spares_def by blast
  have "fst ` set (svObserved ?s) \<subseteq> fst ` set (svObserved s)" "svForeign ?s = svForeign s"
    using w unfolding within_def Let_def by (metis has_key_fst subsetI, simp)
  then show "guarded S ?s" using assms unfolding guarded_def by auto
qed

text \<open>The listing: what is managed is observed or removed, what is not becomes foreign.\<close>

lemma scan_one_spares:
  assumes "managed c \<longrightarrow> cName c \<notin> S"
  shows "spares S s (scan_one (logged E) c s)"
    "fst ` set (svForeign (scan_one (logged E) c s)) = (if managed c then {} else {cName c}) \<union> fst ` set (svForeign s)"
    "fst ` set (svObserved (scan_one (logged E) c s)) \<subseteq> (if managed c then {cName c} else {}) \<union> fst ` set (svObserved s)"
  using assms by (auto simp: scan_one_def spares_def unlocked_engine)

lemma scan_fold:
  assumes "\<forall>c \<in> set cs. managed c \<longrightarrow> cName c \<notin> S"
  shows "spares S s (fold (scan_one (logged E)) cs s)
    \<and> fst ` set (svForeign (fold (scan_one (logged E)) cs s)) = strange cs \<union> fst ` set (svForeign s)
    \<and> (fst ` set (svObserved s) \<inter> S = {} \<longrightarrow> fst ` set (svObserved (fold (scan_one (logged E)) cs s)) \<inter> S = {})"
  using assms
proof (induction cs arbitrary: s)
  case (Cons c cs)
  let ?s = "scan_one (logged E) c s"
  note one = scan_one_spares [where c = c and S = S and s = s and E = E]
  have ih: "spares S ?s (fold (scan_one (logged E)) cs ?s)"
    "fst ` set (svForeign (fold (scan_one (logged E)) cs ?s)) = strange cs \<union> fst ` set (svForeign ?s)"
    "fst ` set (svObserved ?s) \<inter> S = {} \<longrightarrow> fst ` set (svObserved (fold (scan_one (logged E)) cs ?s)) \<inter> S = {}"
    using Cons by simp_all
  have st: "strange (c # cs) = (if managed c then {} else {cName c}) \<union> strange cs"
    by (auto simp: strange_def)
  have "(if managed c then {cName c} else {}) \<inter> S = {}" using Cons.prems by auto
  then have ob: "fst ` set (svObserved s) \<inter> S = {} \<Longrightarrow> fst ` set (svObserved ?s) \<inter> S = {}"
    using one(3) Cons.prems by (meson disjoint_iff subsetD UnE list.set_intros)
  have m: "managed c \<longrightarrow> cName c \<notin> S" using Cons.prems by simp
  note sp = spares_trans [OF one(1) [OF m] ih(1)]
  have "fst ` set (svForeign (fold (scan_one (logged E)) (c # cs) s)) = strange (c # cs) \<union> fst ` set (svForeign s)"
    unfolding fold_simps(2) ih(2) one(2) [OF m] st by auto
  then show ?case using sp ih(3) ob by simp
qed (auto simp: strange_def)

lemma visit_spares:
  assumes "guarded S s"
  shows "spares S s (snd (visit (logged E) clk n (t, s))) \<and> guarded S (snd (visit (logged E) clk n (t, s)))"
proof (cases "map_of (svRecords s) n")
  case (Some r)
  then show ?thesis
    using reconcile_spares [OF assms, of E "clk n" r] by (auto simp: visit_def split: prod.split)
qed (simp add: visit_def assms)

lemma visit_all_spares:
  "guarded S s \<Longrightarrow> spares S s (snd (visit_all (logged E) clk ns (t, s)))"
proof (induction ns arbitrary: t s)
  case (Cons n ns)
  obtain t' s' where v: "visit (logged E) clk n (t, s) = (t', s')" by (metis surj_pair)
  then have "spares S s s'" "guarded S s'" using visit_spares [OF Cons.prems, of E clk n t] by auto
  then show ?case using Cons.IH [of s' t'] v spares_trans by (auto simp: visit_all_def)
qed (simp add: visit_all_def)

lemma remove_networks_log:
  "\<exists>ns. snd (remove_networks_call (logging En) declared en) = snd en @ map CallRemoveNetwork ns
     \<and> set ns \<inter> set declared = {}"
proof -
  have f: "\<exists>ns. snd (fold (\<lambda>n en. if List.member declared (nName n) then en
        else snd (eRemoveNetwork (logging En) (nName n) en)) nets en)
      = snd en @ map CallRemoveNetwork ns \<and> set ns \<inter> set declared = {}" for nets en
  proof (induction nets arbitrary: en)
    case (Cons n nets)
    let ?en = "if List.member declared (nName n) then en
        else snd (eRemoveNetwork (logging En) (nName n) en)"
    obtain ns where ns: "snd (fold (\<lambda>n en. if List.member declared (nName n) then en
        else snd (eRemoveNetwork (logging En) (nName n) en)) nets ?en)
      = snd ?en @ map CallRemoveNetwork ns" "set ns \<inter> set declared = {}"
      using Cons.IH [of ?en] by blast
    show ?case
      by (rule exI [of _ "(if List.member declared (nName n) then ns else nName n # ns)"])
         (use ns in \<open>auto simp: List.member_iff\<close>)
  qed (auto intro: exI [of _ "[]"])
  obtain res en1 where n: "eNetworks (logging En) en = (res, en1)" by (metis surj_pair)
  then have "snd en1 = snd en" using logging_reads(2) [of En en] by simp
  then show ?thesis using f [of _ en1] n
    by (cases res) (auto simp: remove_networks_call_def intro: exI [of _ "[]"])
qed

lemma remove_networks_spares: "spares S s (remove_networks (logged E) s)"
  using remove_networks_log [of "envEngine E" "map (sNetwork \<circ> recSpec \<circ> snd) (svRecords s)" "svEngine s"]
  by (auto simp: remove_networks_def spares_def)

lemma publish_same [simp]: "svEngine (publish now s) = svEngine s" "svTrack (publish now s) = svTrack s"
  "svRecords (publish now s) = svRecords s"
  by (simp_all add: publish_def)

lemma pass_spares:
  assumes "eList (envEngine E) (fst (svEngine s)) = (Inr listed, en)"
    and "\<forall>c \<in> set listed. managed c \<longrightarrow> cName c \<notin> strange listed"
  shows "spares (strange listed) s (snd (pass (logged E) clk pub s))"
proof -
  let ?S = "strange listed"
  let ?s0 = "interfere (logged E) (s\<lparr>svEngine := (en, log_of s)\<rparr>)"
  have l: "eList (envEngine (logged E)) (svEngine s) = (Inr listed, (en, log_of s))"
    using assms(1) by (simp add: logging_def)
  have 0: "spares ?S s (?s0\<lparr>svObserved := [], svForeign := []\<rparr>)" by (rule spares_same) simp
  have 1: "spares ?S (?s0\<lparr>svObserved := [], svForeign := []\<rparr>) (scan (logged E) listed ?s0)"
    and g: "guarded ?S (scan (logged E) listed ?s0)"
    using scan_fold [OF assms(2), of "?s0\<lparr>svObserved := [], svForeign := []\<rparr>" E]
    by (auto simp: scan_def guarded_def)
  let ?v = "visit_all (logged E) clk (sorted_keys (svRecords (scan (logged E) listed ?s0))) (0, scan (logged E) listed ?s0)"
  have 2: "spares ?S (scan (logged E) listed ?s0) (snd ?v)"
    by (rule visit_all_spares [OF g])
  have 3: "spares ?S (snd ?v) (remove_networks (logged E) (snd ?v))"
    by (rule remove_networks_spares)
  have "spares ?S s (remove_networks (logged E) (snd ?v))"
    by (rule spares_trans [OF 0 spares_trans [OF 1 spares_trans [OF 2 3]]])
  then have "spares ?S s (publish pub (remove_networks (logged E) (snd ?v)))"
    by (simp add: spares_def)
  then show ?thesis using l by (cases ?v) (simp add: pass_def Let_def)
qed

end
