(* ===== verification/Converge.thy ===== *)
theory Converge
  imports PassCalls
begin

text \<open>
  What a pass achieves. Nothing interferes (\<open>svSched\<close> is empty) and the engine does what the
  comments of the interface \<open>Engine\<close> say (\<open>faithful\<close>). Then the effect of \<open>reconcile\<close> on its
  container is \<open>outcome\<close>, other containers are left alone, and a whole pass brings every container
  to its declaration.
\<close>

section \<open>A faithful engine\<close>

text \<open>
  \<open>view\<close> is the containers that exist, by name. A call that works returns no error. \<open>hash\<close> is the label
  \<open>Run\<close> gives a container of a spec.
\<close>

definition runs_as :: "string \<Rightarrow> string \<Rightarrow> container \<Rightarrow> bool" where
  "runs_as name label c \<longleftrightarrow> running c \<and> managed c \<and> cName c = name \<and> str_at (cLabels c) LabelSpec = label"

definition faithful :: "'e engine \<Rightarrow> (spec \<Rightarrow> string) \<Rightarrow> ('e \<Rightarrow> string \<Rightarrow> container option) \<Rightarrow> bool" where
  "faithful En hash view \<longleftrightarrow>
     (\<forall>en. \<exists>l en'. eList En en = (Inr l, en') \<and> view en' = view en \<and> distinct (map cName l)
         \<and> map_of (map (\<lambda>c. (cName c, c)) l) = view en)
   \<and> (\<forall>en sp. \<exists>c en'. eRun En sp en = (None, en') \<and> runs_as (sName sp) (hash sp) c
         \<and> view en' = (view en)(sName sp \<mapsto> c))
   \<and> (\<forall>en n c. view en n = Some c \<longrightarrow> (\<exists>c' en'. eStart En n en = (None, en') \<and> running c'
         \<and> cLabels c' = cLabels c \<and> cName c' = cName c \<and> view en' = (view en)(n \<mapsto> c')))
   \<and> (\<forall>en n d c. view en n = Some c \<longrightarrow> (\<exists>c' en'. eStop En n d en = (None, en') \<and> \<not> running c'
         \<and> cLabels c' = cLabels c \<and> cName c' = cName c \<and> view en' = (view en)(n \<mapsto> c')))
   \<and> (\<forall>en n. \<exists>en'. eRemove En n en = (None, en') \<and> view en' = (view en)(n := None))
   \<and> (\<forall>en n m. m \<noteq> n \<longrightarrow> view (snd (eStart En n en)) m = view en m)
   \<and> (\<forall>en n d m. m \<noteq> n \<longrightarrow> view (snd (eStop En n d en)) m = view en m)
   \<and> (\<forall>en n d. view (snd (eHealthCheck En n d en)) = view en)
   \<and> (\<forall>en. view (snd (eNetworks En en)) = view en)
   \<and> (\<forall>en n p. \<exists>en'. eCreateNetwork En n p en = (None, en') \<and> view en' = view en)
   \<and> (\<forall>en n. view (snd (eRemoveNetwork En n en)) = view en)"

section \<open>Without interference\<close>

lemma quiet_unlocked:
  "svSched s = [] \<Longrightarrow> unlocked E n call s
     = ((True, fst (call (svEngine s))), s\<lparr>svEngine := snd (call (svEngine s))\<rparr>)"
  by (simp add: unlocked_def interfere_def changed_at_def split: prod.split)

text \<open>Everything but what is about \<open>n\<close> is as in \<open>s0\<close>.\<close>

definition apart ::
  "('e \<Rightarrow> string \<Rightarrow> container option) \<Rightarrow> string \<Rightarrow> ('d, 'e) sup \<Rightarrow> ('d, 'e) sup \<Rightarrow> bool" where
  "apart view n s0 s \<longleftrightarrow> svSched s = [] \<and> svRecords s = svRecords s0 \<and> svForeign s = svForeign s0
     \<and> (\<forall>m. m \<noteq> n \<longrightarrow> map_of (svTrack s) m = map_of (svTrack s0) m
           \<and> map_of (svObserved s) m = map_of (svObserved s0) m
           \<and> view (svEngine s) m = view (svEngine s0) m)"

lemma apart_call:
  assumes "apart view n s0 s" "\<And>m. m \<noteq> n \<Longrightarrow> view (snd (call (svEngine s))) m = view (svEngine s) m"
  shows "apart view n s0 (snd (unlocked E n call s))"
  using assms by (simp add: apart_def quiet_unlocked)

text \<open>The facts of a faithful engine, as rules.\<close>

lemma faithful_list: "faithful En h view \<Longrightarrow> \<exists>l en'. eList En en = (Inr l, en') \<and> view en' = view en
    \<and> distinct (map cName l) \<and> map_of (map (\<lambda>c. (cName c, c)) l) = view en"
  by (simp add: faithful_def)

lemma faithful_named: "faithful En h view \<Longrightarrow> view en n = Some c \<Longrightarrow> cName c = n"
proof -
  assume a: "faithful En h view" "view en n = Some c"
  obtain l where "map_of (map (\<lambda>c. (cName c, c)) l) = view en"
    using faithful_list [OF a(1), of en] by metis
  then have "map_of (map (\<lambda>c. (cName c, c)) l) n = Some c" using a(2) by simp
  then show "cName c = n" by (auto dest: map_of_SomeD)
qed

lemma faithful_run: "faithful En h view \<Longrightarrow> \<exists>c en'. eRun En sp en = (None, en')
    \<and> runs_as (sName sp) (h sp) c \<and> view en' = (view en)(sName sp \<mapsto> c)"
  by (simp add: faithful_def)

lemma faithful_start: "faithful En h view \<Longrightarrow> view en n = Some c \<Longrightarrow> \<exists>c' en'. eStart En n en = (None, en')
    \<and> running c' \<and> cLabels c' = cLabels c \<and> cName c' = cName c \<and> view en' = (view en)(n \<mapsto> c')"
  by (simp add: faithful_def)

lemma faithful_stop: "faithful En h view \<Longrightarrow> view en n = Some c \<Longrightarrow> \<exists>c' en'. eStop En n d en = (None, en')
    \<and> \<not> running c' \<and> cLabels c' = cLabels c \<and> cName c' = cName c \<and> view en' = (view en)(n \<mapsto> c')"
  by (simp add: faithful_def)

lemma faithful_remove: "faithful En h view \<Longrightarrow> \<exists>en'. eRemove En n en = (None, en') \<and> view en' = (view en)(n := None)"
  by (simp add: faithful_def)

lemma faithful_reads: "faithful En h view \<Longrightarrow> view (snd (eHealthCheck En n d en)) = view en"
  "faithful En h view \<Longrightarrow> view (snd (eNetworks En en)) = view en"
  "faithful En h view \<Longrightarrow> view (snd (eRemoveNetwork En n en)) = view en"
  "faithful En h view \<Longrightarrow> m \<noteq> n \<Longrightarrow> view (snd (eStart En n en)) m = view en m"
  "faithful En h view \<Longrightarrow> m \<noteq> n \<Longrightarrow> view (snd (eStop En n d en)) m = view en m"
  by (simp_all add: faithful_def)

lemma faithful_network: "faithful En h view \<Longrightarrow> \<exists>en'. eCreateNetwork En n p en = (None, en') \<and> view en' = view en"
  by (simp add: faithful_def)

text \<open>A start, of a container that exists or not, leaves it running as declared.\<close>

lemma faithful_start_call:
  assumes "faithful En h view" "ex \<Longrightarrow> view en (sName sp) = Some c \<and> managed c \<and> cName c = sName sp
      \<and> str_at (cLabels c) LabelSpec = h sp"
  shows "\<exists>c' en'. start_call En sp ex en = (None, en') \<and> runs_as (sName sp) (h sp) c'
      \<and> view en' = (view en)(sName sp \<mapsto> c')"
proof (cases "ex \<and> sDevices sp = []")
  case True
  then obtain c' en' where "eStart En (sName sp) en = (None, en')" "view en' = (view en)(sName sp \<mapsto> c')"
    "running c'" "cLabels c' = cLabels c" "cName c' = cName c"
    using faithful_start [OF assms(1), of en "sName sp" c] assms(2) by blast
  then show ?thesis using True assms(2)
    by (intro exI [of _ c'] exI [of _ en']) (simp add: start_call_def runs_as_def managed_def)
next
  case False
  obtain en1 where n: "eCreateNetwork En (sNetwork sp) (sProject sp) en = (None, en1)" "view en1 = view en"
    using faithful_network [OF assms(1)] by blast
  then show ?thesis using False faithful_run [OF assms(1), of sp en] faithful_run [OF assms(1), of sp en1]
    by (auto simp: start_call_def)
qed

section \<open>The outcome of reconcile\<close>

text \<open>The listing agrees with the engine about \<open>n\<close>.\<close>

definition seen :: "('e \<Rightarrow> string \<Rightarrow> container option) \<Rightarrow> string \<Rightarrow> ('d, 'e) sup \<Rightarrow> bool" where
  "seen view n s \<longleftrightarrow> (case view (svEngine s) n of
       None \<Rightarrow> map_of (svObserved s) n = None \<and> map_of (svForeign s) n = None
     | Some c \<Rightarrow> cName c = n
         \<and> map_of (svObserved s) n = (if managed c then Some c else None)
         \<and> map_of (svForeign s) n = (if managed c then None else Some c))"

text \<open>
  Whether a container desired running is started now, by what is observed of it and its tracking:
  it does not exist, was created from another declaration, is to be restarted, or stopped and was
  started explicitly or not since the boot; but not while it has given up or backs off.
\<close>

definition held_back :: "time \<Rightarrow> tracking \<Rightarrow> bool" where
  "held_back now t \<longleftrightarrow> \<not> tForce t \<and> (tPhase t = PhaseFatal \<or> (tPhase t = PhaseBackoff \<and> now < tNextAttempt t))"

definition must_start :: "time \<Rightarrow> time \<Rightarrow> string \<Rightarrow> tracking \<Rightarrow> container option \<Rightarrow> bool" where
  "must_start booted now label t c \<longleftrightarrow> (case c of
       None \<Rightarrow> \<not> held_back now t
     | Some c \<Rightarrow> str_at (cLabels c) LabelSpec \<noteq> label
         \<or> (if running c then tRestart t
            else tForce t \<or> ((is_zero (cStartedAt c) \<or> cStartedAt c < booted) \<and> \<not> held_back now t)))"

lemma start_outcome:
  assumes "faithful (envEngine E) h view" "svSched s = []" "sDependsOn sp = []"
    "if ex then view (svEngine s) (sName sp) = Some c \<and> managed c \<and> cName c = sName sp \<and> str_at (cLabels c) LabelSpec = h sp
     else map_of (svForeign s) (sName sp) = None"
  shows "\<exists>c'. view (svEngine (snd (start E sp ex now s))) (sName sp) = Some c' \<and> runs_as (sName sp) (h sp) c'"
proof -
  obtain c' en' where "start_call (envEngine E) sp ex (svEngine s) = (None, en')" "runs_as (sName sp) (h sp) c'"
    "view en' = (view (svEngine s))(sName sp \<mapsto> c')"
    using faithful_start_call [OF assms(1), of ex "svEngine s" sp c] assms(4) by auto
  then show ?thesis using assms
    by (auto simp: start_def unready_def quiet_unlocked Let_def split: if_splits)
qed

lemma seen_Some:
  "seen view n s \<Longrightarrow> view (svEngine s) n = Some c \<Longrightarrow> managed c \<Longrightarrow>
     map_of (svObserved s) n = Some c \<and> map_of (svForeign s) n = None \<and> cName c = n"
  "seen view n s \<Longrightarrow> view (svEngine s) n = None \<Longrightarrow> map_of (svObserved s) n = None \<and> map_of (svForeign s) n = None"
  by (simp_all add: seen_def)

text \<open>A label that differs: the container is removed, and started anew when it is to run.\<close>

lemma reconcile_recreates:
  assumes "faithful (envEngine E) (envHash E) view" "svSched s = []" "seen view (sName (recSpec r)) s"
    "view (svEngine s) (sName (recSpec r)) = Some c" "managed c"
    "str_at (cLabels c) LabelSpec \<noteq> envHash E (normalized (recSpec r))"
  shows "recDesired r = Stopped \<Longrightarrow> view (svEngine (snd (reconcile E now r s))) (sName (recSpec r)) = None"
    "recDesired r = Running \<Longrightarrow> sDependsOn (recSpec r) = [] \<Longrightarrow>
       \<exists>c'. view (svEngine (snd (reconcile E now r s))) (sName (recSpec r)) = Some c'
         \<and> runs_as (sName (recSpec r)) (envHash E (normalized (recSpec r))) c'"
proof -
  let ?n = "sName (recSpec r)"
  note ob = seen_Some(1) [OF assms(3,4,5)]
  obtain en' where rm: "eRemove (envEngine E) ?n (svEngine s) = (None, en')"
    "view en' = (view (svEngine s))(?n := None)"
    using faithful_remove [OF assms(1)] by blast
  have q: "svSched (tr ?n s) = []" using assms(2) by simp
  let ?s1 = "(tr ?n s)\<lparr>svEngine := en'\<rparr>"
  let ?s2 = "?s1\<lparr>svObserved := mdel ?n (svObserved s)\<rparr>"
  have rc: "recreate E r (normalized (recSpec r)) (tr ?n s)
    = Inr (False, if recDesired r = Running \<and> \<not> tForce (get_t ?n ?s2) then set_t ?n forced ?s2 else ?s2)"
    using ob assms(6) rm by (simp add: recreate_def quiet_unlocked [OF q] Let_def)
  show "view (svEngine (snd (reconcile E now r s))) ?n = None" if "recDesired r = Stopped"
    using that rc rm(2) ob by (simp add: reconcile_def Let_def reconcile_stopped_def)
  show "\<exists>c'. view (svEngine (snd (reconcile E now r s))) ?n = Some c' \<and> runs_as ?n (envHash E (normalized (recSpec r))) c'"
    if "recDesired r = Running" "sDependsOn (recSpec r) = []"
  proof -
    define s3 where "s3 = upd_t ?n (\<lambda>t. t\<lparr>tRestart := False\<rparr>)
      (if recDesired r = Running \<and> \<not> tForce (get_t ?n ?s2) then set_t ?n forced ?s2 else ?s2)"
    have f: "tForce (get_t ?n s3)" "svSched s3 = []" "map_of (svForeign s3) ?n = None"
      using that(1) q ob by (auto simp: s3_def forced_def)
    have "reconcile E now r s = reconcile_idle E (normalized (recSpec r)) None now s3"
      using that(1) rc ob by (simp add: reconcile_def Let_def s3_def Running_def Stopped_def)
    then show ?thesis
      using f that(2) start_outcome [OF assms(1), of _ "normalized (recSpec r)" False] by (simp add: reconcile_idle_def Let_def)
  qed
qed

lemma recreate_matches:
  assumes "map_of (svObserved s) (sName (recSpec r)) = c" "c = None \<or> (\<exists>k. c = Some k
      \<and> str_at (cLabels k) LabelSpec = envHash E (normalized (recSpec r)))"
  shows "recreate E r (normalized (recSpec r)) (tr (sName (recSpec r)) s) = Inr (c \<noteq> None, tr (sName (recSpec r)) s)"
  using assms by (auto simp: recreate_def)

lemma reconcile_stops:
  assumes "faithful (envEngine E) (envHash E) view" "svSched s = []" "seen view (sName (recSpec r)) s"
    "recDesired r = Stopped" "\<And>c. view (svEngine s) (sName (recSpec r)) = Some c \<Longrightarrow> managed c"
    "view (svEngine (snd (reconcile E now r s))) (sName (recSpec r)) = Some c'"
  shows "\<not> running c'"
proof (cases "view (svEngine s) (sName (recSpec r))")
  case None
  note ob = seen_Some(2) [OF assms(3) None]
  have "view (svEngine (snd (reconcile E now r s))) (sName (recSpec r)) = None"
    using recreate_matches [of s r None E] ob None assms(4)
    by (simp add: reconcile_def Let_def reconcile_stopped_def)
  with assms(6) show ?thesis by simp
next
  case (Some c)
  note m = assms(5) [OF Some] and ob = seen_Some(1) [OF assms(3) Some assms(5) [OF Some]]
  have q: "svSched (tr (sName (recSpec r)) s) = []" using assms(2) by simp
  obtain c2 en' where st: "eStop (envEngine E) (sName (recSpec r)) (oStopTimeout (envOpts E)) (svEngine s) = (None, en')"
    "\<not> running c2" "view en' = (view (svEngine s))(sName (recSpec r) \<mapsto> c2)"
    using faithful_stop [OF assms(1) Some] by blast
  show ?thesis
  proof (cases "str_at (cLabels c) LabelSpec = envHash E (normalized (recSpec r))")
    case True
    show ?thesis
      using recreate_matches [of s r "Some c" E] ob st Some True assms(4,6)
      by (auto simp: reconcile_def Let_def reconcile_stopped_def quiet_unlocked [OF q] split: if_splits)
  next
    case False
    then show ?thesis using reconcile_recreates(1) [OF assms(1,2,3) Some m False assms(4)] assms(6) by simp
  qed
qed

text \<open>A container that runs as declared and is not to be restarted is not touched.\<close>

lemma reconcile_leaves:
  assumes "faithful (envEngine E) (envHash E) view" "svSched s = []" "seen view (sName (recSpec r)) s"
    "recDesired r = Running" "view (svEngine s) (sName (recSpec r)) = Some c"
    "runs_as (sName (recSpec r)) (envHash E (normalized (recSpec r))) c" "\<not> tRestart (get_t (sName (recSpec r)) s)"
  shows "view (svEngine (snd (reconcile E now r s))) (sName (recSpec r)) = Some c"
proof -
  have run: "managed c" "running c" "str_at (cLabels c) LabelSpec = envHash E (normalized (recSpec r))"
    using assms(6) by (simp_all add: runs_as_def)
  note ob = seen_Some(1) [OF assms(3,5) run(1)]
  define s2 where "s2 = upd_t (sName (recSpec r)) (\<lambda>t. t\<lparr>tRestart := False\<rparr>) (tr (sName (recSpec r)) s)"
  have "reconcile E now r s = reconcile_running E (normalized (recSpec r)) c now s2"
    using recreate_matches [of s r "Some c" E] ob run assms(4,7)
    by (simp add: reconcile_def Let_def Running_def Stopped_def s2_def)
  moreover have "svSched (upd_t m f (upd_t n g s2)) = []" "svEngine s2 = svEngine s" for m f n g
    using assms(2) by (simp_all add: s2_def)
  ultimately show ?thesis using assms(5) faithful_reads(1) [OF assms(1)]
    by (auto simp: reconcile_running_def health_sup_def quiet_unlocked Let_def split: option.split prod.split)
qed

text \<open>A container that must start runs as declared afterwards.\<close>

lemma reconcile_starts:
  assumes "faithful (envEngine E) (envHash E) view" "svSched s = []" "seen view (sName (recSpec r)) s"
    "recDesired r = Running" "sDependsOn (recSpec r) = []" "\<And>c. view (svEngine s) (sName (recSpec r)) = Some c \<Longrightarrow> managed c"
    "must_start (oBootTime (envOpts E)) now (envHash E (normalized (recSpec r))) (get_t (sName (recSpec r)) s)
       (view (svEngine s) (sName (recSpec r)))"
  shows "\<exists>c'. view (svEngine (snd (reconcile E now r s))) (sName (recSpec r)) = Some c'
     \<and> runs_as (sName (recSpec r)) (envHash E (normalized (recSpec r))) c'"
proof (cases "view (svEngine s) (sName (recSpec r))")
  case None
  note ob = seen_Some(2) [OF assms(3) None]
  define s2 where "s2 = upd_t (sName (recSpec r)) (\<lambda>t. t\<lparr>tRestart := False\<rparr>) (tr (sName (recSpec r)) s)"
  have "reconcile E now r s = reconcile_idle E (normalized (recSpec r)) None now s2"
    using recreate_matches [of s r None E] ob assms(4)
    by (simp add: reconcile_def Let_def Running_def Stopped_def s2_def)
  moreover have "svSched s2 = []" "svForeign s2 = svForeign s" "get_t (sName (recSpec r)) s2 = (get_t (sName (recSpec r)) s)\<lparr>tRestart := False\<rparr>"
    using assms(2) by (simp_all add: s2_def)
  moreover have "\<not> held_back now (get_t (sName (recSpec r)) s)"
    using assms(7) None by (simp add: must_start_def)
  ultimately show ?thesis
    using start_outcome [OF assms(1), of _ "normalized (recSpec r)" False] assms(5) ob
    by (auto simp: reconcile_idle_def Let_def held_back_def)
next
  case (Some c)
  note m = assms(6) [OF Some] and ob = seen_Some(1) [OF assms(3) Some assms(6) [OF Some]]
  have q: "svSched (tr (sName (recSpec r)) s) = []" using assms(2) by simp
  show ?thesis
  proof (cases "str_at (cLabels c) LabelSpec = envHash E (normalized (recSpec r))")
    case False
    then show ?thesis using reconcile_recreates(2) [OF assms(1,2,3) Some m False assms(4,5)] by blast
  next
    case match: True
    note rc = recreate_matches [of s r "Some c" E]
    show ?thesis
    proof (cases "running c")
      case True
      obtain c2 en' where st: "eStop (envEngine E) (sName (recSpec r)) (oStopTimeout (envOpts E)) (svEngine s) = (None, en')"
        "cLabels c2 = cLabels c" "cName c2 = cName c" "view en' = (view (svEngine s))(sName (recSpec r) \<mapsto> c2)"
        using faithful_stop [OF assms(1) Some] by blast
      have "tRestart (get_t (sName (recSpec r)) s)" using assms(7) Some True match by (simp add: must_start_def)
      then have "reconcile E now r s = start E (normalized (recSpec r)) True now
          (upd_t (sName (recSpec r)) (\<lambda>t. t\<lparr>tRestart := False\<rparr>) ((tr (sName (recSpec r)) s)\<lparr>svEngine := en'\<rparr>))"
        using rc ob True match st(1) assms(4)
        by (simp add: reconcile_def Let_def Running_def Stopped_def reconcile_restart_def quiet_unlocked [OF q])
      then show ?thesis
        using start_outcome [OF assms(1), of _ "normalized (recSpec r)" True c2] assms(2,5) ob st m match
        by (simp add: managed_def)
    next
      case False
      define s2 where "s2 = upd_t (sName (recSpec r)) (\<lambda>t. t\<lparr>tRestart := False\<rparr>) (tr (sName (recSpec r)) s)"
      have "reconcile E now r s = reconcile_idle E (normalized (recSpec r)) (Some c) now s2"
        using rc ob False match assms(4) by (simp add: reconcile_def Let_def Running_def Stopped_def s2_def)
      moreover have "svSched s2 = []" "svEngine s2 = svEngine s" "get_t (sName (recSpec r)) s2 = (get_t (sName (recSpec r)) s)\<lparr>tRestart := False\<rparr>"
        using assms(2) by (simp_all add: s2_def)
      ultimately show ?thesis
        using start_outcome [OF assms(1), of _ "normalized (recSpec r)" True c] assms(5,7) Some False match m ob
        by (auto simp: reconcile_idle_def Let_def must_start_def held_back_def)
    qed
  qed
qed

section \<open>Other containers\<close>

lemma faithful_start_apart:
  assumes "faithful En h view" "m \<noteq> sName sp"
  shows "view (snd (start_call En sp ex en)) m = view en m"
proof -
  obtain en1 where n: "eCreateNetwork En (sNetwork sp) (sProject sp) en = (None, en1)" "view en1 = view en"
    using faithful_network [OF assms(1)] by blast
  show ?thesis
    using n assms faithful_run [OF assms(1), of sp en] faithful_run [OF assms(1), of sp en1]
      faithful_reads(4) [OF assms] by (auto simp: start_call_def)
qed

lemma apart_steps:
  assumes "faithful (envEngine E) h view"
  shows "reconcile_steps E r (apart view (sName (recSpec r)) s0)"
proof unfold_locales
  fix s assume a: "apart view (sName (recSpec r)) s0 s"
  show "apart view (sName (recSpec r)) s0 (snd (unlocked E (sName (recSpec r)) (eRemove (envEngine E) (sName (recSpec r))) s))"
    using faithful_remove [OF assms, of "sName (recSpec r)" "svEngine s"] by (intro apart_call a) auto
qed (auto intro!: apart_call simp: faithful_start_apart [OF assms] faithful_reads [OF assms], auto simp: apart_def)

lemma reconcile_apart:
  assumes "faithful (envEngine E) h view" "svSched s = []"
  shows "apart view (sName (recSpec r)) s (snd (reconcile E now r s))"
  by (rule reconcile_steps.reconcile_kept [OF apart_steps [OF assms(1)]]) (simp add: apart_def assms(2))

lemma reconcile_foreign:
  assumes "svSched s = []" "seen view (sName (recSpec r)) s" "view (svEngine s) (sName (recSpec r)) = Some c" "\<not> managed c"
  shows "svEngine (snd (reconcile E now r s)) = svEngine s"
proof -
  have ob: "map_of (svObserved s) (sName (recSpec r)) = None" "map_of (svForeign s) (sName (recSpec r)) = Some c"
    using assms(2-4) by (simp_all add: seen_def)
  have st: "svEngine (snd (start E (normalized (recSpec r)) False now s')) = svEngine s'"
    if "svForeign s' = svForeign s" for s'
    using that ob(2) by (simp add: start_def)
  show ?thesis
    using recreate_matches [of s r None E] ob st
    by (simp add: reconcile_def Let_def reconcile_stopped_def reconcile_idle_def)
qed

section \<open>The whole pass\<close>

definition keyed :: "(string \<times> store_record) list \<Rightarrow> bool" where
  "keyed recs \<longleftrightarrow> distinct (map fst recs) \<and> (\<forall>(n, r) \<in> set recs. sName (recSpec r) = n)"

lemma keyed_name: "keyed recs \<Longrightarrow> map_of recs n = Some r \<Longrightarrow> sName (recSpec r) = n"
  by (auto simp: keyed_def dest!: map_of_SomeD)

text \<open>The listing of a quiet pass: \<open>w\<close> is what the engine listed.\<close>

lemma scan_one_quiet:
  assumes "faithful (envEngine E) h view" "svSched s = []"
  shows "svSched (scan_one E c s) = []" "svRecords (scan_one E c s) = svRecords s" "svTrack (scan_one E c s) = svTrack s"
    "map_of (svForeign (scan_one E c s)) = (if managed c then map_of (svForeign s) else (map_of (svForeign s))(cName c \<mapsto> c))"
    "map_of (svObserved (scan_one E c s)) = (if managed c \<and> has_key (svRecords s) (cName c)
       then (map_of (svObserved s))(cName c \<mapsto> c) else map_of (svObserved s))"
    "view (svEngine (scan_one E c s)) = (if managed c \<and> \<not> has_key (svRecords s) (cName c)
       then (view (svEngine s))(cName c := None) else view (svEngine s))"
  using assms(2) faithful_remove [OF assms(1), of "cName c" "svEngine s"]
  by (auto simp: scan_one_def quiet_unlocked)

lemma scan_quiet:
  assumes "faithful (envEngine E) h view" "svSched s = []" "distinct (map cName l)"
  defines "w \<equiv> map_of (map (\<lambda>c. (cName c, c)) l)" and "s' \<equiv> fold (scan_one E) l s"
  shows "svSched s' = [] \<and> svRecords s' = svRecords s \<and> svTrack s' = svTrack s
    \<and> (\<forall>n. map_of (svForeign s') n = (case w n of Some c \<Rightarrow> if managed c then map_of (svForeign s) n else Some c
              | None \<Rightarrow> map_of (svForeign s) n))
    \<and> (\<forall>n. map_of (svObserved s') n = (case w n of Some c \<Rightarrow> if managed c \<and> has_key (svRecords s) n then Some c
              else map_of (svObserved s) n | None \<Rightarrow> map_of (svObserved s) n))
    \<and> (\<forall>n. view (svEngine s') n = (case w n of Some c \<Rightarrow> if managed c \<and> \<not> has_key (svRecords s) n then None
              else view (svEngine s) n | None \<Rightarrow> view (svEngine s) n))"
  using assms(2,3) unfolding w_def s'_def
proof (induction l arbitrary: s)
  case (Cons c l)
  note one = scan_one_quiet [OF assms(1) Cons.prems(1), of c]
  have c: "map_of (map (\<lambda>c. (cName c, c)) l) (cName c) = None"
    using Cons.prems(2) by (auto simp: map_of_eq_None_iff)
  note ih = Cons.IH [OF one(1)]
  show ?case
    using ih Cons.prems(2) one c by (auto split: option.split)
qed simp

text \<open>\<open>sa\<close> is, about \<open>n\<close>, what \<open>s\<close> is.\<close>

definition agrees ::
  "('e \<Rightarrow> string \<Rightarrow> container option) \<Rightarrow> string \<Rightarrow> ('d, 'e) sup \<Rightarrow> ('d, 'e) sup \<Rightarrow> bool" where
  "agrees view n s sa \<longleftrightarrow> svSched sa = [] \<and> svRecords sa = svRecords s \<and> svForeign sa = svForeign s
     \<and> map_of (svTrack sa) n = map_of (svTrack s) n \<and> map_of (svObserved sa) n = map_of (svObserved s) n
     \<and> view (svEngine sa) n = view (svEngine s) n"

lemma agrees_refl: "svSched s = [] \<Longrightarrow> agrees view n s s"
  by (simp add: agrees_def)

lemma agrees_trans: "agrees view n s s' \<Longrightarrow> agrees view n s' s'' \<Longrightarrow> agrees view n s s''"
  by (simp add: agrees_def)

lemma agrees_seen: "agrees view n s sa \<Longrightarrow> seen view n sa = seen view n s"
  by (cases "view (svEngine s) n") (simp_all add: agrees_def seen_def)

lemma visit_agrees:
  assumes "faithful (envEngine E) h view" "svSched s = []" "keyed (svRecords s)" "n \<noteq> k"
  shows "agrees view n s (snd (visit E clk k (t, s)))"
proof (cases "map_of (svRecords s) k")
  case (Some r)
  then show ?thesis
    using reconcile_apart [OF assms(1,2), of r "clk k"] keyed_name [OF assms(3) Some] assms(4)
    by (auto simp: visit_def apart_def agrees_def split: prod.split)
qed (simp add: visit_def assms(2) agrees_refl)

lemma visit_all_agrees:
  assumes "faithful (envEngine E) h view" "svSched s = []" "keyed (svRecords s)" "n \<notin> set ks"
  shows "agrees view n s (snd (visit_all E clk ks (t, s)))"
  using assms(2-4)
proof (induction ks arbitrary: t s)
  case (Cons k ks)
  obtain t' s' where v: "visit E clk k (t, s) = (t', s')" by (metis surj_pair)
  have a: "agrees view n s s'"
    using visit_agrees [OF assms(1) Cons.prems(1,2), of n k clk t] Cons.prems(3) v by simp
  then have "agrees view n s' (snd (visit_all E clk ks (t', s')))"
    using Cons by (simp add: agrees_def)
  with a v show ?case by (metis agrees_trans fold_simps(2) visit_all_def)
qed (simp add: visit_all_def agrees_refl)

text \<open>The container \<open>n\<close> after all visits is what its own \<open>reconcile\<close> made of it.\<close>

lemma visit_all_at:
  assumes "faithful (envEngine E) h view" "svSched s = []" "keyed (svRecords s)"
    "distinct ks" "n \<in> set ks" "map_of (svRecords s) n = Some r"
  shows "\<exists>sa. agrees view n s sa \<and> view (svEngine (snd (visit_all E clk ks (t, s)))) n
       = view (svEngine (snd (reconcile E (clk n) r sa))) n"
proof -
  obtain xs ys where ks: "ks = xs @ n # ys" "n \<notin> set xs" "n \<notin> set ys"
    using assms(4,5) by (metis distinct.simps(2) distinct_append in_set_conv_decomp_first)
  obtain t1 sa where xs: "visit_all E clk xs (t, s) = (t1, sa)" by (metis surj_pair)
  have a: "agrees view n s sa"
    using visit_all_agrees [OF assms(1-3) ks(2), of clk t] xs by simp
  then have r: "map_of (svRecords sa) n = Some r" "keyed (svRecords sa)" "svSched sa = []"
    using assms by (simp_all add: agrees_def)
  let ?u = "visit E clk n (t1, sa)"
  obtain t2 s2 where u: "?u = (t2, s2)" by (metis surj_pair)
  then have s2: "s2 = snd (reconcile E (clk n) r sa)" using r by (auto simp: visit_def split: prod.splits)
  have "apart view n sa s2"
    using reconcile_apart [OF assms(1) r(3), of r "clk n"] keyed_name [OF r(2,1)] s2 by simp
  then have "agrees view n s2 (snd (visit_all E clk ys (t2, s2)))"
    using r by (intro visit_all_agrees [OF assms(1)] ks(3)) (simp_all add: apart_def)
  moreover have "visit_all E clk ks (t, s) = visit_all E clk ys (t2, s2)"
    using ks(1) xs u by (simp add: visit_all_def)
  ultimately show ?thesis using a s2 by (auto simp: agrees_def)
qed

lemma remove_networks_view:
  assumes "faithful En h view"
  shows "view (remove_networks_call En declared en) = view en"
proof -
  have "view (fold (\<lambda>n en. if List.member declared (nName n) then en else snd (eRemoveNetwork En (nName n) en)) nets en') = view en'"
    for nets :: "network list" and en' by (induction nets arbitrary: en') (simp_all add: faithful_reads(3) [OF assms])
  moreover have "view (snd (eNetworks En en)) = view en" by (rule faithful_reads(2) [OF assms])
  ultimately show ?thesis by (auto simp: remove_networks_call_def split: prod.split sum.split)
qed

text \<open>A quiet pass: the listing agrees with the engine, then every declared container is visited.\<close>

lemma pass_quiet:
  assumes "faithful (envEngine E) (envHash E) view" "svSched s = []" "keyed (svRecords s)"
  obtains s1 where "svSched s1 = []" "svRecords s1 = svRecords s" "svTrack s1 = svTrack s"
    "\<And>n. has_key (svRecords s) n \<Longrightarrow> (\<forall>c. view (svEngine s) n = Some c \<longrightarrow> cName c = n) \<Longrightarrow> seen view n s1"
    "\<And>n. view (svEngine s1) n = (case view (svEngine s) n of
        Some c \<Rightarrow> if managed c \<and> \<not> has_key (svRecords s) n then None else Some c | None \<Rightarrow> None)"
    "snd (pass E clk pub s) = publish pub (remove_networks E (snd (visit_all E clk (sorted_keys (svRecords s)) (0, s1))))"
    "\<And>n. view (svEngine (snd (pass E clk pub s))) n
       = view (svEngine (snd (visit_all E clk (sorted_keys (svRecords s)) (0, s1)))) n"
proof -
  obtain l en' where l: "eList (envEngine E) (svEngine s) = (Inr l, en')" "view en' = view (svEngine s)"
    "distinct (map cName l)" "map_of (map (\<lambda>c. (cName c, c)) l) = view (svEngine s)"
    using faithful_list [OF assms(1)] by blast
  let ?s0 = "s\<lparr>svEngine := en', svObserved := [], svForeign := []\<rparr>"
  let ?s1 = "fold (scan_one E) l ?s0"
  have i: "interfere E (s\<lparr>svEngine := en'\<rparr>) = s\<lparr>svEngine := en'\<rparr>" using assms(2) by (simp add: interfere_def)
  note sc = scan_quiet [OF assms(1) _ l(3), of ?s0, simplified, unfolded l(4)]
  let ?v = "visit_all E clk (sorted_keys (svRecords s)) (0, ?s1)"
  have p: "snd (pass E clk pub s) = publish pub (remove_networks E (snd ?v))"
    using l(1) i sc assms(2) by (cases ?v) (simp add: pass_def Let_def scan_def)
  show thesis
  proof
    show "view (svEngine (snd (pass E clk pub s))) n = view (svEngine (snd ?v)) n" for n
      by (simp add: p remove_networks_def remove_networks_view [OF assms(1)])
    show "snd (pass E clk pub s) = publish pub (remove_networks E (snd ?v))" by (rule p)
  qed (use sc assms(2) l(2) in \<open>auto simp: seen_def split: option.splits\<close>)
qed

lemma pass_visits:
  assumes "faithful (envEngine E) (envHash E) view" "svSched s = []" "keyed (svRecords s)"
    "map_of (svRecords s) n = Some r"
  obtains sa where "svSched sa = []" "seen view n sa" "get_t n sa = get_t n s" "view (svEngine sa) n = view (svEngine s) n"
    "view (svEngine (snd (pass E clk pub s))) n = view (svEngine (snd (reconcile E (clk n) r sa))) n"
proof (rule pass_quiet [OF assms(1-3), of clk pub])
  fix s1 assume s1: "svSched s1 = []" "svRecords s1 = svRecords s" "svTrack s1 = svTrack s"
    and all: "\<And>n. has_key (svRecords s) n \<Longrightarrow> (\<forall>c. view (svEngine s) n = Some c \<longrightarrow> cName c = n) \<Longrightarrow> seen view n s1"
      "\<And>n. view (svEngine s1) n = (case view (svEngine s) n of
        Some c \<Rightarrow> if managed c \<and> \<not> has_key (svRecords s) n then None else Some c | None \<Rightarrow> None)"
      "\<And>n. view (svEngine (snd (pass E clk pub s))) n
       = view (svEngine (snd (visit_all E clk (sorted_keys (svRecords s)) (0, s1)))) n"
  have "seen view n s1" using all(1) [of n] assms(4) faithful_named [OF assms(1)] by blast
  note s1 = s1 this all(2) [of n] all(3) [of n]
  have v: "view (svEngine s1) n = view (svEngine s) n" using s1(5) assms(4) by (simp split: option.split)
  have k: "distinct (sorted_keys (svRecords s))" "n \<in> set (sorted_keys (svRecords s))"
    using assms(3,4) by (auto simp: keyed_def dest: map_of_SomeD intro: rev_image_eqI)
  obtain sa where a: "agrees view n s1 sa" "view (svEngine (snd (visit_all E clk (sorted_keys (svRecords s)) (0, s1)))) n
       = view (svEngine (snd (reconcile E (clk n) r sa))) n"
    using visit_all_at [OF assms(1) s1(1) _ k, of r clk 0] s1(2) assms(3,4) by auto
  have "seen view n sa" using s1(4) agrees_seen [OF a(1)] by simp
  then show thesis using that [of sa] s1(1-3,6) v a by (simp add: agrees_def get_t_def)
qed

lemma pass_undeclared:
  assumes "faithful (envEngine E) (envHash E) view" "svSched s = []" "keyed (svRecords s)"
    "map_of (svRecords s) n = None"
  shows "view (svEngine (snd (pass E clk pub s))) n = (case view (svEngine s) n of
     Some c \<Rightarrow> if managed c then None else Some c | None \<Rightarrow> None)"
proof (rule pass_quiet [OF assms(1-3), of clk pub])
  fix s1 assume s1: "svSched s1 = []" "svRecords s1 = svRecords s"
    and all: "\<And>n. view (svEngine s1) n = (case view (svEngine s) n of
        Some c \<Rightarrow> if managed c \<and> \<not> has_key (svRecords s) n then None else Some c | None \<Rightarrow> None)"
      "\<And>n. view (svEngine (snd (pass E clk pub s))) n
       = view (svEngine (snd (visit_all E clk (sorted_keys (svRecords s)) (0, s1)))) n"
  have "n \<notin> set (sorted_keys (svRecords s))" using assms(4) by (simp add: map_of_eq_None_iff)
  then have "agrees view n s1 (snd (visit_all E clk (sorted_keys (svRecords s)) (0, s1)))"
    using s1 assms(3) by (intro visit_all_agrees [OF assms(1)]) simp_all
  then show ?thesis using all [of n] assms(4) by (simp add: agrees_def split: option.split)
qed

end
