(* ===== verification/Restarts.thy ===== *)
theory Restarts
  imports Converge
begin

text \<open>
  The restart policy: the gaps, what is decided of an exit, and the bound on the starts of a
  container that never reaches running.
\<close>

section \<open>Gaps\<close>

lemma secs_exact: "0 \<le> n \<Longrightarrow> n \<le> 9223372036 \<Longrightarrow> secs n = n * second"
  by (simp add: secs_def wrap64_id second_def max_int64_def min_int64_def)

lemma gap_exact:
  assumes "0 \<le> n" "n \<le> 9223372036"
  shows "gap n = min n BackoffMaxSeconds * second"
proof -
  have "wrap64 (n * BackoffSeconds) = n"
    using assms by (simp add: BackoffSeconds_def wrap64_id max_int64_def min_int64_def)
  then show ?thesis using secs_exact [OF assms]
    by (simp add: gap_def backoffMax_def BackoffMaxSeconds_def second_def min_def)
qed

section \<open>A container that never reaches running\<close>

abbreviation starts_of :: "('d, 'e \<times> call list) sup \<Rightarrow> nat" where
  "starts_of s \<equiv> length (filter starts (log_of s))"

text \<open>What \<open>start\<close> does to the tallies and to the log.\<close>

definition started :: "tracking \<Rightarrow> tracking \<Rightarrow> nat \<Rightarrow> bool" where
  "started t t' k \<longleftrightarrow>
     (k = 0 \<and> tPhase t' = PhaseWaiting \<and> tStartAttempts t' = tStartAttempts t \<and> tForce t' = tForce t)
     \<or> (k \<le> 1 \<and> \<not> tForce t' \<and> (tPhase t' = PhaseStarting \<and> tStartAttempts t' = tStartAttempts t
          \<or> tStartAttempts t' = tStartAttempts t + 1
            \<and> tPhase t' = (if tStartAttempts t + 1 > StartRetries then PhaseFatal else PhaseBackoff)))"

lemma get_t_frame [simp]: "get_t n (s\<lparr>svEngine := en\<rparr>) = get_t n s" "get_t n (s\<lparr>svObserved := ob\<rparr>) = get_t n s"
  by (simp_all add: get_t_def)

lemma start_failed_tally: "tStartAttempts (start_failed e now t) = tStartAttempts t + 1"
    "tPhase (start_failed e now t) = (if tStartAttempts t + 1 > StartRetries then PhaseFatal else PhaseBackoff)"
    "tForce (start_failed e now t) = tForce t" "tRestart (start_failed e now t) = tRestart t"
  by (simp_all add: start_failed_def Let_def)

lemma start_tally:
  assumes "svSched s = []"
  obtains k where "svSched (snd (start (logged E) sp ex now s)) = []"
    "starts_of (snd (start (logged E) sp ex now s)) = starts_of s + k"
    "started (get_t (sName sp) s) (get_t (sName sp) (snd (start (logged E) sp ex now s))) k"
    "tRestart (get_t (sName sp) (snd (start (logged E) sp ex now s))) = tRestart (get_t (sName sp) s)"
proof -
  let ?s = "snd (start (logged E) sp ex now s)"
  obtain err en' where c: "start_call (logging (envEngine E)) sp ex (svEngine s) = (err, en')" by (metis surj_pair)
  obtain cs where cs: "cs \<in> start_calls sp ex" "snd en' = log_of s @ cs"
    using start_call_log [of sp ex "envEngine E" "svEngine s"] c by auto
  then have l: "length (filter starts cs) \<le> 1" by (auto simp: start_calls_def split: if_splits)
  consider "\<not> ex \<and> map_of (svForeign s) (sName sp) \<noteq> None" | "ex \<or> map_of (svForeign s) (sName sp) = None" "unready s sp \<noteq> []"
    | "ex \<or> map_of (svForeign s) (sName sp) = None" "unready s sp = []" by blast
  then show thesis
  proof cases
    case 1
    then show ?thesis using assms by (intro that [of 0]) (auto simp: start_def started_def)
  next
    case 2
    then show ?thesis using assms by (intro that [of 0]) (auto simp: start_def started_def Let_def)
  next
    case 3
    then have "(if ex then None else map_of (svForeign s) (sName sp)) = None" by auto
    with 3(2) c cs(2) l assms show ?thesis
      by (intro that [of "length (filter starts cs)"])
         (cases err; simp add: start_def started_def Let_def quiet_unlocked start_failed_tally)+
  qed
qed

text \<open>
  One pass over a container declared as \<open>r\<close> that never reaches running: what is observed of it carries
  its label; it runs for less than the time that confirms a start; a container of a start that
  worked exists and was started in this boot; and nobody else starts one the supervisor gave up.
\<close>

definition in_run :: "tracking \<Rightarrow> bool" where
  "in_run t \<longleftrightarrow> tPhase t = PhaseStarting \<or> tPhase t = PhaseRunning \<or> tPhase t = PhaseExited"

definition never_ran :: "time \<Rightarrow> string \<Rightarrow> time \<Rightarrow> tracking \<Rightarrow> container option \<Rightarrow> bool" where
  "never_ran booted label now t c \<longleftrightarrow>
     (case c of
        None \<Rightarrow> \<not> in_run t
      | Some k \<Rightarrow> str_at (cLabels k) LabelSpec = label
          \<and> (if running k then now < cStartedAt k + startConfirm \<and> tPhase t \<noteq> PhaseFatal
             else time_sub (cExitedAt k) (cStartedAt k) < startConfirm
               \<and> ((is_zero (cStartedAt k) \<or> cStartedAt k < booted) \<longrightarrow> \<not> in_run t)))"

definition observing :: "string \<Rightarrow> container option \<Rightarrow> ('d, 'e) sup \<Rightarrow> ('d, 'e) sup" where
  "observing n c s = s\<lparr>svObserved := (case c of None \<Rightarrow> [] | Some k \<Rightarrow> [(n, k)])\<rparr>"

lemma observing_sel [simp]:
  "map_of (svObserved (observing n c s)) n = c" "svSched (observing n c s) = svSched s"
  "svEngine (observing n c s) = svEngine s" "get_t m (observing n c s) = get_t m s"
  by (simp_all add: observing_def get_t_def split: option.split)

inductive crashing ::
  "('d, 'e) env \<Rightarrow> store_record \<Rightarrow> ('d, 'e \<times> call list) sup \<Rightarrow> ('d, 'e \<times> call list) sup \<Rightarrow> bool"
  for E r s0 where
  begin_crashing: "crashing E r s0 s0"
| observe_crash: "crashing E r s0 s \<Longrightarrow>
    never_ran (oBootTime (envOpts E)) (envHash E (normalized (recSpec r))) now (get_t (sName (recSpec r)) s) c \<Longrightarrow>
    crashing E r s0 (snd (reconcile (logged E) now r (observing (sName (recSpec r)) c s)))"

text \<open>
  The invariant: each start is paid for by an attempt, but for the one in progress; a container that has
  not given up has made at most \<open>StartRetries\<close> attempts.
\<close>

definition paid :: "tracking \<Rightarrow> nat \<Rightarrow> bool" where
  "paid t k \<longleftrightarrow> \<not> tForce t \<and> \<not> tRestart t \<and> 0 \<le> tStartAttempts t
     \<and> int k \<le> tStartAttempts t + (if in_run t then 1 else 0)
     \<and> tStartAttempts t \<le> (if tPhase t = PhaseFatal then StartRetries + 1 else StartRetries)
     \<and> (tPhase t = PhaseNone \<or> tPhase t = PhaseStopped \<longrightarrow> k = 0)"

lemma paid_bound: "paid t k \<Longrightarrow> int k \<le> StartRetries + 1"
  by (auto simp: paid_def in_run_def split: if_splits)

lemma paid_cong:
  "tForce t' = tForce t \<Longrightarrow> tRestart t' = tRestart t \<Longrightarrow> tStartAttempts t' = tStartAttempts t \<Longrightarrow> tPhase t' = tPhase t
     \<Longrightarrow> paid t' k = paid t k"
  by (simp add: paid_def in_run_def)

lemma paid_started:
  assumes "paid t k" "started t t' j" "\<not> in_run t" "tPhase t \<noteq> PhaseFatal" "tRestart t' = tRestart t"
  shows "paid t' (k + j)"
  using assms by (auto simp: paid_def started_def in_run_def split: if_splits)

text \<open>What a step of the invariant is: \<open>k\<close> starts before it.\<close>

definition keeps_paid :: "string \<Rightarrow> nat \<Rightarrow> ('d, 'e \<times> call list) sup \<Rightarrow> ('d, 'e \<times> call list) sup \<Rightarrow> bool" where
  "keeps_paid n k s s' \<longleftrightarrow> svSched s' = []
     \<and> (\<exists>j. starts_of s' = starts_of s + j \<and> paid (get_t n s') (k + j))"

lemma start_paid:
  assumes "svSched s = []" "paid (get_t (sName sp) s) k" "\<not> in_run (get_t (sName sp) s)" "tPhase (get_t (sName sp) s) \<noteq> PhaseFatal"
    "log_of s = log_of s0"
  shows "keeps_paid (sName sp) k s0 (snd (start (logged E) sp ex now s))"
  by (rule start_tally [OF assms(1), of E sp ex now])
     (use paid_started [OF assms(2) _ assms(3,4)] assms(5) in \<open>auto simp: keeps_paid_def\<close>)

lemma same_paid:
  "svSched s = [] \<Longrightarrow> log_of s = log_of s0 \<Longrightarrow> paid (get_t n s) k \<Longrightarrow> keeps_paid n k s0 s"
  by (auto simp: keeps_paid_def intro: exI [of _ 0])

lemma exited_paid:
  assumes "svSched s = []" "paid (get_t (sName sp) s) k" "tPhase (get_t (sName sp) s) \<noteq> PhaseFatal"
    "time_sub (cExitedAt c) (cStartedAt c) < startConfirm" "log_of s = log_of s0"
  shows "keeps_paid (sName sp) k s0 (snd (exited (logged E) sp c now s))"
proof (cases "policy_restarts (sRestart sp) (cExitCode c)")
  case False
  have ran: "\<not> time_sub (cExitedAt c) (cStartedAt c) > backoffMax"
    using assms(4) by (simp add: startConfirm_def backoffMax_def StartSeconds_def BackoffMaxSeconds_def second_def)
  then show ?thesis
    using False assms by (auto simp: exited_def decide_exit_def Let_def paid_def in_run_def split: if_splits intro!: same_paid)
next
  case True
  have ran: "\<not> time_sub (cExitedAt c) (cStartedAt c) > backoffMax"
    using assms(4) by (simp add: startConfirm_def backoffMax_def StartSeconds_def BackoffMaxSeconds_def second_def)
  let ?t = "get_t (sName sp) s"
  show ?thesis
  proof (cases "tStartAttempts ?t + 1 > StartRetries")
    case give: True
    then show ?thesis using True ran assms
      by (auto simp: exited_def decide_exit_def Let_def paid_def in_run_def split: if_splits intro!: same_paid)
  next
    case False
    let ?s = "set_t (sName sp) (?t\<lparr>tHandledExit := cExitedAt c, tStartAttempts := tStartAttempts ?t + 1, tPhase := PhaseBackoff,
       tNextAttempt := now + gap (tStartAttempts ?t + 1)\<rparr>) s"
    have "paid (get_t (sName sp) ?s) k" using False assms(2,3) by (auto simp: paid_def in_run_def split: if_splits)
    then have "keeps_paid (sName sp) k s0 ?s" "keeps_paid (sName sp) k s0 (snd (start (logged E) sp True now ?s))"
      using assms(1,5) by (simp add: same_paid, intro start_paid) (simp_all add: in_run_def)
    then show ?thesis using True False ran assms(4)
      by (simp add: exited_def decide_exit_def Let_def)
  qed
qed

lemma idle_paid:
  assumes "svSched s = []" "paid (get_t (sName sp) s) k" "log_of s = log_of s0"
    "case c of None \<Rightarrow> \<not> in_run (get_t (sName sp) s)
     | Some c \<Rightarrow> time_sub (cExitedAt c) (cStartedAt c) < startConfirm
         \<and> ((is_zero (cStartedAt c) \<or> cStartedAt c < oBootTime (envOpts E)) \<longrightarrow> \<not> in_run (get_t (sName sp) s))"
  shows "keeps_paid (sName sp) k s0 (snd (reconcile_idle (logged E) sp c now s))"
proof -
  define s1 where "s1 = upd_t (sName sp) (\<lambda>t. t\<lparr>tHealth := HealthNone, tFailures := 0, tHealthRun := 0\<rparr>) s"
  let ?t = "get_t (sName sp) s1"
  have s1: "svSched s1 = []" "paid ?t k" "log_of s1 = log_of s0" "in_run ?t = in_run (get_t (sName sp) s)" "\<not> tForce ?t"
    using assms(1-3) by (simp_all add: s1_def paid_def in_run_def)
  note same = same_paid [OF s1(1,3,2)]
  have zero: "keeps_paid (sName sp) k s0 (snd (start (logged E) sp ex now (set_t (sName sp) zero_tracking s1)))"
    if "tPhase ?t = PhaseNone \<or> tPhase ?t = PhaseStopped" for ex
    using that s1 by (intro start_paid) (auto simp: paid_def in_run_def zero_tracking_def StartRetries_def)
  have st: "keeps_paid (sName sp) k s0 (snd (start (logged E) sp ex now s1))"
    if "\<not> in_run ?t" "tPhase ?t \<noteq> PhaseFatal" for ex
    by (rule start_paid [OF s1(1,2) that s1(3)])
  have ex: "keeps_paid (sName sp) k s0 (snd (exited (logged E) sp k' now s1))"
    if "tPhase ?t \<noteq> PhaseFatal" "time_sub (cExitedAt k') (cStartedAt k') < startConfirm" for k'
    by (rule exited_paid [OF s1(1,2) that s1(3)])
  have fresh: "keeps_paid (sName sp) k s0 (snd (if \<not> tForce ?t \<and> tPhase ?t = PhaseFatal then (0, s1)
      else if \<not> tForce ?t \<and> tPhase ?t = PhaseBackoff \<and> now < tNextAttempt ?t then (tNextAttempt ?t, s1)
      else start (logged E) sp (c \<noteq> None) now (if tForce ?t \<or> tPhase ?t = PhaseNone \<or> tPhase ?t = PhaseStopped
             then set_t (sName sp) zero_tracking s1 else s1)))" if "\<not> in_run ?t"
    using s1(5) same zero st [OF that] by auto
  show ?thesis
  proof (cases "c = None \<or> (\<exists>k'. c = Some k' \<and> (is_zero (cStartedAt k') \<or> cStartedAt k' < oBootTime (envOpts E)))")
    case True
    then have "\<not> in_run ?t" using assms(4) s1(4) by auto
    then show ?thesis using fresh True s1(5) unfolding reconcile_idle_def Let_def s1_def by auto
  next
    case False
    then obtain k' where k': "c = Some k'" "\<not> is_zero (cStartedAt k')" "\<not> cStartedAt k' < oBootTime (envOpts E)"
      "time_sub (cExitedAt k') (cStartedAt k') < startConfirm" using assms(4) by (cases c) auto
    have "\<not> in_run ?t" if "tPhase ?t = PhaseWaiting \<or> tPhase ?t = PhaseBackoff" using that by (auto simp: in_run_def)
    with k' show ?thesis using s1(5) same st [of True] ex [of k'] unfolding reconcile_idle_def Let_def s1_def
      by (auto simp del: get_set_t)
  qed
qed

lemma health_tally:
  "tForce (health_run c t) = tForce t" "tRestart (health_run c t) = tRestart t"
  "tStartAttempts (health_run c t) = tStartAttempts t" "tPhase (health_run c t) = tPhase t"
  "tForce (health_result h c now ok err t) = tForce t" "tRestart (health_result h c now ok err t) = tRestart t"
  "tStartAttempts (health_result h c now ok err t) = tStartAttempts t" "tPhase (health_result h c now ok err t) = tPhase t"
  by (simp_all add: health_run_def health_result_def Let_def split: option.split)

lemma health_paid:
  assumes "svSched s = []" "paid (get_t n s) k" "log_of s = log_of s0"
  shows "keeps_paid n k s0 (snd (health_sup (logged E) n h c now s))"
proof -
  have f: "get_t n (upd_t n f s) = f (get_t n s)" for f :: "tracking \<Rightarrow> tracking" by simp
  have p: "paid (health_run c (get_t n s)) k"
    "paid (health_result h c now ok err (health_run c (get_t n s))) k" for ok err
    using assms(2) by (simp_all add: paid_def in_run_def health_tally)
  show ?thesis
    using assms p by (auto simp: health_sup_def Let_def quiet_unlocked keeps_paid_def split: prod.split)
qed

lemma reconcile_paid:
  assumes "svSched s = []" "paid (get_t (sName (recSpec r)) s) k" "recDesired r = Running"
    "never_ran (oBootTime (envOpts E)) (envHash E (normalized (recSpec r))) now (get_t (sName (recSpec r)) s) c"
  shows "keeps_paid (sName (recSpec r)) k s (snd (reconcile (logged E) now r (observing (sName (recSpec r)) c s)))"
proof -
  let ?n = "sName (recSpec r)" and ?sp = "normalized (recSpec r)"
  define s2 where "s2 = upd_t ?n (\<lambda>t. t\<lparr>tRestart := False\<rparr>) (tr ?n (observing ?n c s))"
  have s2: "svSched s2 = []" "log_of s2 = log_of s" "get_t ?n s2 = get_t ?n s"
    using assms(1,2) by (simp_all add: s2_def paid_def)
  have rec: "reconcile (logged E) now r (observing ?n c s) = (case c of
       None \<Rightarrow> reconcile_idle (logged E) ?sp None now s2
     | Some k \<Rightarrow> if running k then reconcile_running (logged E) ?sp k now s2 else reconcile_idle (logged E) ?sp (Some k) now s2)"
  proof -
    have "recreate (logged E) r ?sp (tr ?n (observing ?n c s)) = Inr (c \<noteq> None, tr ?n (observing ?n c s))"
      using assms(4) by (intro recreate_matches) (auto simp: never_ran_def split: option.splits)
    then show ?thesis using assms(2,3)
      by (auto simp: reconcile_def Let_def Running_def Stopped_def paid_def s2_def split: option.split)
  qed
  show ?thesis
  proof (cases "\<exists>k. c = Some k \<and> running k")
    case True
    then obtain k' where k': "c = Some k'" "running k'" "now < cStartedAt k' + startConfirm" "tPhase (get_t ?n s) \<noteq> PhaseFatal"
      using assms(4) by (auto simp: never_ran_def)
    define s3 where "s3 = upd_t ?n (\<lambda>t. t\<lparr>tForce := False, tErr := [], tPhase := PhaseStarting\<rparr>) s2"
    have s3: "svSched s3 = []" "log_of s3 = log_of s" "paid (get_t ?n s3) k"
      using s2 assms(2) k'(4) by (auto simp: s3_def paid_def in_run_def split: if_splits)
    have "snd (reconcile_running (logged E) ?sp k' now s2)
        = (case sHealth ?sp of None \<Rightarrow> s3 | Some h \<Rightarrow> snd (health_sup (logged E) ?n h k' now s3))"
      using k'(3) by (simp add: reconcile_running_def Let_def s3_def split: option.split prod.split)
    then show ?thesis
      using rec k'(1,2) same_paid [OF s3(1,2,3)] health_paid [OF s3(1,3,2), of E _ k' now]
      by (simp split: option.split)
  next
    case False
    then have c: "case c of None \<Rightarrow> \<not> in_run (get_t ?n s2)
      | Some c \<Rightarrow> time_sub (cExitedAt c) (cStartedAt c) < startConfirm
          \<and> ((is_zero (cStartedAt c) \<or> cStartedAt c < oBootTime (envOpts (logged E))) \<longrightarrow> \<not> in_run (get_t ?n s2))"
      using assms(4) s2(3) by (auto simp: never_ran_def split: option.splits)
    have "reconcile (logged E) now r (observing ?n c s) = reconcile_idle (logged E) ?sp c now s2"
      using rec False by (auto split: option.split)
    then show ?thesis
      using idle_paid [where s = s2 and sp = ?sp and k = k and c = c and E = E and now = now] s2 assms(2) c
      unfolding normalized_sel logged_sel by simp
  qed
qed

lemma crashing_paid:
  assumes "crashing E r s0 s" "svSched s0 = []" "get_t (sName (recSpec r)) s0 = zero_tracking" "recDesired r = Running"
  shows "svSched s = [] \<and> (\<exists>k. starts_of s = starts_of s0 + k \<and> paid (get_t (sName (recSpec r)) s) k)"
  using assms(1)
proof induction
  case begin_crashing
  show ?case using assms(2,3) by (auto simp: paid_def zero_tracking_def StartRetries_def intro: exI [of _ 0])
next
  case (observe_crash s now c)
  then obtain k where k: "svSched s = []" "starts_of s = starts_of s0 + k" "paid (get_t (sName (recSpec r)) s) k" by blast
  from reconcile_paid [OF k(1,3) assms(4) observe_crash.hyps(2)] k(2)
  show ?case unfolding keeps_paid_def by (metis add.assoc)
qed

end
