(* ===== verification/Deadlines.thy ===== *)
theory Deadlines
  imports Restarts
begin

text \<open>
  Deadlines and health: what \<open>reconcile\<close> returns for a container that backs off, the earliest
  deadline a pass returns, and the verdict of a sequence of health checks.
\<close>

section \<open>Health checks\<close>

text \<open>The failures since the last pass that count: those after the start period.\<close>

definition counted :: "health \<Rightarrow> container \<Rightarrow> time \<Rightarrow> bool" where
  "counted h c now \<longleftrightarrow> \<not> time_sub now (cStartedAt c) < secs (hStartPeriodSeconds h)"

definition failures_since :: "health \<Rightarrow> container \<Rightarrow> (time \<times> bool) list \<Rightarrow> int" where
  "failures_since h c checks =
     fold (\<lambda>(now, ok) k. if ok then 0 else if counted h c now then k + 1 else k) checks 0"

definition after_checks ::
  "health \<Rightarrow> container \<Rightarrow> (time \<times> bool) list \<Rightarrow> tracking \<Rightarrow> tracking" where
  "after_checks h c checks t = fold (\<lambda>(now, ok) t. health_result h c now ok None t) checks t"

lemma after_checks_snoc:
  "after_checks h c (checks @ [(now, ok)]) t = health_result h c now ok None (after_checks h c checks t)"
  "failures_since h c (checks @ [(now, ok)])
     = (if ok then 0 else if counted h c now then failures_since h c checks + 1 else failures_since h c checks)"
  by (simp_all add: after_checks_def failures_since_def)

lemma health_result_sel:
  "tFailures (health_result h c now ok err t) =
     (if ok then 0 else if counted h c now then tFailures t + 1 else tFailures t)"
  "tHealth (health_result h c now ok err t) =
     (if ok then HealthHealthy
      else if counted h c now \<and> hRetries h \<le> tFailures t + 1 then HealthUnhealthy else tHealth t)"
  by (auto simp: health_result_def Let_def counted_def split: option.split)

lemma after_checks_verdict:
  assumes "1 \<le> hRetries h" "tHealth t = HealthStarting" "tFailures t = 0"
  shows "tFailures (after_checks h c checks t) = failures_since h c checks
    \<and> tHealth (after_checks h c checks t) =
        (if hRetries h \<le> failures_since h c checks then HealthUnhealthy
         else if list_ex snd checks then HealthHealthy else HealthStarting)"
proof (induction checks rule: rev_induct)
  case Nil
  then show ?case using assms by (simp add: after_checks_def failures_since_def)
next
  case (snoc x checks)
  obtain now ok where "x = (now, ok)" by fastforce
  then show ?case using snoc assms(1) by (auto simp: after_checks_snoc health_result_sel)
qed

section \<open>Deadlines\<close>

text \<open>Without interference a \<open>reconcile\<close> changes the tracking and the listing of its own container only.\<close>

definition beside :: "string \<Rightarrow> ('d, 'e) sup \<Rightarrow> ('d, 'e) sup \<Rightarrow> bool" where
  "beside n s0 s \<longleftrightarrow> svSched s = [] \<and> svRecords s = svRecords s0
     \<and> (\<forall>m. m \<noteq> n \<longrightarrow> map_of (svTrack s) m = map_of (svTrack s0) m
           \<and> map_of (svObserved s) m = map_of (svObserved s0) m)"

interpretation tracks: reconcile_steps E r "beside (sName (recSpec r)) s0" for E r s0
  by unfold_locales (auto simp: beside_def quiet_unlocked)

lemma reconcile_beside: "svSched s = [] \<Longrightarrow> beside (sName (recSpec r)) s (snd (reconcile E now r s))"
  by (rule tracks.reconcile_kept) (simp add: beside_def)

lemma start_deadline:
  assumes "svSched s = []" "tPhase (get_t (sName sp) (snd (start E sp ex now s))) = PhaseBackoff"
  shows "fst (start E sp ex now s) = tNextAttempt (get_t (sName sp) (snd (start E sp ex now s)))"
  using assms by (auto simp: start_def quiet_unlocked Let_def split: option.splits if_splits prod.splits)

lemma exited_deadline:
  assumes "svSched s = []" "tPhase (get_t (sName sp) (snd (exited E sp c now s))) = PhaseBackoff"
  shows "fst (exited E sp c now s) = tNextAttempt (get_t (sName sp) (snd (exited E sp c now s)))"
proof (cases "decide_exit (sRestart sp) c (get_t (sName sp) s)")
  case (Pair d t)
  have "tPhase t = PhaseExited \<or> tPhase t = PhaseFatal" if "d = Leave \<or> d = GiveUp"
    using Pair that by (auto simp: decide_exit_def Let_def split: if_splits)
  then show ?thesis using assms Pair start_deadline [of "set_t (sName sp) u s" sp E True now for u]
    by (cases d) (auto simp: exited_def Let_def split: if_splits)
qed

lemma idle_deadline:
  assumes "svSched s = []" "tPhase (get_t (sName sp) (snd (reconcile_idle E sp c now s))) = PhaseBackoff"
  shows "fst (reconcile_idle E sp c now s) = tNextAttempt (get_t (sName sp) (snd (reconcile_idle E sp c now s)))"
proof -
  define s1 where "s1 = upd_t (sName sp) (\<lambda>t. t\<lparr>tHealth := HealthNone, tFailures := 0, tHealthRun := 0\<rparr>) s"
  have q: "svSched s1 = []" "svSched (set_t (sName sp) zero_tracking s1) = []" using assms(1) by (simp_all add: s1_def)
  show ?thesis
    using assms(2) start_deadline [OF q(1)] start_deadline [OF q(2)] exited_deadline [OF q(1)]
    unfolding reconcile_idle_def Let_def s1_def [symmetric]
    by (auto split: option.splits if_splits)
qed

text \<open>A container that does not exist or does not run, and is of its declaration.\<close>

lemma reconcile_deadline:
  assumes "svSched s = []" "recDesired r = Running"
    "\<And>c. map_of (svObserved s) (sName (recSpec r)) = Some c \<Longrightarrow>
       \<not> running c \<and> str_at (cLabels c) LabelSpec = envHash E (normalized (recSpec r))"
    "tPhase (get_t (sName (recSpec r)) (snd (reconcile E now r s))) = PhaseBackoff"
  shows "fst (reconcile E now r s) = tNextAttempt (get_t (sName (recSpec r)) (snd (reconcile E now r s)))"
proof -
  let ?n = "sName (recSpec r)" and ?c = "map_of (svObserved s) (sName (recSpec r))"
  define s2 where "s2 = upd_t ?n (\<lambda>t. t\<lparr>tRestart := False\<rparr>) (tr ?n s)"
  have "reconcile E now r s = reconcile_idle E (normalized (recSpec r)) ?c now s2"
    using recreate_matches [of s r ?c E] assms(2,3)
    by (cases ?c) (simp_all add: reconcile_def Let_def Running_def Stopped_def s2_def)
  then show ?thesis using idle_deadline [of s2 "normalized (recSpec r)" E ?c now] assms(1,4) by (simp add: s2_def)
qed

section \<open>The deadline of a pass\<close>

lemma due_least: "(next \<noteq> 0 \<longrightarrow> due t next \<noteq> 0 \<and> due t next \<le> next) \<and> (t \<noteq> 0 \<longrightarrow> due t next \<noteq> 0 \<and> due t next \<le> t)"
  by (auto simp: due_def is_zero_def)

lemma scan_one_listed:
  assumes "svSched s = []"
  shows "svSched (scan_one E c s) = []" "svRecords (scan_one E c s) = svRecords s" "svTrack (scan_one E c s) = svTrack s"
    "map_of (svObserved (scan_one E c s)) n = Some k \<Longrightarrow> map_of (svObserved s) n = Some k \<or> (k = c \<and> cName c = n)"
  using assms by (auto simp: scan_one_def quiet_unlocked split: if_splits)

lemma scan_listed:
  assumes "svSched s = []"
  shows "svSched (fold (scan_one E) l s) = [] \<and> svRecords (fold (scan_one E) l s) = svRecords s
    \<and> svTrack (fold (scan_one E) l s) = svTrack s
    \<and> (\<forall>k. map_of (svObserved (fold (scan_one E) l s)) n = Some k \<longrightarrow>
          map_of (svObserved s) n = Some k \<or> (k \<in> set l \<and> cName k = n))"
  using assms
proof (induction l arbitrary: s)
  case (Cons c l)
  note one = scan_one_listed [where E = E and c = c, OF Cons.prems]
  note ih = Cons.IH [OF one(1)]
  show ?case using ih one(2,3) by (auto dest: one(4))
qed simp

lemma visit_beside:
  assumes "svSched s = []" "keyed (svRecords s)"
  shows "beside k s (snd (visit E clk k (t, s)))"
    "t \<noteq> 0 \<longrightarrow> fst (visit E clk k (t, s)) \<noteq> 0 \<and> fst (visit E clk k (t, s)) \<le> t"
proof -
  show "beside k s (snd (visit E clk k (t, s)))"
  proof (cases "map_of (svRecords s) k")
    case (Some r)
    then show ?thesis using reconcile_beside [OF assms(1), of r E "clk k"] keyed_name [OF assms(2) Some]
      by (auto simp: visit_def split: prod.split)
  qed (simp add: visit_def beside_def assms(1))
  show "t \<noteq> 0 \<longrightarrow> fst (visit E clk k (t, s)) \<noteq> 0 \<and> fst (visit E clk k (t, s)) \<le> t"
    using due_least by (auto simp: visit_def split: option.split prod.split)
qed

lemma visit_all_beside:
  assumes "svSched s = []" "keyed (svRecords s)" "n \<notin> set ks"
  shows "svSched (snd (visit_all E clk ks (t, s))) = [] \<and> svRecords (snd (visit_all E clk ks (t, s))) = svRecords s
    \<and> map_of (svTrack (snd (visit_all E clk ks (t, s)))) n = map_of (svTrack s) n
    \<and> map_of (svObserved (snd (visit_all E clk ks (t, s)))) n = map_of (svObserved s) n
    \<and> (t \<noteq> 0 \<longrightarrow> fst (visit_all E clk ks (t, s)) \<noteq> 0 \<and> fst (visit_all E clk ks (t, s)) \<le> t)"
  using assms
proof (induction ks arbitrary: t s)
  case (Cons k ks)
  obtain t' s' where v: "visit E clk k (t, s) = (t', s')" by (metis surj_pair)
  have b: "beside k s s'" "t \<noteq> 0 \<longrightarrow> t' \<noteq> 0 \<and> t' \<le> t" using visit_beside [OF Cons.prems(1,2), where k = k and E = E and clk = clk and t = t] v by auto
  then have "svSched s' = []" "keyed (svRecords s')" "n \<notin> set ks" using Cons.prems by (auto simp: beside_def)
  from Cons.IH [OF this, of t'] b Cons.prems(3) v show ?case
    by (auto simp: visit_all_def beside_def)
qed (simp add: visit_all_def)

lemma visit_all_quiet:
  "svSched s = [] \<Longrightarrow> keyed (svRecords s) \<Longrightarrow> svSched (snd (visit_all E clk ks (t, s))) = []"
proof (induction ks arbitrary: t s)
  case (Cons k ks)
  obtain t' s' where v: "visit E clk k (t, s) = (t', s')" by (metis surj_pair)
  have "beside k s s'" using visit_beside(1) [OF Cons.prems, where k = k and E = E and clk = clk and t = t] v by simp
  then show ?case using Cons.IH [of s' t'] Cons.prems v by (simp add: visit_all_def beside_def)
qed (simp add: visit_all_def)

lemma visit_all_deadline:
  assumes "svSched s = []" "keyed (svRecords s)" "distinct ks" "n \<in> set ks" "map_of (svRecords s) n = Some r"
    "recDesired r = Running" "\<And>c. map_of (svObserved s) n = Some c \<Longrightarrow>
       \<not> running c \<and> str_at (cLabels c) LabelSpec = envHash E (normalized (recSpec r))"
    "tPhase (get_t n (snd (visit_all E clk ks (t, s)))) = PhaseBackoff"
    "tNextAttempt (get_t n (snd (visit_all E clk ks (t, s)))) \<noteq> 0"
  shows "fst (visit_all E clk ks (t, s)) \<noteq> 0
    \<and> fst (visit_all E clk ks (t, s)) \<le> tNextAttempt (get_t n (snd (visit_all E clk ks (t, s))))"
proof -
  obtain xs ys where ks: "ks = xs @ n # ys" "n \<notin> set xs" "n \<notin> set ys"
    using assms(3,4) by (metis distinct.simps(2) distinct_append in_set_conv_decomp_first)
  obtain t1 sa where xs: "visit_all E clk xs (t, s) = (t1, sa)" by (metis surj_pair)
  have a: "svSched sa = []" "svRecords sa = svRecords s" "map_of (svObserved sa) n = map_of (svObserved s) n"
    using visit_all_beside [OF assms(1,2) ks(2), of E clk t] xs by auto
  have nm: "sName (recSpec r) = n" by (rule keyed_name [OF assms(2,5)])
  obtain d s2 where d: "reconcile E (clk n) r sa = (d, s2)" by (metis surj_pair)
  have v: "visit E clk n (t1, sa) = (due d t1, s2)" using a(2) assms(5) d by (simp add: visit_def)
  have b: "svSched s2 = []" "keyed (svRecords s2)"
    using reconcile_beside [OF a(1), of r E "clk n"] d a(2) assms(2) by (auto simp: beside_def)
  have all: "visit_all E clk ks (t, s) = visit_all E clk ys (due d t1, s2)"
    using ks(1) xs v by (simp add: visit_all_def)
  have same: "get_t n (snd (visit_all E clk ks (t, s))) = get_t n s2"
    and le: "due d t1 \<noteq> 0 \<longrightarrow> fst (visit_all E clk ks (t, s)) \<noteq> 0 \<and> fst (visit_all E clk ks (t, s)) \<le> due d t1"
    using visit_all_beside [OF b ks(3), of E clk "due d t1"] all by (auto simp: get_t_def)
  have "fst (reconcile E (clk n) r sa) = tNextAttempt (get_t (sName (recSpec r)) (snd (reconcile E (clk n) r sa)))"
    by (rule reconcile_deadline) (use a assms(6,7,8) nm same d in auto)
  then have "d = tNextAttempt (get_t n s2)" using d nm by simp
  then show ?thesis using le same assms(9) due_least [of t1 d] by force
qed

lemma pass_deadline:
  assumes "eList (envEngine E) (svEngine s) = (Inr listed, en)" "svSched s = []" "keyed (svRecords s)"
    "map_of (svRecords s) n = Some r" "recDesired r = Running"
    "\<And>c. c \<in> set listed \<Longrightarrow> cName c = n \<Longrightarrow> \<not> running c \<and> str_at (cLabels c) LabelSpec = envHash E (normalized (recSpec r))"
    "pass E clk pub s = (Inr next, s')" "tPhase (get_t n s') = PhaseBackoff" "tNextAttempt (get_t n s') \<noteq> 0"
  shows "next \<noteq> 0 \<and> next \<le> tNextAttempt (get_t n s')"
proof -
  have i: "interfere E (s\<lparr>svEngine := en\<rparr>) = s\<lparr>svEngine := en\<rparr>" using assms(2) by (simp add: interfere_def)
  let ?s1 = "fold (scan_one E) listed (s\<lparr>svEngine := en, svObserved := [], svForeign := []\<rparr>)"
  have s1: "svSched ?s1 = []" "svRecords ?s1 = svRecords s"
    "\<And>k. map_of (svObserved ?s1) n = Some k \<Longrightarrow> k \<in> set listed \<and> cName k = n"
    using scan_listed [of "s\<lparr>svEngine := en, svObserved := [], svForeign := []\<rparr>" E listed n] assms(2) by auto
  obtain t s2 where v: "visit_all E clk (sorted_keys (svRecords s)) (0, ?s1) = (t, s2)" by (metis surj_pair)
  have p: "next = t" "s' = publish pub (remove_networks E s2)"
    using assms(1,7) i v s1(2) by (simp_all add: pass_def Let_def scan_def)
  have k: "distinct (sorted_keys (svRecords s))" "n \<in> set (sorted_keys (svRecords s))"
    using assms(3,4) by (auto simp: keyed_def dest: map_of_SomeD intro: rev_image_eqI)
  have "svSched s2 = []" using visit_all_quiet [OF s1(1), of E clk "sorted_keys (svRecords s)" 0] v s1(2) assms(3) by simp
  then have g: "get_t n s' = get_t n s2" by (simp add: p(2) get_t_def remove_networks_def interfere_def)
  show ?thesis
    using visit_all_deadline [OF s1(1) _ k, of r E clk 0] v s1 assms(3-6,8,9) g p(1) by auto
qed

end
