(* ===== verification/Declarations.thy ===== *)
theory Declarations
  imports Interleaving
begin

text \<open>
  What the API calls do to the declarations. The abstract state is what is declared: the records and the
  projects, as functions of the name. Each call that succeeds does to it what its abstract
  operation says.
\<close>

section \<open>Abstract operations\<close>

type_synonym decls = "(string \<Rightarrow> store_record option) \<times> (string \<Rightarrow> project option)"

definition decls_of :: "('d, 'e) sup \<Rightarrow> decls" where
  "decls_of s = (map_of (svRecords s), map_of (svProjects s))"

definition spec_of :: "spec list \<Rightarrow> string \<Rightarrow> spec option" where
  "spec_of specs n = map_of (map (\<lambda>sp. (sName sp, sp)) specs) n"

text \<open>A container declared anew is desired running; one declared before keeps its desired state.\<close>

definition redeclared :: "store_record option \<Rightarrow> spec \<Rightarrow> store_record" where
  "redeclared old sp = \<lparr>recSpec = sp, recDesired = (case old of None \<Rightarrow> Running | Some r \<Rightarrow> recDesired r)\<rparr>"

definition of_project :: "string \<Rightarrow> store_record \<Rightarrow> bool" where
  "of_project name r \<longleftrightarrow> sProject (recSpec r) = name"

text \<open>A project's declaration: its containers are those of \<open>specs\<close>, the others are as they were.\<close>

definition abs_declare :: "string \<Rightarrow> project \<Rightarrow> spec list \<Rightarrow> decls \<Rightarrow> decls" where
  "abs_declare name p specs D =
     (\<lambda>n. case spec_of specs n of
        Some sp \<Rightarrow> Some (redeclared (fst D n) sp)
      | None \<Rightarrow> (case fst D n of Some r \<Rightarrow> if of_project name r then None else Some r | None \<Rightarrow> None),
      (snd D)(name \<mapsto> p))"

definition abs_delete_project :: "string \<Rightarrow> decls \<Rightarrow> decls" where
  "abs_delete_project name D =
     (\<lambda>n. case fst D n of Some r \<Rightarrow> if of_project name r then None else Some r | None \<Rightarrow> None,
      (snd D)(name := None))"

definition abs_desire :: "string \<Rightarrow> string \<Rightarrow> decls \<Rightarrow> decls" where
  "abs_desire name d D = ((fst D)(name := map_option (\<lambda>r. r\<lparr>recDesired := d\<rparr>) (fst D name)), snd D)"

section \<open>The operations under the mutex\<close>

lemma touch_decls [simp]: "decls_of (touch n s) = decls_of s" "svRecords (touch n s) = svRecords s"
  "svProjects (touch n s) = svProjects s" "svStore (touch n s) = svStore s"
  by (simp_all add: decls_of_def touch_def poke_def Let_def)

lemma set_t_decls [simp]: "svProjects (set_t n t s) = svProjects s" "svRecords (set_t n t s) = svRecords s"
  "svStore (set_t n t s) = svStore s"
  by (simp_all add: set_t_def)

lemma put_done:
  assumes "put E sp s = (None, s')"
  shows "map_of (svRecords s') = (map_of (svRecords s))(sName sp \<mapsto> redeclared (map_of (svRecords s) (sName sp)) sp)"
    "svProjects s' = svProjects s"
  using assms by (auto simp: put_def Let_def redeclared_def split: prod.splits option.splits)

lemma delete_done:
  assumes "delete E n s = (None, s')"
  shows "map_of (svRecords s') = (map_of (svRecords s))(n := None)" "svProjects s' = svProjects s"
  using assms by (auto simp: delete_def split: prod.splits option.splits)

lemma store_project_done:
  assumes "store_project E n p s = (None, s')"
  shows "svRecords s' = svRecords s" "map_of (svProjects s') = (map_of (svProjects s))(n \<mapsto> p)"
  using assms by (auto simp: store_project_def split: prod.splits option.splits)

lemma drop_project_done:
  assumes "drop_project E n s = (None, s')"
  shows "svRecords s' = svRecords s" "map_of (svProjects s') = (map_of (svProjects s))(n := None)"
  using assms by (auto simp: drop_project_def split: prod.splits option.splits)

text \<open>The loop of \<open>put\<close>: a name of \<open>specs\<close> has its last spec, and keeps the state it had before the loop.\<close>

lemma puts_done:
  assumes "foreach (put E) specs s = (None, s')"
  shows "svProjects s' = svProjects s
    \<and> map_of (svRecords s') n = (case spec_of (rev specs) n of
        Some sp \<Rightarrow> Some (redeclared (map_of (svRecords s) n) sp) | None \<Rightarrow> map_of (svRecords s) n)"
  using assms
proof (induction specs arbitrary: s)
  case Nil
  then show ?case by (simp add: spec_of_def)
next
  case (Cons sp specs)
  then obtain s1 where 1: "put E sp s = (None, s1)" "foreach (put E) specs s1 = (None, s')"
    by (auto simp: and_then_None)
  from Cons.IH [OF 1(2)] put_done [OF 1(1)] show ?case
    by (auto simp: spec_of_def redeclared_def map_add_def split: option.splits)
qed

text \<open>The loop over the records deletes those that \<open>gone\<close> names.\<close>

lemma delete_loop_done:
  assumes "foreach (\<lambda>(n, r) s. if gone n r then delete E n s else (None, s)) recs s = (None, s')"
  shows "svProjects s' = svProjects s
    \<and> map_of (svRecords s') m = (if \<exists>r. (m, r) \<in> set recs \<and> gone m r then None else map_of (svRecords s) m)"
  using assms
proof (induction recs arbitrary: s)
  case (Cons nr recs)
  obtain n r where nr: "nr = (n, r)" by fastforce
  from Cons.prems obtain s1 where 1: "(if gone n r then delete E n s else (None, s)) = (None, s1)"
    "foreach (\<lambda>(n, r) s. if gone n r then delete E n s else (None, s)) recs s1 = (None, s')"
    by (auto simp: and_then_None nr split: prod.splits)
  have "svProjects s1 = svProjects s" "map_of (svRecords s1) = (if gone n r then (map_of (svRecords s))(n := None) else map_of (svRecords s))"
    using 1(1) delete_done by (auto split: if_splits)
  with Cons.IH [OF 1(2)] show ?case by (auto simp: nr)
qed simp

lemma delete_where_done:
  assumes "delete_where E gone s = (None, s')" "distinct (map fst (svRecords s))"
  shows "svProjects s' = svProjects s"
    "map_of (svRecords s') m = (case map_of (svRecords s) m of Some r \<Rightarrow> if gone m r then None else Some r | None \<Rightarrow> None)"
  using delete_loop_done [OF assms(1) [unfolded delete_where_def], of m] assms(2)
  by (auto split: option.split) (metis map_of_eq_Some_iff option.inject map_of_SomeD)+

text \<open>The keys of the records stay distinct.\<close>

definition distinct_recs :: "('d, 'e) sup \<Rightarrow> bool" where
  "distinct_recs s \<longleftrightarrow> distinct (map fst (svRecords s))"

lemma put_distinct: "distinct_recs s \<Longrightarrow> distinct_recs (snd (put E sp s))"
  by (auto simp: put_def Let_def distinct_recs_def distinct_mput split: prod.split option.split)

lemma delete_distinct: "distinct_recs s \<Longrightarrow> distinct_recs (snd (delete E n s))"
  by (auto simp: delete_def distinct_recs_def distinct_mdel split: prod.split option.split)

lemma store_distinct: "distinct_recs s \<Longrightarrow> distinct_recs (snd (store_project E n p s))"
  "distinct_recs s \<Longrightarrow> distinct_recs (snd (drop_project E n s))"
  by (auto simp: store_project_def drop_project_def distinct_recs_def split: prod.split option.split)

lemma loops_distinct:
  "distinct_recs s \<Longrightarrow> distinct_recs (snd (foreach (put E) specs s))"
  "distinct_recs s \<Longrightarrow> distinct_recs (snd (delete_where E gone s))"
  unfolding delete_where_def by (rule foreach_inv; auto simp: put_distinct delete_distinct)+

lemma declare_distinct: "distinct_recs s \<Longrightarrow> distinct_recs (snd (declare_project E n p specs s))"
  unfolding declare_project_def
  by (rule and_then_inv [where P = distinct_recs], erule store_distinct,
      rule and_then_inv [where P = distinct_recs], erule loops_distinct, erule loops_distinct)

lemma spec_of_rev: "distinct (map sName specs) \<Longrightarrow> spec_of (rev specs) = spec_of specs"
proof -
  assume d: "distinct (map sName specs)"
  have "map fst (map (\<lambda>sp. (sName sp, sp)) xs) = map sName xs" for xs by (induction xs) auto
  then have "map_of (map (\<lambda>sp. (sName sp, sp)) (rev specs)) = map_of (map (\<lambda>sp. (sName sp, sp)) specs)"
    using d by (intro iffD2 [OF map_of_inject_set]) (simp_all add: comp_def rev_map [symmetric])
  then show "spec_of (rev specs) = spec_of specs" by (simp add: spec_of_def fun_eq_iff)
qed

lemma spec_of_None: "spec_of specs n = None \<longleftrightarrow> n \<notin> set (map sName specs)"
  by (auto simp: spec_of_def map_of_eq_None_iff image_image)

lemma declare_done:
  assumes "declare_project E name p specs s = (None, s')" "distinct_recs s" "distinct (map sName specs)"
  shows "decls_of s' = abs_declare name p specs (decls_of s)"
proof -
  obtain s1 s2 where 1: "store_project E name p s = (None, s1)" and 2: "foreach (put E) specs s1 = (None, s2)"
    and 3: "delete_where E (\<lambda>n r. sProject (recSpec r) = name \<and> n \<notin> set (map sName specs)) s2 = (None, s')"
    using assms(1) by (auto simp: declare_project_def and_then_None)
  have d: "distinct (map fst (svRecords s2))"
    using loops_distinct(1) [of s1 E specs] store_distinct(1) [OF assms(2), of E name p] 1 2 by (simp add: distinct_recs_def)
  note s1 = store_project_done [OF 1] and s2 = puts_done [OF 2] and s3 = delete_where_done [OF 3 d]
  have "map_of (svRecords s') n = fst (abs_declare name p specs (decls_of s)) n" for n
    using s1 s2 [of n] s3(2) [of n] spec_of_None [of specs n] spec_of_rev [OF assms(3)]
    by (auto simp: abs_declare_def decls_of_def of_project_def split: option.splits)
  moreover have "map_of (svProjects s') = snd (abs_declare name p specs (decls_of s))"
    using s1 s2 s3(1) by (simp add: abs_declare_def decls_of_def)
  ultimately show ?thesis by (simp add: decls_of_def prod_eq_iff fun_eq_iff)
qed

lemma unmanaged_done: "unmanaged E specs s = (err, s1) \<Longrightarrow> \<exists>en. s1 = s\<lparr>svEngine := en\<rparr>"
  by (auto simp: unmanaged_def split: prod.splits sum.splits)

lemma decls_engine [simp]: "decls_of (s\<lparr>svEngine := en\<rparr>) = decls_of s" "distinct_recs (s\<lparr>svEngine := en\<rparr>) = distinct_recs s"
  by (simp_all add: decls_of_def distinct_recs_def)

section \<open>Deleting a project\<close>

lemma delete_project_done:
  assumes "delete_project E name s = (None, s')" "distinct_recs s"
  shows "decls_of s' = abs_delete_project name (decls_of s)"
proof -
  obtain s1 where 1: "delete_where E (\<lambda>n r. sProject (recSpec r) = name) s = (None, s1)" and 2: "drop_project E name s1 = (None, s')"
    using assms(1) by (auto simp: delete_project_def Let_def and_then_None split: if_splits)
  note s1 = delete_where_done [OF 1 assms(2) [unfolded distinct_recs_def]] and s2 = drop_project_done [OF 2]
  show ?thesis using s1 s2 by (auto simp: decls_of_def abs_delete_project_def of_project_def fun_eq_iff split: option.split)
qed

lemma set_desired_done:
  assumes "set_desired E name d s = (None, s')"
  shows "decls_of s' = abs_desire name d (decls_of s)"
  using assms
  by (auto simp: set_desired_def Let_def abs_desire_def decls_of_def and_then_def fun_eq_iff split: option.splits prod.splits if_splits)

section \<open>Declaring a set of projects\<close>

text \<open>Who owns a name in a loaded set: the project and the spec.\<close>

definition owned :: "(string \<times> spec list) list \<Rightarrow> string \<Rightarrow> (string \<times> spec) option" where
  "owned loaded n = map_of (concat (map (\<lambda>(p, specs). map (\<lambda>sp. (sName sp, (p, sp))) specs) loaded)) n"

definition loaded_ok :: "(string \<times> spec list) list \<Rightarrow> bool" where
  "loaded_ok loaded \<longleftrightarrow> distinct (map fst loaded) \<and> distinct (map sName (concat (map snd loaded)))
     \<and> (\<forall>(p, specs) \<in> set loaded. p \<noteq> [] \<and> (\<forall>sp \<in> set specs. sProject sp = p))"

text \<open>
  Exactly the loaded containers are declared; one that this project had declared before keeps its
  desired state. Exactly the projects of \<open>files\<close> are.
\<close>

definition abs_declare_all :: "(string \<times> project) list \<Rightarrow> (string \<times> spec list) list \<Rightarrow> decls \<Rightarrow> decls" where
  "abs_declare_all files loaded D =
     (\<lambda>n. case owned loaded n of
        None \<Rightarrow> None
      | Some (p, sp) \<Rightarrow> Some (redeclared (case fst D n of Some r \<Rightarrow> if of_project p r then Some r else None | None \<Rightarrow> None) sp),
      map_of files)"

lemma owned_Nil [simp]: "owned [] n = None"
  by (simp add: owned_def)

lemma owned_Cons: "owned ((p, specs) # loaded) n =
    (case spec_of specs n of Some sp \<Rightarrow> Some (p, sp) | None \<Rightarrow> owned loaded n)"
proof -
  have "map_of (map (\<lambda>sp. (sName sp, (p, sp))) specs) n = map_option (Pair p) (spec_of specs n)"
    by (induction specs) (auto simp: spec_of_def)
  then show ?thesis by (auto simp: owned_def map_add_def split: option.split)
qed

lemma owned_None: "owned loaded m = None \<longleftrightarrow> m \<notin> set (map sName (concat (map snd loaded)))"
proof (induction loaded)
  case (Cons x loaded)
  obtain p specs where x: "x = (p, specs)" by fastforce
  have "owned (x # loaded) m = None \<longleftrightarrow> spec_of specs m = None \<and> owned loaded m = None"
    by (simp add: x owned_Cons split: option.split)
  then show ?case using Cons by (simp add: x spec_of_None)
qed simp

lemma owned_in: "owned loaded m = Some (q, sp) \<Longrightarrow> \<exists>specs. (q, specs) \<in> set loaded \<and> sp \<in> set specs \<and> sName sp = m"
proof (induction loaded)
  case (Cons x loaded)
  obtain p specs where x: "x = (p, specs)" by fastforce
  show ?case
  proof (cases "spec_of specs m")
    case None
    then show ?thesis using Cons x by (auto simp: owned_Cons)
  next
    case (Some sp')
    then have "sp' \<in> set specs" "sName sp' = m" by (auto simp: spec_of_def dest!: map_of_SomeD)
    then show ?thesis using Cons.prems x Some by (auto simp: owned_Cons)
  qed
qed simp

lemma fold_mput: "map_of (fold (\<lambda>(k, v) m. mput k v m) xs m) k = (case map_of (rev xs) k of None \<Rightarrow> map_of m k | Some v \<Rightarrow> Some v)"
  by (induction xs arbitrary: m) (auto simp: map_add_def split: option.split)

lemma owners_fold: "owners_of loaded = fold (\<lambda>(k, v) m. mput k v m)
    (concat (map (\<lambda>(p, specs). map (\<lambda>sp. (sName sp, p)) specs) loaded)) []"
proof -
  have one: "fold (\<lambda>sp m. mput (sName sp) p m) specs m = fold (\<lambda>(k, v) m. mput k v m) (map (\<lambda>sp. (sName sp, p)) specs) m"
    for p specs and m :: "(string \<times> string) list" by (induction specs arbitrary: m) auto
  have "fold (\<lambda>(n, specs) m. fold (\<lambda>sp m. mput (sName sp) n m) specs m) loaded m
      = fold (\<lambda>(k, v) m. mput k v m) (concat (map (\<lambda>(p, specs). map (\<lambda>sp. (sName sp, p)) specs) loaded)) m" for m
    by (induction loaded arbitrary: m) (simp_all add: one split: prod.split)
  then show ?thesis by (simp add: owners_of_def)
qed

lemma owners_keys: "map fst (concat (map (\<lambda>(p, specs). map (\<lambda>sp. (sName sp, p)) specs) loaded))
    = map sName (concat (map snd loaded))"
  by (induction loaded) (auto simp: comp_def)

lemma owners_owned:
  assumes "loaded_ok loaded"
  shows "map_of (owners_of loaded) n = map_option fst (owned loaded n)"
proof -
  let ?xs = "concat (map (\<lambda>(p, specs). map (\<lambda>sp. (sName sp, p)) specs) loaded)"
  have d: "distinct (map fst ?xs)" using assms unfolding owners_keys by (simp add: loaded_ok_def)
  then have "map_of (rev ?xs) = map_of ?xs"
    by (intro iffD2 [OF map_of_inject_set]) (simp_all add: rev_map [symmetric])
  then have "map_of (owners_of loaded) n = map_of ?xs n"
    by (simp add: owners_fold fold_mput split: option.split)
  also have "map_of ?xs n = map_option fst (owned loaded n)"
  proof (induction loaded)
    case (Cons x loaded)
    obtain p specs where x: "x = (p, specs)" by fastforce
    have "map_of (map (\<lambda>sp. (sName sp, p)) specs) n = map_option (\<lambda>_. p) (spec_of specs n)"
      by (induction specs) (auto simp: spec_of_def)
    then show ?case using Cons by (auto simp: x owned_Cons map_add_def split: option.split)
  qed simp
  finally show ?thesis .
qed

text \<open>The last loop of \<open>PutProjects\<close>, abstractly.\<close>

definition file_of :: "(string \<times> project) list \<Rightarrow> string \<Rightarrow> project" where
  "file_of files n = (case map_of files n of Some p \<Rightarrow> p | None \<Rightarrow> \<lparr>prjCompose = [], prjDir = []\<rparr>)"

lemma declares_done:
  assumes "foreach (\<lambda>(n, specs) s. declare_project E n (file_of files n) specs s) loaded s = (None, s')"
    "distinct_recs s" "\<forall>(p, specs) \<in> set loaded. distinct (map sName specs)"
  shows "decls_of s' = fold (\<lambda>(n, specs). abs_declare n (file_of files n) specs) loaded (decls_of s)"
  using assms
proof (induction loaded arbitrary: s)
  case (Cons x loaded)
  obtain p specs where x: "x = (p, specs)" by fastforce
  obtain s1 where 1: "declare_project E p (file_of files p) specs s = (None, s1)"
    "foreach (\<lambda>(n, specs) s. declare_project E n (file_of files n) specs s) loaded s1 = (None, s')"
    using Cons.prems(1) by (auto simp: x and_then_None)
  have "distinct_recs s1" using declare_distinct [OF Cons.prems(2), of E p "file_of files p" specs] 1(1) by simp
  then show ?case
    using Cons.IH [OF 1(2)] Cons.prems(2,3) declare_done [OF 1(1)] by (simp add: x)
qed simp

definition before :: "string \<Rightarrow> (string \<times> spec list) list \<Rightarrow> string set" where
  "before p loaded = fst ` set (takeWhile (\<lambda>x. fst x \<noteq> p) loaded)"

lemma before_Cons [simp]: "before p (x # loaded) = (if fst x = p then {} else insert (fst x) (before p loaded))"
  by (cases "fst x = p") (simp_all add: before_def)

lemma abs_declares_fst:
  assumes "loaded_ok loaded"
  shows "fst (fold (\<lambda>(n, specs). abs_declare n (g n) specs) loaded D) m = (case owned loaded m of
     Some (p, sp) \<Rightarrow> Some (redeclared (case fst D m of
         Some r \<Rightarrow> if sProject (recSpec r) \<noteq> p \<and> sProject (recSpec r) \<in> before p loaded then None else Some r
       | None \<Rightarrow> None) sp)
   | None \<Rightarrow> (case fst D m of Some r \<Rightarrow> if sProject (recSpec r) \<in> fst ` set loaded then None else Some r | None \<Rightarrow> None))"
  using assms
proof (induction loaded arbitrary: D)
  case Nil
  then show ?case by (cases "fst D m") simp_all
next
  case (Cons x loaded)
  obtain p specs where x: "x = (p, specs)" by (metis surj_pair)
  have ok: "loaded_ok loaded" "p \<notin> fst ` set loaded" "\<And>sp. sp \<in> set specs \<Longrightarrow> sProject sp = p"
    using Cons.prems by (auto simp: loaded_ok_def x)
  have own: "owned loaded m = None" if "spec_of specs m \<noteq> None"
  proof -
    have "m \<in> set (map sName specs)" using that spec_of_None [of specs m] by auto
    then have "m \<notin> set (map sName (concat (map snd loaded)))" using Cons.prems by (auto simp: loaded_ok_def x)
    then show ?thesis using owned_None by blast
  qed
  have sp: "sProject sp = p" if "spec_of specs m = Some sp" for sp
    using that ok(3) by (auto simp: spec_of_def dest!: map_of_SomeD)
  have owned_p: "q \<noteq> p" if "owned loaded m = Some (q, sp)" for q sp
    using owned_in [OF that] ok(2) by force
  define D1 where "D1 = abs_declare p (g p) specs D"
  have D1: "fst D1 m = (case spec_of specs m of Some sp \<Rightarrow> Some (redeclared (fst D m) sp)
      | None \<Rightarrow> (case fst D m of Some r \<Rightarrow> if sProject (recSpec r) = p then None else Some r | None \<Rightarrow> None))"
    by (simp add: D1_def abs_declare_def of_project_def split: option.split)
  have step: "fold (\<lambda>(n, specs). abs_declare n (g n) specs) (x # loaded) D
      = fold (\<lambda>(n, specs). abs_declare n (g n) specs) loaded D1" by (simp add: x D1_def)
  show ?case
  proof (cases "spec_of specs m")
    case (Some sp')
    then have "sProject sp' \<notin> fst ` set loaded" using sp ok(2) by blast
    then show ?thesis unfolding step using Cons.IH [OF ok(1), of D1] own D1 Some
      by (simp add: x owned_Cons redeclared_def split: option.split)
  next
    case None
    then show ?thesis unfolding step using Cons.IH [OF ok(1), of D1] D1 owned_p
      by (cases "fst D m"; cases "owned loaded m") (auto simp: x owned_Cons)
  qed
qed

lemma abs_declares_snd:
  "snd (fold (\<lambda>(n, specs). abs_declare n (g n) specs) loaded D) m
     = (if m \<in> fst ` set loaded then Some (g m) else snd D m)"
  by (induction loaded arbitrary: D) (auto simp: abs_declare_def)

lemma drop_loop_done:
  assumes "foreach (\<lambda>(n, _) s. if has_key files n then (None, s) else drop_project E n s) projs s = (None, s')"
  shows "svRecords s' = svRecords s
    \<and> map_of (svProjects s') m = (if m \<in> fst ` set projs \<and> \<not> has_key files m then None else map_of (svProjects s) m)"
  using assms
proof (induction projs arbitrary: s)
  case (Cons x projs)
  obtain n p where x: "x = (n, p)" by (metis surj_pair)
  obtain s1 where 1: "(if has_key files n then (None, s) else drop_project E n s) = (None, s1)"
    "foreach (\<lambda>(n, _) s. if has_key files n then (None, s) else drop_project E n s) projs s1 = (None, s')"
    using Cons.prems by (auto simp: x and_then_None split: prod.splits)
  have "svRecords s1 = svRecords s"
    "map_of (svProjects s1) = (if has_key files n then map_of (svProjects s) else (map_of (svProjects s))(n := None))"
    using 1(1) drop_project_done by (auto split: if_splits)
  with Cons.IH [OF 1(2)] show ?case by (auto simp: x)
qed simp

lemma put_projects_locked_done:
  assumes "put_projects_locked E files loaded s = (None, s')" "distinct_recs s" "loaded_ok loaded"
    "fst ` set loaded = fst ` set files"
  shows "decls_of s' = abs_declare_all files loaded (decls_of s)"
proof -
  obtain s1 s2 where 1: "delete_where E (\<lambda>name r. \<not> has_key loaded (sProject (recSpec r))
         \<or> str_at (owners_of loaded) name \<noteq> sProject (recSpec r)) s = (None, s1)"
    and 2: "foreach (\<lambda>(n, _) s. if has_key files n then (None, s) else drop_project E n s) (svProjects s1) s1 = (None, s2)"
    and 3: "foreach (\<lambda>(n, specs) s. declare_project E n (file_of files n) specs s) loaded s2 = (None, s')"
    using assms(1) by (auto simp: put_projects_locked_def and_then_None file_of_def [abs_def])
  note s1 = delete_where_done [OF 1 assms(2) [unfolded distinct_recs_def]] and s2 = drop_loop_done [OF 2]
  have "distinct_recs s1" using loops_distinct(2) [OF assms(2), of E "\<lambda>name r. \<not> has_key loaded (sProject (recSpec r))
         \<or> str_at (owners_of loaded) name \<noteq> sProject (recSpec r)"] 1 by simp
  then have d2: "distinct_recs s2" using s2 by (simp add: distinct_recs_def)
  have "distinct (map sName specs)" if m: "(p, specs) \<in> set loaded" for p specs
  proof -
    obtain xs ys where "loaded = xs @ (p, specs) # ys" using split_list [OF m] by blast
    then show ?thesis using assms(3) by (simp add: loaded_ok_def)
  qed
  then have s3: "decls_of s' = fold (\<lambda>(n, specs). abs_declare n (file_of files n) specs) loaded (decls_of s2)"
    by (intro declares_done [OF 3 d2]) auto
  have kept: "fst (decls_of s2) m = (case owned loaded m of
      Some (p, sp) \<Rightarrow> (case map_of (svRecords s) m of Some r \<Rightarrow> if of_project p r then Some r else None | None \<Rightarrow> None)
    | None \<Rightarrow> None)" for m
  proof -
    have own: "map_of loaded p \<noteq> None" if "owned loaded m = Some (p, sp)" for p sp
      using owned_in [OF that] unfolding has_key_fst by force
    have nil: "map_of loaded [] = None" using assms(3) by (auto simp: loaded_ok_def map_of_eq_None_iff)
    show ?thesis
      using s1(2) [of m] s2 [of m] owners_owned [OF assms(3), of m] nil own
      by (cases "owned loaded m"; cases "map_of (svRecords s) m") (auto simp: decls_of_def str_at_def of_project_def)
  qed
  have "fst (decls_of s') m = fst (abs_declare_all files loaded (decls_of s)) m" for m
    using kept [of m] unfolding s3 abs_declares_fst [OF assms(3)]
    by (auto simp: abs_declare_all_def decls_of_def of_project_def split: option.splits if_splits)
  moreover have "snd (decls_of s') m = snd (abs_declare_all files loaded (decls_of s)) m" for m
  proof -
    have f: "m \<in> fst ` set loaded \<longleftrightarrow> map_of files m \<noteq> None" using assms(4) has_key_fst [of files m] by simp
    have p: "m \<notin> fst ` set (svProjects s) \<longleftrightarrow> map_of (svProjects s) m = None" by (simp add: map_of_eq_None_iff)
    show ?thesis using s1(1) s2 [of m] p unfolding s3 abs_declares_snd f
      by (cases "map_of files m") (auto simp: abs_declare_all_def decls_of_def file_of_def)
  qed
  ultimately show ?thesis by (simp add: prod_eq_iff fun_eq_iff)
qed

text \<open>What \<open>PutProjects\<close> checks before the mutex: no name is declared twice.\<close>

lemma own_names_ok:
  assumes "own_names n specs owners = Inr owners'"
  shows "distinct (map sName specs) \<and> set (map sName specs) \<inter> fst ` set owners = {}
    \<and> fst ` set owners' = set (map sName specs) \<union> fst ` set owners"
  using assms
proof (induction specs arbitrary: owners)
  case (Cons sp specs)
  then have f: "map_of owners (sName sp) = None" "own_names n specs (mput (sName sp) n owners) = Inr owners'"
    by (auto split: option.splits)
  from Cons.IH [OF f(2)] f(1) show ?case by (auto simp: map_of_eq_None_iff)
qed simp

lemma load_all_ok:
  assumes "load_all E files ns owners = Inr loaded"
  shows "map fst loaded = ns \<and> distinct (map sName (concat (map snd loaded)))
    \<and> set (map sName (concat (map snd loaded))) \<inter> fst ` set owners = {}
    \<and> (\<forall>(n, specs) \<in> set loaded. envLoad E n (file_of files n) = Inr specs)"
  using assms
proof (induction ns arbitrary: owners loaded)
  case (Cons n ns)
  obtain specs where l: "envLoad E n (file_of files n) = Inr specs"
    using Cons.prems by (auto simp: file_of_def split: sum.splits)
  obtain owners' where o: "own_names n specs owners = Inr owners'"
    using Cons.prems l by (auto simp: file_of_def split: sum.splits)
  obtain rest where r: "load_all E files ns owners' = Inr rest" "loaded = (n, specs) # rest"
    using Cons.prems l o by (auto simp: file_of_def split: sum.splits)
  note oo = own_names_ok [OF o] and rr = Cons.IH [OF r(1)]
  show ?case using oo rr l by (simp add: r(2)) blast
qed simp

lemma load_all_loaded_ok:
  assumes "load_all E files (sorted_keys files) [] = Inr loaded" "distinct (map fst files)" "\<not> has_key files []"
    "\<And>n p specs. envLoad E n p = Inr specs \<Longrightarrow> \<forall>sp \<in> set specs. sProject sp = n"
  shows "loaded_ok loaded" "fst ` set loaded = fst ` set files"
proof -
  note l = load_all_ok [OF assms(1)]
  have f: "fst ` set loaded = set (map fst loaded)" by simp
  then show k: "fst ` set loaded = fst ` set files" using l by (metis set_sorted_keys)
  have "distinct (map fst loaded)" using l assms(2) by simp
  moreover have "p \<noteq> []" if m: "(p, specs) \<in> set loaded" for p specs
  proof -
    have "p \<in> fst ` set loaded" by (rule rev_image_eqI [OF m]) simp
    then show ?thesis using assms(3) unfolding k has_key_fst by metis
  qed
  moreover have "\<forall>sp \<in> set specs. sProject sp = p" if "(p, specs) \<in> set loaded" for p specs
  proof -
    have "envLoad E p (file_of files p) = Inr specs" using l that by auto
    then show ?thesis by (rule assms(4))
  qed
  moreover have "distinct (map sName (concat (map snd loaded)))" using l by blast
  ultimately show "loaded_ok loaded" unfolding loaded_ok_def by auto
qed

section \<open>Refusals\<close>

text \<open>Once something was written, an error is the store's.\<close>

definition store_error :: "sup_error option \<Rightarrow> bool" where
  "store_error e \<longleftrightarrow> (case e of None \<Rightarrow> True | Some x \<Rightarrow> \<exists>m. x = EOther m)"

lemma and_then_error: "store_error (fst m) \<Longrightarrow> (\<And>s. store_error (fst (k s))) \<Longrightarrow> store_error (fst (and_then m k))"
  by (cases m) (auto simp: and_then_def split: option.split)

lemma foreach_error: "(\<And>x s. store_error (fst (f x s))) \<Longrightarrow> store_error (fst (foreach f xs s))"
  by (induction xs arbitrary: s) (auto simp: store_error_def [of None] intro: and_then_error)

lemma prim_errors: "store_error (fst (put E sp s))" "store_error (fst (delete E n s))"
  "store_error (fst (store_project E n p s))" "store_error (fst (drop_project E n s))" "store_error None"
  by (auto simp: store_error_def put_def delete_def store_project_def drop_project_def Let_def split: prod.split option.split)

lemma delete_where_error: "store_error (fst (delete_where E gone s))"
  unfolding delete_where_def by (rule foreach_error) (auto simp: prim_errors)

lemma declare_error: "store_error (fst (declare_project E n p specs s))"
  unfolding declare_project_def
  by (rule and_then_error, rule prim_errors, rule and_then_error, rule foreach_error, rule prim_errors, rule delete_where_error)

lemma put_projects_locked_error: "store_error (fst (put_projects_locked E files loaded s))"
  unfolding put_projects_locked_def
  by (rule and_then_error, rule delete_where_error, rule and_then_error, rule foreach_error,
      auto simp: prim_errors declare_error intro!: foreach_error)

end
