(* ===== verification/Rig.thy ===== *)
theory Rig
  imports Deadlines Declarations
begin

text \<open>
  A concrete rig, after \<open>fake\<close> and \<open>rig\<close> of \<open>supervisor_test.go\<close>: an engine whose containers change
  only when it is called, and a store in memory. It runs the model on concrete inputs and gives the
  theorems with hypotheses their witnesses; no theorem about the program is about it alone.
\<close>

section \<open>The engine\<close>

record fake =
  fkNow :: time
  fkContainers :: "(string \<times> container) list"
  fkNetworks :: "(string \<times> string) list"
  fkFailRun :: "string option"
  fkUnhealthy :: "string list"

definition fake_run :: "(spec \<Rightarrow> string) \<Rightarrow> spec \<Rightarrow> fake \<Rightarrow> string option \<times> fake" where
  "fake_run hash s f = (case fkFailRun f of
     Some e \<Rightarrow> (Some e, f)
   | None \<Rightarrow> (None, f\<lparr>fkContainers := mput (sName s)
       \<lparr>cID = ''c1'', cName = sName s, cImage = sImage s, cImageID = ''i1'',
        cLabels = [(LabelManaged, ''1''), (LabelSpec, hash s), (LabelProject, sProject s)],
        cState = ''running'', cExitCode = 0, cStartedAt = fkNow f, cExitedAt = 0\<rparr> (fkContainers f)\<rparr>))"

definition fake_change :: "(container \<Rightarrow> container) \<Rightarrow> string \<Rightarrow> fake \<Rightarrow> string option \<times> fake" where
  "fake_change g n f = (case map_of (fkContainers f) n of
     None \<Rightarrow> (Some ''no such container'', f)
   | Some c \<Rightarrow> (None, f\<lparr>fkContainers := mput n (g c) (fkContainers f)\<rparr>))"

definition fake_started :: "time \<Rightarrow> container \<Rightarrow> container" where
  "fake_started now c = c\<lparr>cState := ''running'', cStartedAt := now, cExitedAt := 0, cExitCode := 0\<rparr>"

definition fake_exited :: "time \<Rightarrow> int \<Rightarrow> container \<Rightarrow> container" where
  "fake_exited now code c = c\<lparr>cState := ''exited'', cExitedAt := now, cExitCode := code\<rparr>"

definition fake :: "(spec \<Rightarrow> string) \<Rightarrow> fake engine" where
  "fake hash = \<lparr>
     eList = (\<lambda>f. (Inr (map snd (fkContainers f)), f)),
     eRun = fake_run hash,
     eStart = (\<lambda>n f. fake_change (fake_started (fkNow f)) n f),
     eStop = (\<lambda>n d f. fake_change (fake_exited (fkNow f) 143) n f),
     eRemove = (\<lambda>n f. (None, f\<lparr>fkContainers := mdel n (fkContainers f)\<rparr>)),
     eHealthCheck = (\<lambda>n d f. ((\<not> List.member (fkUnhealthy f) n, None), f)),
     eNetworks = (\<lambda>f. (Inr (map (\<lambda>(n, p). \<lparr>nName = n, nProject = p\<rparr>) (fkNetworks f)), f)),
     eCreateNetwork = (\<lambda>n p f. (None, if has_key (fkNetworks f) n then f
                                       else f\<lparr>fkNetworks := mput n p (fkNetworks f)\<rparr>)),
     eRemoveNetwork = (\<lambda>n f. (None, f\<lparr>fkNetworks := mdel n (fkNetworks f)\<rparr>))\<rparr>"

definition fake0 :: fake where
  "fake0 = \<lparr>fkNow = 0, fkContainers = [], fkNetworks = [], fkFailRun = None, fkUnhealthy = []\<rparr>"

section \<open>The store\<close>

record mem =
  mRecords :: "(string \<times> store_record) list"
  mProjects :: "(string \<times> project) list"
  mBoot :: string
  mFull :: bool

text \<open>A write to a full disk fails and changes nothing.\<close>

definition mem_write :: "(mem \<Rightarrow> mem) \<Rightarrow> mem \<Rightarrow> string option \<times> mem" where
  "mem_write g d = (if mFull d then (Some ''no space left on device'', d) else (None, g d))"

definition memory :: "mem store_ops" where
  "memory = \<lparr>
     stPut = (\<lambda>r. mem_write (\<lambda>d. d\<lparr>mRecords := mput (sName (recSpec r)) r (mRecords d)\<rparr>)),
     stDelete = (\<lambda>n. mem_write (\<lambda>d. d\<lparr>mRecords := mdel n (mRecords d)\<rparr>)),
     stPutProject = (\<lambda>n p. mem_write (\<lambda>d. d\<lparr>mProjects := mput n p (mProjects d)\<rparr>)),
     stDeleteProject = (\<lambda>n. mem_write (\<lambda>d. d\<lparr>mProjects := mdel n (mProjects d)\<rparr>)),
     stSetBootID = (\<lambda>i. mem_write (\<lambda>d. d\<lparr>mBoot := i\<rparr>)),
     stLoad = (\<lambda>d. Inr (mRecords d, [])),
     stProjects = (\<lambda>d. Inr (mProjects d)),
     stBootID = (\<lambda>d. Inr (mBoot d))\<rparr>"

definition mem0 :: mem where
  "mem0 = \<lparr>mRecords = [], mProjects = [], mBoot = [], mFull = False\<rparr>"

section \<open>The supervisor over them\<close>

text \<open>A Compose file of the rig is the name and the image of its one service, before and after a \<open>=\<close>.\<close>

definition rig_spec :: "string \<Rightarrow> string \<Rightarrow> string \<Rightarrow> spec" where
  "rig_spec proj name img = zero_spec\<lparr>sName := name, sProject := proj, sService := name,
     sImage := img, sNetwork := proj\<rparr>"

definition rig_load :: "string \<Rightarrow> project \<Rightarrow> sup_error + spec list" where
  "rig_load n p = (case cut CHR ''='' (prjCompose p) of
     (name, Some img) \<Rightarrow> Inr [rig_spec n name img]
   | (name, None) \<Rightarrow> Inl (EOther ''not a project''))"

definition rig_boot :: time where "rig_boot = 1000 * second"

definition rig_plain :: "(mem, fake) env" where
  "rig_plain = \<lparr>envStore = memory, envEngine = fake sImage, envHash = sImage,
     envOpts = default_options \<lparr>oBootID = ''boot-1'', oBootTime = rig_boot, oResync = 0, oStopTimeout = 0,
                                oVolumes = []\<rparr>,
     envLoad = rig_load\<rparr>"

definition rig_env :: "(mem, fake \<times> call list) env" where
  "rig_env = logged rig_plain"

definition rig_sup :: "(string \<times> store_record) list \<Rightarrow> fake \<Rightarrow> (mem, fake \<times> call list) sup" where
  "rig_sup recs f = new_sup (mem0\<lparr>mRecords := recs\<rparr>) (f, []) [] recs []"

text \<open>A record of the rig, desired running, and a container of it that runs.\<close>

definition rig_record :: "string \<Rightarrow> string \<times> store_record" where
  "rig_record n = (n, \<lparr>recSpec = rig_spec ''p'' n ''img'', recDesired = Running\<rparr>)"

definition rig_container :: "string \<Rightarrow> bool \<Rightarrow> string \<times> container" where
  "rig_container n mine = (n, \<lparr>cID = ''0123456789abcdef'', cName = n, cImage = ''img'', cImageID = ''i1'',
     cLabels = (if mine then [(LabelManaged, ''1''), (LabelSpec, ''img'')] else []),
     cState = ''running'', cExitCode = 0, cStartedAt = rig_boot + second, cExitedAt = 0\<rparr>)"

lemmas rig_defs = rig_env_def rig_plain_def rig_sup_def rig_record_def rig_container_def rig_boot_def rig_load_def rig_spec_def
  memory_def mem_write_def mem0_def fake_def fake_run_def fake_change_def fake_started_def fake_exited_def
  fake0_def new_sup_def default_options_def

text \<open>A pass at one reading of the clock.\<close>

definition rig_pass :: "time \<Rightarrow> (mem, fake \<times> call list) sup \<Rightarrow> (mem, fake \<times> call list) sup" where
  "rig_pass now s = snd (pass rig_env (\<lambda>n. now) now s)"

end
