(* ===== verification/Guarantees.thy ===== *)
theory Guarantees
  imports Rig
begin

text \<open>
  What the supervisor promises of a pass and of the API, each as one theorem over the whole model.
  The theorems that have a hypothesis have a run of the rig beside them.
\<close>

section \<open>Calls\<close>

text \<open>
  C2: A container without the managed label is never called about. Whatever the API does meanwhile
  (\<open>svSched s\<close> is arbitrary) and whatever the engine answers, a pass that is listed containers of
  distinct names starts, stops, removes, replaces or checks no container of the name of an unmanaged
  one.
\<close>

theorem pass_spares_unmanaged:
  assumes "eList (envEngine E) (fst (svEngine s)) = (Inr listed, en)"
    and "distinct (map cName listed)" and "c \<in> set listed" and "\<not> managed c"
  shows "\<exists>cs. log_of (snd (pass (logged E) clk pub s)) = log_of s @ cs \<and> Some (cName c) \<notin> set (map call_on cs)"
proof -
  have "\<forall>c' \<in> set listed. managed c' \<longrightarrow> cName c' \<notin> strange listed"
    using assms(2) by (auto simp: strange_def distinct_map inj_on_def)
  from pass_spares [OF assms(1) this] obtain cs
    where cs: "log_of (snd (pass (logged E) clk pub s)) = log_of s @ cs"
      "\<forall>k \<in> set cs. \<forall>n \<in> strange listed. call_on k \<noteq> Some n"
    unfolding spares_def by blast
  moreover have "cName c \<in> strange listed" using assms(3,4) by (auto simp: strange_def)
  ultimately show ?thesis by (intro exI [of _ cs]) fastforce
qed

text \<open>A container of the name \<open>a\<close> that is not managed, and a declaration of that name: it waits.\<close>

definition foreign_rig :: "(mem, fake \<times> call list) sup" where
  "foreign_rig = rig_sup [rig_record ''a''] (fake0\<lparr>fkContainers := [rig_container ''a'' False]\<rparr>)"

lemma pass_spares_unmanaged_witness:
  "\<exists>cs. log_of (snd (pass rig_env (\<lambda>n. 0) 0 foreign_rig)) = cs \<and> Some ''a'' \<notin> set (map call_on cs)"
proof -
  have "eList (envEngine rig_plain) (fst (svEngine foreign_rig))
      = (Inr [snd (rig_container ''a'' False)], fst (svEngine foreign_rig))"
    by (simp add: foreign_rig_def rig_defs)
  from pass_spares_unmanaged [OF this, of "snd (rig_container ''a'' False)" "\<lambda>n. 0" 0]
  show ?thesis by (simp add: rig_env_def managed_def str_at_def rig_container_def foreign_rig_def rig_sup_def new_sup_def)
qed

text \<open>
  C3: The calls of one \<open>reconcile\<close>, for every interleaving: it only stops or health-checks a container
  observed running, only removes one whose label differs from the hash of its spec, only starts a
  container desired running, never one whose name an unmanaged container holds unless its own was
  observed, and only creates its own network, and only in this container's name.
\<close>

theorem reconcile_calls:
  "\<exists>cs. log_of (snd (reconcile (logged E) now r s)) = log_of s @ cs
     \<and> list_all (permitted (logged E) (map_of (svObserved s) (sName (recSpec r)))
          (map_of (svForeign s) (sName (recSpec r))) r) cs"
  using calls.reconcile_kept [OF within_refl, of E r s now] unfolding within_def Let_def list_all_iff by blast

text \<open>
  C5: \<open>unlocked\<close> misses no change. When it reports that nothing changed, the declaration and the
  tracking of the name are what they were, and so is the listing, whatever the API did to other
  names. The numbers of \<open>changed\<close> have 64 bits, so this needs fewer than \<open>2 ^ 64\<close> changes in all.
\<close>

theorem unlocked_reports_changes:
  assumes "seq_inv s" and "unlocked E name call s = ((True, result), s')" and "svSeq s' < 2 ^ 64"
  shows "map_of (svRecords s') name = map_of (svRecords s) name \<and> map_of (svTrack s') name = map_of (svTrack s) name
    \<and> svObserved s' = svObserved s \<and> svForeign s' = svForeign s"
  using unlocked_undisturbed [OF assms] by (simp add: undisturbed_def)

text \<open>While \<open>a\<close> is stopped by the engine, the API restarts \<open>b\<close>.\<close>

definition busy_rig :: "(mem, fake \<times> call list) sup" where
  "busy_rig = (rig_sup [rig_record ''a'', rig_record ''b''] (fake0\<lparr>fkContainers := [rig_container ''a'' True]\<rparr>))
     \<lparr>svSched := [[OpMarkRestart ''b'']]\<rparr>"

definition busy_stop :: "(bool \<times> string option) \<times> (mem, fake \<times> call list) sup" where
  "busy_stop = unlocked rig_env ''a'' (eStop (envEngine rig_env) ''a'' 10) busy_rig"

lemma unlocked_reports_changes_witness:
  "fst (fst busy_stop) \<and> svSeq (snd busy_stop) = 1
     \<and> map_of (svRecords (snd busy_stop)) ''a'' = map_of (svRecords busy_rig) ''a''"
proof -
  have e: "fst (fst busy_stop)" "svSeq (snd busy_stop) = 1" "svChanged busy_rig = []" by code_simp+
  then have "unlocked rig_env ''a'' (eStop (envEngine rig_env) ''a'' 10) busy_rig
      = ((True, snd (fst busy_stop)), snd busy_stop)"
    by (simp add: busy_stop_def prod_eq_iff)
  from unlocked_reports_changes [OF _ this] show ?thesis using e by (simp add: seq_inv_def)
qed

section \<open>What a pass achieves\<close>

text \<open>
  For the witnesses: an engine that never fails, its state the containers by name, and a supervisor
  over it that declares \<open>a\<close> and \<open>b\<close> running and \<open>c\<close> stopped, with \<open>b\<close>, \<open>c\<close> and an undeclared \<open>d\<close> running.
\<close>

definition steady_view :: "(string \<times> container) list \<Rightarrow> string \<Rightarrow> container option" where
  "steady_view m n = map_option (\<lambda>c. c\<lparr>cName := n\<rparr>) (map_of m n)"

definition steady :: "(string \<times> container) list engine" where
  "steady = \<lparr>
     eList = (\<lambda>m. (Inr (map (\<lambda>(n, c). c\<lparr>cName := n\<rparr>) (AList.clearjunk m)), m)),
     eRun = (\<lambda>s m. (None, mput (sName s) (snd (rig_container (sName s) True)\<lparr>cLabels := [(LabelManaged, ''1''), (LabelSpec, sImage s)]\<rparr>) m)),
     eStart = (\<lambda>n m. (None, case map_of m n of None \<Rightarrow> m | Some c \<Rightarrow> mput n (fake_started 0 c) m)),
     eStop = (\<lambda>n d m. (None, case map_of m n of None \<Rightarrow> m | Some c \<Rightarrow> mput n (fake_exited 0 143 c) m)),
     eRemove = (\<lambda>n m. (None, mdel n m)),
     eHealthCheck = (\<lambda>n d m. ((True, None), m)),
     eNetworks = (\<lambda>m. (Inr [], m)),
     eCreateNetwork = (\<lambda>n p m. (None, m)),
     eRemoveNetwork = (\<lambda>n m. (None, m))\<rparr>"

lemma steady_list: "map cName (map (\<lambda>(n, c). c\<lparr>cName := n\<rparr>) m) = map fst m"
    "map_of (map (\<lambda>c. (cName c, c)) (map (\<lambda>(n, c). c\<lparr>cName := n\<rparr>) m)) n = steady_view m n"
  by (induction m) (auto simp: steady_view_def)

lemma steady_faithful: "faithful steady sImage steady_view"
  unfolding faithful_def
proof (intro conjI allI impI)
  fix m :: "(string \<times> container) list"
  have "steady_view (AList.clearjunk m) = steady_view m" by (simp add: steady_view_def map_of_clearjunk fun_eq_iff)
  then show "\<exists>l en'. eList steady m = (Inr l, en') \<and> steady_view en' = steady_view m \<and> distinct (map cName l)
      \<and> map_of (map (\<lambda>c. (cName c, c)) l) = steady_view m"
    using steady_list(1) [of "AList.clearjunk m"] steady_list(2) [of "AList.clearjunk m"]
    by (simp add: steady_def fun_eq_iff del: map_map)
qed (auto simp: steady_def steady_view_def fun_eq_iff runs_as_def rig_container_def running_def managed_def
    str_at_def LabelManaged_def LabelSpec_def fake_started_def fake_exited_def split: option.splits)

definition steady_env :: "(mem, (string \<times> container) list) env" where
  "steady_env = \<lparr>envStore = memory, envEngine = steady, envHash = sImage, envOpts = envOpts rig_plain, envLoad = rig_load\<rparr>"

definition steady_rig :: "(mem, (string \<times> container) list) sup" where
  "steady_rig = new_sup mem0 [rig_container ''b'' True, rig_container ''c'' True, rig_container ''d'' True] []
     [rig_record ''a'', rig_record ''b'', (''c'', (snd (rig_record ''c''))\<lparr>recDesired := Stopped\<rparr>)] []"

lemma steady_rig_ok: "svSched steady_rig = []" "keyed (svRecords steady_rig)"
  "faithful (envEngine steady_env) (envHash steady_env) steady_view"
  using steady_faithful by (simp_all add: steady_rig_def steady_env_def new_sup_def keyed_def rig_record_def rig_spec_def)

text \<open>
  C6: A pass brings a container up. With a faithful engine and no interference, a container declared
  running, without dependencies and not of an unmanaged container's name, runs with the label of
  its declaration after the pass: when it already did, and when it is missing, was created from another
  declaration, is asked to start or restart, or has not been started since the boot, unless the
  restart policy holds it back.
\<close>

theorem pass_brings_up:
  assumes "faithful (envEngine E) (envHash E) view" and "svSched s = []" and "keyed (svRecords s)"
    and "map_of (svRecords s) n = Some r" and "recDesired r = Running" and "sDependsOn (recSpec r) = []"
    and "\<And>c. view (svEngine s) n = Some c \<Longrightarrow> managed c"
    and "must_start (oBootTime (envOpts E)) (clk n) (envHash E (normalized (recSpec r))) (get_t n s) (view (svEngine s) n)
       \<or> (\<exists>c. view (svEngine s) n = Some c \<and> runs_as n (envHash E (normalized (recSpec r))) c)"
  shows "\<exists>c'. view (svEngine (snd (pass E clk pub s))) n = Some c' \<and> runs_as n (envHash E (normalized (recSpec r))) c'"
proof (rule pass_visits [OF assms(1-4), of clk pub])
  fix sa assume sa: "svSched sa = []" "seen view n sa" "get_t n sa = get_t n s" "view (svEngine sa) n = view (svEngine s) n"
    "view (svEngine (snd (pass E clk pub s))) n = view (svEngine (snd (reconcile E (clk n) r sa))) n"
  have n: "sName (recSpec r) = n" by (rule keyed_name [OF assms(3,4)])
  show ?thesis
  proof (cases "must_start (oBootTime (envOpts E)) (clk n) (envHash E (normalized (recSpec r))) (get_t n s) (view (svEngine s) n)")
    case True
    then show ?thesis using reconcile_starts [OF assms(1) sa(1), of r "clk n"] sa assms(5-7) n by simp
  next
    case False
    then obtain c where c: "view (svEngine s) n = Some c" "runs_as n (envHash E (normalized (recSpec r))) c"
      using assms(8) by blast
    moreover have "\<not> tRestart (get_t n s)" using False c by (simp add: must_start_def runs_as_def)
    ultimately show ?thesis using reconcile_leaves [OF assms(1) sa(1), of r c "clk n"] sa assms(5) n by simp
  qed
qed

lemma pass_brings_up_witness:
  "(\<exists>c'. steady_view (svEngine (snd (pass steady_env (\<lambda>n. 0) 0 steady_rig))) ''a'' = Some c' \<and> runs_as ''a'' ''img'' c')"
proof -
  have "map_of (svRecords steady_rig) ''a'' = Some (snd (rig_record ''a''))" "steady_view (svEngine steady_rig) ''a'' = None"
    "\<not> held_back 0 (get_t ''a'' steady_rig)"
    by (simp_all add: steady_rig_def new_sup_def rig_record_def rig_container_def steady_view_def held_back_def get_t_def zero_tracking_def)
  from pass_brings_up [OF steady_rig_ok(3,1,2) this(1), of "\<lambda>n. 0" 0] this(2,3) show ?thesis
    by (simp add: rig_record_def must_start_def rig_spec_def steady_env_def zero_spec_def)
qed

text \<open>
  C9: A pass takes down what must not run: after it a container declared stopped does not run, and a
  managed container nothing declares is gone, while one that is not managed is as it was.
\<close>

theorem pass_takes_down:
  assumes "faithful (envEngine E) (envHash E) view" and "svSched s = []" and "keyed (svRecords s)"
    and "view (svEngine s) n = Some c"
  shows "case map_of (svRecords s) n of
     None \<Rightarrow> view (svEngine (snd (pass E clk pub s))) n = (if managed c then None else Some c)
   | Some r \<Rightarrow> if \<not> managed c then view (svEngine (snd (pass E clk pub s))) n = Some c
       else recDesired r = Stopped \<longrightarrow> (\<forall>c'. view (svEngine (snd (pass E clk pub s))) n = Some c' \<longrightarrow> \<not> running c')"
proof (cases "map_of (svRecords s) n")
  case None
  then show ?thesis using pass_undeclared [OF assms(1-3) None] assms(4) by simp
next
  case (Some r)
  show ?thesis
  proof (rule pass_visits [OF assms(1-3) Some, of clk pub])
    fix sa assume sa: "svSched sa = []" "seen view n sa" "get_t n sa = get_t n s" "view (svEngine sa) n = view (svEngine s) n"
      "view (svEngine (snd (pass E clk pub s))) n = view (svEngine (snd (reconcile E (clk n) r sa))) n"
    have n: "sName (recSpec r) = n" by (rule keyed_name [OF assms(3) Some])
    show ?thesis
      using reconcile_foreign [OF sa(1), of view r c] reconcile_stops [OF assms(1) sa(1), of r "clk n"] sa n Some assms(4)
      by (auto simp: Let_def)
  qed
qed

lemma pass_takes_down_witness:
  "steady_view (svEngine (snd (pass steady_env (\<lambda>n. 0) 0 steady_rig))) ''d'' = None"
proof -
  have "map_of (svRecords steady_rig) ''d'' = None" "steady_view (svEngine steady_rig) ''d'' = Some (snd (rig_container ''d'' True))"
    by (simp_all add: steady_rig_def new_sup_def rig_record_def rig_container_def steady_view_def)
  from pass_takes_down [OF steady_rig_ok(3,1,2) this(2), of "\<lambda>n. 0" 0] this(1) show ?thesis
    by (simp add: rig_container_def managed_def str_at_def)
qed



end
