(* ===== verification/Policies.thy ===== *)
theory Policies
  imports Guarantees
begin

text \<open>
  The promises about time: how often and after which gaps a container is started again, the verdict
  of its health checks, and when the next pass is due.
\<close>

section \<open>Starts\<close>

text \<open>
  C11: A crash loop ends. A container desired running that never reaches running, however its starts
  fail (the engine refuses them, or it exits before its start is confirmed) and whenever it is
  looked at, is started at most \<open>StartRetries + 1\<close> times while no API call is made for it.
\<close>

theorem crash_loop_ends:
  assumes "crashing E r s0 s" and "svSched s0 = []" and "get_t (sName (recSpec r)) s0 = zero_tracking"
    and "recDesired r = Running"
  shows "int (starts_of s) \<le> int (starts_of s0) + (StartRetries + 1)"
  using crashing_paid [OF assms] paid_bound by fastforce

text \<open>An engine that refuses every run; the container is looked at every 100 seconds.\<close>

definition refusing_rig :: "(mem, fake \<times> call list) sup" where
  "refusing_rig = rig_sup [rig_record ''a''] (fake0\<lparr>fkFailRun := Some ''no image''\<rparr>)"

definition refused :: "time \<Rightarrow> (mem, fake \<times> call list) sup \<Rightarrow> (mem, fake \<times> call list) sup" where
  "refused now s = snd (reconcile rig_env now (snd (rig_record ''a'')) (observing ''a'' None s))"

definition refused5 :: "(mem, fake \<times> call list) sup" where
  "refused5 = refused 500 (refused (400 * second) (refused (300 * second) (refused (200 * second) (refused (100 * second) refusing_rig))))"

lemma refused_crash:
  assumes "crashing rig_plain (snd (rig_record ''a'')) refusing_rig s" "\<not> in_run (get_t ''a'' s)"
  shows "crashing rig_plain (snd (rig_record ''a'')) refusing_rig (refused now s)"
  using observe_crash [OF assms(1), where c = None and now = now] assms(2)
  by (simp add: refused_def rig_env_def never_ran_def rig_record_def rig_spec_def)

lemma crash_loop_ends_witness:
  "int (starts_of refused5) \<le> 4 \<and> starts_of refused5 = 4 \<and> tPhase (get_t ''a'' refused5) = PhaseFatal"
proof -
  have "\<not> in_run (get_t ''a'' refusing_rig)" "\<not> in_run (get_t ''a'' (refused (100 * second) refusing_rig))"
    "\<not> in_run (get_t ''a'' (refused (200 * second) (refused (100 * second) refusing_rig)))"
    "\<not> in_run (get_t ''a'' (refused (300 * second) (refused (200 * second) (refused (100 * second) refusing_rig))))"
    "\<not> in_run (get_t ''a'' (refused (400 * second) (refused (300 * second) (refused (200 * second) (refused (100 * second) refusing_rig)))))"
    by code_simp+
  then have "crashing rig_plain (snd (rig_record ''a'')) refusing_rig refused5"
    unfolding refused5_def by (intro refused_crash begin_crashing)
  moreover have "svSched refusing_rig = []" "get_t ''a'' refusing_rig = zero_tracking" "starts_of refusing_rig = 0"
    by (simp_all add: refusing_rig_def rig_sup_def new_sup_def get_t_def)
  moreover have "recDesired (snd (rig_record ''a'')) = Running" "sName (recSpec (snd (rig_record ''a''))) = ''a''"
    by (simp_all add: rig_record_def rig_spec_def)
  moreover have "starts_of refused5 = 4" "tPhase (get_t ''a'' refused5) = PhaseFatal" by code_simp+
  ultimately show ?thesis using crash_loop_ends [of rig_plain "snd (rig_record ''a'')" refusing_rig refused5]
    by (simp add: StartRetries_def)
qed

section \<open>The gap before a restart\<close>

text \<open>
  An exit \<open>reconcile\<close> has not decided on yet, of a run of this boot; whether the policy and the budgets
  grant it a restart; and the tally it raises: the starts that never reached running, or the restarts,
  which begin anew after a run longer than \<open>backoffMax\<close>.
\<close>

definition undecided :: "('d, 'e) env \<Rightarrow> container \<Rightarrow> tracking \<Rightarrow> bool" where
  "undecided E c t \<longleftrightarrow> \<not> tForce t \<and> cStartedAt c \<noteq> 0 \<and> oBootTime (envOpts E) \<le> cStartedAt c \<and> tPhase t \<noteq> PhaseFatal
     \<and> \<not> (List.member [PhaseExited, PhaseWaiting, PhaseBackoff] (tPhase t) \<and> cExitedAt c = tHandledExit t)"

definition run_length :: "container \<Rightarrow> duration" where
  "run_length c = time_sub (cExitedAt c) (cStartedAt c)"

definition exit_tally :: "container \<Rightarrow> tracking \<Rightarrow> int" where
  "exit_tally c t = (if run_length c < startConfirm then tStartAttempts t + 1
     else if backoffMax < run_length c then 1 else tRestarts t + 1)"

definition granted :: "restart \<Rightarrow> container \<Rightarrow> tracking \<Rightarrow> bool" where
  "granted rs c t \<longleftrightarrow> policy_restarts rs (cExitCode c)
     \<and> (if run_length c < startConfirm then exit_tally c t \<le> StartRetries
        else rMaxRestarts rs \<le> 0 \<or> exit_tally c t \<le> rMaxRestarts rs)"

definition restart_at :: "time \<Rightarrow> container \<Rightarrow> tracking \<Rightarrow> time" where
  "restart_at now c t = now + min (exit_tally c t) BackoffMaxSeconds * second"

lemma decide_granted:
  assumes "granted rs c t" and "0 \<le> tStartAttempts t" and "0 \<le> tRestarts t"
  shows "fst (decide_exit rs c t) = Backoff (exit_tally c t)" and "1 \<le> exit_tally c t"
    and "tHandledExit (snd (decide_exit rs c t)) = cExitedAt c" and "tForce (snd (decide_exit rs c t)) = tForce t"
    and "(if run_length c < startConfirm then tStartAttempts else tRestarts) (snd (decide_exit rs c t)) = exit_tally c t"
  using assms unfolding decide_exit_def granted_def exit_tally_def Let_def run_length_def [symmetric]
  by (auto split: if_splits simp: backoffMax_def startConfirm_def BackoffMaxSeconds_def StartSeconds_def second_def)

text \<open>
  While a container backs off. It is as it exited, or gone: what is observed of it is no other run, and of its declaration.
\<close>

definition still_out :: "('d, 'e) env \<Rightarrow> store_record \<Rightarrow> time \<Rightarrow> container option \<Rightarrow> bool" where
  "still_out E r exit ob \<longleftrightarrow> (case ob of None \<Rightarrow> True | Some k \<Rightarrow> \<not> running k
     \<and> str_at (cLabels k) LabelSpec = envHash E (normalized (recSpec r)) \<and> cExitedAt k = exit)"

definition backs_off :: "('d, 'e) env \<Rightarrow> store_record \<Rightarrow> time \<Rightarrow> time \<Rightarrow> ('d, 'e) sup \<Rightarrow> bool" where
  "backs_off E r exit until s \<longleftrightarrow> (let t = get_t (sName (recSpec r)) s in
     \<not> tForce t \<and> tPhase t = PhaseBackoff \<and> tNextAttempt t = until \<and> tHandledExit t = exit)
     \<and> still_out E r exit (map_of (svObserved s) (sName (recSpec r)))"

lemma reconcile_not_running:
  assumes "recDesired r = Running" and "map_of (svObserved s) (sName (recSpec r)) = ob"
    and "case ob of None \<Rightarrow> True | Some k \<Rightarrow> \<not> running k \<and> str_at (cLabels k) LabelSpec = envHash E (normalized (recSpec r))"
  shows "reconcile E now r s = reconcile_idle E (normalized (recSpec r)) ob now
    (upd_t (sName (recSpec r)) (\<lambda>t. t\<lparr>tRestart := False\<rparr>) (tr (sName (recSpec r)) s))"
  using recreate_matches [of s r ob E] assms
  by (cases ob) (simp_all add: reconcile_def Let_def Running_def Stopped_def)

lemma backs_off_waits:
  assumes "backs_off E r exit until s" and "recDesired r = Running" and "now < until"
  shows "fst (reconcile E now r s) = until \<and> svEngine (snd (reconcile E now r s)) = svEngine s
    \<and> backs_off E r exit until (snd (reconcile E now r s))"
proof -
  let ?n = "sName (recSpec r)"
  define ob where "ob = map_of (svObserved s) ?n"
  have b: "still_out E r exit ob" "\<not> tForce (get_t ?n s)" "tPhase (get_t ?n s) = PhaseBackoff"
    "tNextAttempt (get_t ?n s) = until" "tHandledExit (get_t ?n s) = exit"
    using assms(1) by (simp_all add: backs_off_def Let_def ob_def)
  then have "reconcile E now r s = reconcile_idle E (normalized (recSpec r)) ob now
      (upd_t ?n (\<lambda>t. t\<lparr>tRestart := False\<rparr>) (tr ?n s))"
    by (intro reconcile_not_running [OF assms(2) ob_def [symmetric]]) (auto simp: still_out_def split: option.splits)
  then show ?thesis using b assms(3)
    by (auto simp: reconcile_idle_def Let_def backs_off_def still_out_def ob_def [symmetric] split: option.splits)
qed

text \<open>
  What may happen after: \<open>reconcile\<close> looks at the container before the time, and anything at all happens
  to the rest of the program and to the engine.
\<close>

inductive meanwhile :: "('d, 'e) env \<Rightarrow> store_record \<Rightarrow> time \<Rightarrow> time \<Rightarrow> ('d, 'e) sup \<Rightarrow> ('d, 'e) sup \<Rightarrow> bool"
  for E r exit until s where
  at_first: "meanwhile E r exit until s s"
| look_early: "meanwhile E r exit until s s1 \<Longrightarrow> now < until \<Longrightarrow> meanwhile E r exit until s (snd (reconcile E now r s1))"
| elsewhere: "meanwhile E r exit until s s1 \<Longrightarrow> get_t (sName (recSpec r)) s2 = get_t (sName (recSpec r)) s1
    \<Longrightarrow> still_out E r exit (map_of (svObserved s2) (sName (recSpec r))) \<Longrightarrow> meanwhile E r exit until s s2"

lemma meanwhile_backs_off:
  "meanwhile E r exit until s s' \<Longrightarrow> backs_off E r exit until s \<Longrightarrow> recDesired r = Running \<Longrightarrow> backs_off E r exit until s'"
proof (induction rule: meanwhile.induct)
  case (look_early s1 now)
  then show ?case using backs_off_waits by blast
next
  case (elsewhere s1 s2)
  then show ?case by (simp add: backs_off_def)
qed

lemma exit_backs_off:
  assumes "map_of (svObserved s) (sName (recSpec r)) = Some c" and "recDesired r = Running"
    and "\<not> running c" and "str_at (cLabels c) LabelSpec = envHash E (normalized (recSpec r))"
    and "undecided E c (get_t (sName (recSpec r)) s)" and "granted (sRestart (normalized (recSpec r))) c (get_t (sName (recSpec r)) s)"
    and "0 \<le> tStartAttempts (get_t (sName (recSpec r)) s)" and "0 \<le> tRestarts (get_t (sName (recSpec r)) s)"
    and "exit_tally c (get_t (sName (recSpec r)) s) \<le> 9223372036"
  shows "\<exists>s'. reconcile E now r s = (restart_at now c (get_t (sName (recSpec r)) s), s')
    \<and> svEngine s' = svEngine s \<and> backs_off E r (cExitedAt c) (restart_at now c (get_t (sName (recSpec r)) s)) s'
    \<and> (if run_length c < startConfirm then tStartAttempts else tRestarts) (get_t (sName (recSpec r)) s')
        = exit_tally c (get_t (sName (recSpec r)) s)"
proof -
  let ?n = "sName (recSpec r)" and ?t = "get_t (sName (recSpec r)) s"
  define t1 where "t1 = ?t\<lparr>tRestart := False, tHealth := HealthNone, tFailures := 0, tHealthRun := 0\<rparr>"
  define s1 where "s1 = upd_t ?n (\<lambda>t. t\<lparr>tHealth := HealthNone, tFailures := 0, tHealthRun := 0\<rparr>)
      (upd_t ?n (\<lambda>t. t\<lparr>tRestart := False\<rparr>) (tr ?n s))"
  have g: "get_t ?n s1 = t1" "svEngine s1 = svEngine s" "svObserved s1 = svObserved s" by (simp_all add: s1_def t1_def)
  have e: "exit_tally c t1 = exit_tally c ?t" by (simp add: t1_def exit_tally_def)
  have w: "granted (sRestart (normalized (recSpec r))) c t1" using assms(6) unfolding granted_def e .
  have k: "0 \<le> tStartAttempts t1" "0 \<le> tRestarts t1" "\<not> tForce t1" using assms(5,7,8) by (simp_all add: t1_def undecided_def)
  have u: "undecided E c t1" "\<not> tForce ?t" using assms(5) by (simp_all add: undecided_def t1_def)
  note d = decide_granted [OF w k(1,2)]
  have n: "1 \<le> exit_tally c ?t" using d(2) e by simp
  then have gap: "gap (exit_tally c ?t) = min (exit_tally c ?t) BackoffMaxSeconds * second"
    "0 < min (exit_tally c ?t) BackoffMaxSeconds * second"
    using gap_exact [of "exit_tally c ?t"] assms(9) by (auto simp: BackoffMaxSeconds_def second_def)
  have "reconcile E now r s = reconcile_idle E (normalized (recSpec r)) (Some c) now (upd_t ?n (\<lambda>t. t\<lparr>tRestart := False\<rparr>) (tr ?n s))"
    by (rule reconcile_not_running [OF assms(2,1)]) (use assms(3,4) in simp)
  also have "\<dots> = exited E (normalized (recSpec r)) c now s1"
    using u by (auto simp: reconcile_idle_def Let_def undecided_def is_zero_def s1_def [symmetric] g)
  also have "\<dots> = (restart_at now c ?t, set_t ?n ((snd (decide_exit (sRestart (normalized (recSpec r))) c t1))\<lparr>tPhase := PhaseBackoff,
      tNextAttempt := restart_at now c ?t\<rparr>) s1)"
    using gap d(1) e by (cases "decide_exit (sRestart (normalized (recSpec r))) c t1") (simp add: exited_def Let_def g restart_at_def)
  finally have r: "reconcile E now r s = (restart_at now c ?t, set_t ?n ((snd (decide_exit (sRestart (normalized (recSpec r))) c t1))\<lparr>tPhase := PhaseBackoff,
      tNextAttempt := restart_at now c ?t\<rparr>) s1)" (is "_ = (_, ?s')") .
  have "backs_off E r (cExitedAt c) (restart_at now c ?t) ?s'"
    using d(3,4) k(3) g assms(1,3,4) by (simp add: backs_off_def still_out_def)
  moreover have "svEngine ?s' = svEngine s" using g by simp
  moreover have "(if run_length c < startConfirm then tStartAttempts else tRestarts) (get_t ?n ?s') = exit_tally c ?t"
    using d(5) e by (cases "run_length c < startConfirm") simp_all
  ultimately show ?thesis using r by blast
qed

text \<open>
  C12: The gap before a restart. When \<open>reconcile\<close> decides on an exit that the policy and the budgets grant a
  restart, it calls no engine and makes the container back off for as many seconds as the tally the exit
  raises, at most \<open>BackoffMaxSeconds\<close>; the tally counts the starts that never reached running, or else the restarts since the
  last run longer than the cap. Until then the engine is not called for it: however often \<open>reconcile\<close> looks at it before,
  and whatever happens to the rest of the program in between, it starts nothing and asks for a pass at the end of the
  wait. (A tally of more than 9223372036, which at these gaps takes centuries, would wrap in the code's multiplication.)
\<close>

theorem exit_waits:
  assumes "map_of (svObserved s) (sName (recSpec r)) = Some c" and "recDesired r = Running"
    and "\<not> running c" and "str_at (cLabels c) LabelSpec = envHash E (normalized (recSpec r))"
    and "undecided E c (get_t (sName (recSpec r)) s)" and "granted (sRestart (normalized (recSpec r))) c (get_t (sName (recSpec r)) s)"
    and "0 \<le> tStartAttempts (get_t (sName (recSpec r)) s)" and "0 \<le> tRestarts (get_t (sName (recSpec r)) s)"
    and "exit_tally c (get_t (sName (recSpec r)) s) \<le> 9223372036"
    and "meanwhile E r (cExitedAt c) (restart_at now c (get_t (sName (recSpec r)) s)) (snd (reconcile E now r s)) s'"
    and "early < restart_at now c (get_t (sName (recSpec r)) s)"
  shows "fst (reconcile E now r s) = restart_at now c (get_t (sName (recSpec r)) s)
    \<and> svEngine (snd (reconcile E now r s)) = svEngine s
    \<and> (if run_length c < startConfirm then tStartAttempts else tRestarts) (get_t (sName (recSpec r)) (snd (reconcile E now r s)))
        = exit_tally c (get_t (sName (recSpec r)) s)
    \<and> now + second \<le> restart_at now c (get_t (sName (recSpec r)) s)
    \<and> fst (reconcile E early r s') = restart_at now c (get_t (sName (recSpec r)) s)
    \<and> svEngine (snd (reconcile E early r s')) = svEngine s'"
proof -
  let ?t = "get_t (sName (recSpec r)) s"
  obtain s1 where 1: "reconcile E now r s = (restart_at now c ?t, s1)" "svEngine s1 = svEngine s"
    "backs_off E r (cExitedAt c) (restart_at now c ?t) s1"
    "(if run_length c < startConfirm then tStartAttempts else tRestarts) (get_t (sName (recSpec r)) s1) = exit_tally c ?t"
    using exit_backs_off [OF assms(1-9)] by blast
  have "backs_off E r (cExitedAt c) (restart_at now c ?t) s'"
    using meanwhile_backs_off [OF assms(10)] 1(1,3) assms(2) by simp
  note w = backs_off_waits [OF this assms(2,11)]
  have "now + second \<le> restart_at now c ?t"
    using decide_granted(2) [OF assms(6-8)] by (auto simp: restart_at_def BackoffMaxSeconds_def second_def)
  then show ?thesis unfolding 1(1) fst_conv snd_conv using 1(2,4) w by blast
qed

text \<open>A container that ran for nine seconds; it is looked at half a second later, and again.\<close>

definition exited_rig :: container where
  "exited_rig = fake_exited (rig_boot + 10 * second) 1 (snd (rig_container ''a'' True))"

definition always :: store_record where
  "always = \<lparr>recSpec = (rig_spec ''p'' ''a'' ''img'')\<lparr>sRestart := \<lparr>rPolicy = PolicyAlways, rMaxRestarts = 0\<rparr>\<rparr>, recDesired = Running\<rparr>"

definition exited_sup :: "(mem, fake \<times> call list) sup" where
  "exited_sup = observing ''a'' (Some exited_rig) (rig_sup [(''a'', always)] fake0)"

lemma exit_waits_witness:
  "let s1 = snd (reconcile rig_env (rig_boot + 10 * second) always exited_sup) in
    fst (reconcile rig_env (rig_boot + 10 * second) always exited_sup) = rig_boot + 11 * second
    \<and> fst (reconcile rig_env (rig_boot + 10 * second + 500 * millisecond) always s1) = rig_boot + 11 * second
    \<and> svEngine (snd (reconcile rig_env (rig_boot + 10 * second + 500 * millisecond) always s1)) = svEngine s1"
proof -
  have c: "map_of (svObserved exited_sup) (sName (recSpec always)) = Some exited_rig" "recDesired always = Running"
    "\<not> running exited_rig" "str_at (cLabels exited_rig) LabelSpec = envHash rig_env (normalized (recSpec always))"
    "undecided rig_env exited_rig (get_t (sName (recSpec always)) exited_sup)"
    "granted (sRestart (normalized (recSpec always))) exited_rig (get_t (sName (recSpec always)) exited_sup)"
    "0 \<le> tStartAttempts (get_t (sName (recSpec always)) exited_sup)" "0 \<le> tRestarts (get_t (sName (recSpec always)) exited_sup)"
    "exit_tally exited_rig (get_t (sName (recSpec always)) exited_sup) \<le> 9223372036"
    by code_simp+
  have u: "restart_at (rig_boot + 10 * second) exited_rig (get_t (sName (recSpec always)) exited_sup) = rig_boot + 11 * second"
    by code_simp
  show ?thesis
    using exit_waits [OF c at_first, of "rig_boot + 10 * second + 500 * millisecond" "rig_boot + 10 * second", unfolded u]
    by (simp add: Let_def second_def millisecond_def)
qed

section \<open>Health\<close>

text \<open>
  C13: The verdict of health checks. After any sequence of checks of one run, each a time and whether it
  passed, the container is unhealthy exactly when the failures since the last pass, those in the
  start period not counted, are at least \<open>hRetries\<close>; otherwise it is healthy when some check passed
  and starting when none did.
\<close>

theorem health_verdict:
  assumes "1 \<le> hRetries h" and "tHealth t = HealthStarting" and "tFailures t = 0"
  shows "tHealth (after_checks h c checks t) =
     (if hRetries h \<le> failures_since h c checks then HealthUnhealthy
      else if list_ex snd checks then HealthHealthy else HealthStarting)"
  using after_checks_verdict [OF assms] by simp

definition rig_health :: health where
  "rig_health = \<lparr>hCommand = [''true''], hIntervalSeconds = 10, hTimeoutSeconds = 5, hRetries = 2, hStartPeriodSeconds = 30\<rparr>"

definition rig_checks :: "(time \<times> bool) list" where
  "rig_checks = map (\<lambda>(k, ok). (rig_boot + k * second, ok)) [(2, False), (12, True), (22, False), (42, False), (52, False)]"

lemma health_verdict_witness:
  "tHealth (after_checks rig_health (snd (rig_container ''a'' True)) rig_checks (zero_tracking\<lparr>tHealth := HealthStarting\<rparr>))
     = HealthUnhealthy"
proof -
  have "failures_since rig_health (snd (rig_container ''a'' True)) rig_checks = 2" by code_simp
  then show ?thesis
    using health_verdict [of rig_health "zero_tracking\<lparr>tHealth := HealthStarting\<rparr>" "snd (rig_container ''a'' True)" rig_checks]
    by (simp add: rig_health_def zero_tracking_def)
qed

section \<open>The next pass\<close>

text \<open>
  C14: A pass asks for the next one in time. When nothing interferes and a container desired running is
  listed, if at all, stopped and of its declaration, and backs off after the pass, then the pass
  returns a deadline no later than the container's next attempt, and \<open>Run\<close> waits no longer than until
  it, but at least 100 ms.
\<close>

theorem pass_wakes_in_time:
  assumes "eList (envEngine E) (svEngine s) = (Inr listed, en)" and "svSched s = []" and "keyed (svRecords s)"
    and "map_of (svRecords s) n = Some r" and "recDesired r = Running"
    and "\<And>c. c \<in> set listed \<Longrightarrow> cName c = n \<Longrightarrow> \<not> running c \<and> str_at (cLabels c) LabelSpec = envHash E (normalized (recSpec r))"
    and "pass E clk pub s = (result, s')" and "tPhase (get_t n s') = PhaseBackoff" and "tNextAttempt (get_t n s') \<noteq> 0"
    and "now \<le> tNextAttempt (get_t n s')" and "tNextAttempt (get_t n s') - now \<le> max_int64"
  shows "run_wait resync now result \<le> max (tNextAttempt (get_t n s') - now) (100 * millisecond)"
proof -
  have "\<exists>next. result = Inr next" using assms(1,7) by (auto simp: pass_def Let_def split: prod.splits)
  then obtain nx where r: "result = Inr nx" by blast
  have "nx \<noteq> 0 \<and> nx \<le> tNextAttempt (get_t n s')"
    using pass_deadline [OF assms(1-6) _ assms(8,9), of clk pub] assms(7) r by simp
  then show ?thesis using r assms(10,11)
    by (auto simp: run_wait_def Let_def is_zero_def time_sub_def min_int64_def max_int64_def millisecond_def)
qed

lemma pass_wakes_in_time_witness:
  "run_wait (60 * second) rig_boot (fst (pass rig_env (\<lambda>n. rig_boot) rig_boot refusing_rig)) \<le> second"
proof -
  have e: "pass rig_env (\<lambda>n. rig_boot) rig_boot refusing_rig
      = (fst (pass rig_env (\<lambda>n. rig_boot) rig_boot refusing_rig), snd (pass rig_env (\<lambda>n. rig_boot) rig_boot refusing_rig))"
    by simp
  have l: "eList (envEngine rig_env) (svEngine refusing_rig) = (Inr [], svEngine refusing_rig)"
    by (simp add: refusing_rig_def rig_sup_def new_sup_def rig_env_def rig_plain_def logging_def fake_def fake0_def)
  have k: "svSched refusing_rig = []" "keyed (svRecords refusing_rig)"
    "map_of (svRecords refusing_rig) ''a'' = Some (snd (rig_record ''a''))" "recDesired (snd (rig_record ''a'')) = Running"
    by (simp_all add: refusing_rig_def rig_sup_def new_sup_def keyed_def rig_record_def rig_spec_def)
  let ?t = "get_t ''a'' (snd (pass rig_env (\<lambda>n. rig_boot) rig_boot refusing_rig))"
  have t: "tPhase ?t = PhaseBackoff" "tNextAttempt ?t = rig_boot + second" by code_simp+
  show ?thesis
    using pass_wakes_in_time [OF l k _ e t(1), of rig_boot "60 * second"] t(2)
    by (simp add: rig_boot_def second_def millisecond_def max_int64_def)
qed

end
