(* ===== verification/ApiPromises.thy ===== *)
theory ApiPromises
  imports Policies
begin

text \<open>
  What the API promises of the declarations: a call that succeeds does what its abstract operation
  says, a call that is refused changes nothing. The hypotheses on \<open>envLoad\<close> are what
  \<open>compose.Load\<close> guarantees of the specs it returns: they are of the project and named once.
\<close>

section \<open>Projects\<close>

lemma load_spec_names: "rig_load n p = Inr specs \<Longrightarrow> (\<forall>sp \<in> set specs. sProject sp = n) \<and> distinct (map sName specs)"
  by (auto simp: rig_load_def rig_spec_def split: prod.splits option.splits)

text \<open>\<open>PutProject\<close> goes on only when no container of the file is declared by another project.\<close>

lemma put_project_locked_owned:
  assumes "put_project_locked E name p specs s = (None, s')"
  shows "declare_project E name p specs s = (None, s')"
    and "list_all (\<lambda>sp. case map_of (svRecords s) (sName sp) of None \<Rightarrow> True | Some r \<Rightarrow> of_project name r) specs"
proof -
  let ?f = "\<lambda>sp. case map_of (svRecords s) (sName sp) of
      Some r \<Rightarrow> guard (sProject (recSpec r) \<noteq> name) (ESpec (NameDeclaredBy (sName sp) (sProject (recSpec r)))) | None \<Rightarrow> None"
  have "first_some (map ?f specs) = None \<and> declare_project E name p specs s = (None, s')"
    using assms by (simp add: put_project_locked_def split: option.splits)
  then show "declare_project E name p specs s = (None, s')"
    "list_all (\<lambda>sp. case map_of (svRecords s) (sName sp) of None \<Rightarrow> True | Some r \<Rightarrow> of_project name r) specs"
    by (auto simp: first_some_None list_all_iff of_project_def split: option.splits if_splits)
qed

lemma others_kept:
  assumes "list_all (\<lambda>sp. case R (sName sp) of None \<Rightarrow> True | Some r \<Rightarrow> of_project name r) specs"
    and "R n = Some r" and "\<not> of_project name r"
  shows "fst (abs_declare name p specs (R, P)) n = Some r"
proof -
  have "n \<notin> set (map sName specs)" using assms by (auto simp: list_all_iff)
  then show ?thesis using assms(2,3) spec_of_None [of specs n] by (simp add: abs_declare_def)
qed

text \<open>
  C15: Declaring a project that succeeds declares exactly its services' containers for it: a container
  of the project keeps its desired state and gets its new spec, a new one is desired running, and one the project no
  longer has is gone. It succeeds only when no other project declares a container of one of these names, and
  every container of another project is declared as it was, spec and desired state.
\<close>

theorem put_project_declares:
  assumes "put_project E name p s = (None, s')" and "distinct (map fst (svRecords s))"
    and "envLoad E name p = Inr specs" and "distinct (map sName specs)"
  shows "decls_of s' = abs_declare name p specs (decls_of s)
    \<and> list_all (\<lambda>sp. case map_of (svRecords s) (sName sp) of None \<Rightarrow> True | Some r \<Rightarrow> sProject (recSpec r) = name) specs
    \<and> (\<forall>n r. map_of (svRecords s) n = Some r \<longrightarrow> sProject (recSpec r) \<noteq> name \<longrightarrow> map_of (svRecords s') n = Some r)"
proof -
  obtain s1 where 1: "unmanaged E specs s = (None, s1)" and 2: "put_project_locked E name p specs s1 = (None, s')"
    using assms(1,3) by (auto simp: put_project_def and_then_None)
  obtain en where s1: "s1 = s\<lparr>svEngine := en\<rparr>" using unmanaged_done [OF 1] by blast
  note owned = put_project_locked_owned [OF 2]
  have o: "list_all (\<lambda>sp. case map_of (svRecords s) (sName sp) of None \<Rightarrow> True | Some r \<Rightarrow> of_project name r) specs"
    using owned(2) by (simp add: s1)
  have d: "decls_of s' = abs_declare name p specs (decls_of s)"
    using declare_done [OF owned(1) _ assms(4)] assms(2) by (simp add: s1 distinct_recs_def)
  have "map_of (svRecords s') = fst (abs_declare name p specs (map_of (svRecords s), map_of (svProjects s)))"
    using d unfolding decls_of_def by (metis fst_conv)
  then have "map_of (svRecords s') n = Some r" if "map_of (svRecords s) n = Some r" "sProject (recSpec r) \<noteq> name" for n r
    using others_kept [OF o that(1)] that(2) by (simp add: of_project_def)
  then show ?thesis using d o [unfolded of_project_def] by simp
qed

definition rig_project :: "string \<Rightarrow> project" where
  "rig_project compose = \<lparr>prjCompose = compose, prjDir = []\<rparr>"

definition declared_rig :: "(mem, fake \<times> call list) sup" where
  "declared_rig = rig_sup [(''b'', \<lparr>recSpec = rig_spec ''p'' ''b'' ''img'', recDesired = Stopped\<rparr>)] fake0"

text \<open>Project \<open>p\<close> declares \<open>a\<close> anew; \<open>b\<close> of project \<open>q\<close> stays declared, stopped.\<close>

definition two_projects :: "(mem, fake \<times> call list) sup" where
  "two_projects = rig_sup [(''a'', \<lparr>recSpec = rig_spec ''p'' ''a'' ''old'', recDesired = Stopped\<rparr>),
     (''b'', \<lparr>recSpec = rig_spec ''q'' ''b'' ''img'', recDesired = Stopped\<rparr>)] fake0"

lemma put_project_declares_witness:
  "decls_of (snd (put_project rig_env ''p'' (rig_project ''a=img'') two_projects))
     = abs_declare ''p'' (rig_project ''a=img'') [rig_spec ''p'' ''a'' ''img''] (decls_of two_projects)
   \<and> map_of (svRecords (snd (put_project rig_env ''p'' (rig_project ''a=img'') two_projects))) ''b''
     = Some \<lparr>recSpec = rig_spec ''q'' ''b'' ''img'', recDesired = Stopped\<rparr>"
proof -
  have p: "put_project rig_env ''p'' (rig_project ''a=img'') two_projects
      = (None, snd (put_project rig_env ''p'' (rig_project ''a=img'') two_projects))"
    by (simp add: prod_eq_iff) code_simp
  have l: "envLoad rig_env ''p'' (rig_project ''a=img'') = Inr [rig_spec ''p'' ''a'' ''img'']" by code_simp
  have d: "distinct (map fst (svRecords two_projects))" "distinct (map sName [rig_spec ''p'' ''a'' ''img''])" by code_simp+
  have b: "map_of (svRecords two_projects) ''b'' = Some \<lparr>recSpec = rig_spec ''q'' ''b'' ''img'', recDesired = Stopped\<rparr>"
    "sProject (rig_spec ''q'' ''b'' ''img'') \<noteq> ''p''" by code_simp+
  show ?thesis using put_project_declares [OF p d(1) l d(2)] b by simp
qed

text \<open>
  C16: Declaring a set of projects that succeeds declares exactly that set: a container is declared
  exactly when some file of the set has it, with its spec; it keeps its desired state when the same
  project had declared it before; and the projects are the files.
\<close>

theorem put_projects_declares_exactly:
  assumes "put_projects E files s = (None, s')" and "distinct (map fst (svRecords s))"
    and "distinct (map fst files)" and "\<not> has_key files []"
    and "\<And>n p specs. envLoad E n p = Inr specs \<Longrightarrow> \<forall>sp \<in> set specs. sProject sp = n"
  shows "\<exists>loaded. load_all E files (sorted_keys files) [] = Inr loaded \<and> decls_of s' = abs_declare_all files loaded (decls_of s)"
proof -
  obtain loaded where l: "load_all E files (sorted_keys files) [] = Inr loaded"
    using assms(1) by (auto simp: put_projects_def split: sum.splits)
  obtain s1 where 1: "unmanaged E (concat (map snd loaded)) s = (None, s1)"
    and 2: "put_projects_locked E files loaded s1 = (None, s')"
    using assms(1) l by (auto simp: put_projects_def and_then_None)
  obtain en where s1: "s1 = s\<lparr>svEngine := en\<rparr>" using unmanaged_done [OF 1] by blast
  show ?thesis
    using put_projects_locked_done [OF 2 _ load_all_loaded_ok [OF l assms(3,4,5)]] assms(2) l
    by (simp add: s1 distinct_recs_def)
qed

lemma put_projects_declares_exactly_witness:
  "\<exists>loaded. load_all rig_env [(''q'', rig_project ''c=img'')] [''q''] [] = Inr loaded
     \<and> decls_of (snd (put_projects rig_env [(''q'', rig_project ''c=img'')] declared_rig))
       = abs_declare_all [(''q'', rig_project ''c=img'')] loaded (decls_of declared_rig)"
proof -
  have "fst (put_projects rig_env [(''q'', rig_project ''c=img'')] declared_rig) = None" by code_simp
  then have p: "put_projects rig_env [(''q'', rig_project ''c=img'')] declared_rig
      = (None, snd (put_projects rig_env [(''q'', rig_project ''c=img'')] declared_rig))" by (simp add: prod_eq_iff)
  have l: "envLoad rig_env n p = Inr specs \<Longrightarrow> \<forall>sp \<in> set specs. sProject sp = n" for n p specs
    using load_spec_names by (simp add: rig_env_def rig_plain_def)
  from put_projects_declares_exactly [OF p _ _ _ l] show ?thesis
    by (simp add: declared_rig_def rig_sup_def new_sup_def sorted_keys_def)
qed

text \<open>A refusal that is no error of the store or the engine comes before anything is changed.\<close>

lemma refusal_unchanged:
  assumes "put_project E name p s = (Some e, s') \<or> put_projects E files s = (Some e, s')"
    and "\<And>m. e \<noteq> EOther m"
  shows "s' = s\<lparr>svEngine := svEngine s'\<rparr>"
proof -
  have en: "s' = s\<lparr>svEngine := svEngine s'\<rparr>" if "unmanaged E specs s = (x, s')" for specs x
    using unmanaged_done [OF that] by auto
  have ne: "\<not> store_error (Some e)" using assms(2) by (auto simp: store_error_def)
  from assms(1) show ?thesis
  proof
    assume a: "put_project E name p s = (Some e, s')"
    show ?thesis
    proof (cases "envLoad E name p")
      case (Inr specs)
      obtain x s1 where u: "unmanaged E specs s = (x, s1)" by (metis surj_pair)
      have "put_project_locked E name p specs s1 = (Some e, s') \<Longrightarrow> s' = s1"
        using declare_error [of E name p specs s1] ne
        by (auto simp: put_project_locked_def split: option.splits)
      then show ?thesis using a Inr u en [of specs x]
        by (cases x) (auto simp: put_project_def and_then_def)
    qed (use a in \<open>simp add: put_project_def\<close>)
  next
    assume a: "put_projects E files s = (Some e, s')"
    show ?thesis
    proof (cases "load_all E files (sorted_keys files) []")
      case (Inr loaded)
      obtain x s1 where u: "unmanaged E (concat (map snd loaded)) s = (x, s1)" by (metis surj_pair)
      have "put_projects_locked E files loaded s1 \<noteq> (Some e, s')"
        using put_projects_locked_error [of E files loaded s1] ne by auto
      then show ?thesis using a Inr u en [of "concat (map snd loaded)" x]
        by (cases x) (auto simp: put_projects_def and_then_def)
    qed (use a in \<open>simp add: put_projects_def\<close>)
  qed
qed

text \<open>
  C17: A refused call changes nothing. When declaring one project or a set of projects fails with
  anything but an error of the store or the engine, then nothing is declared otherwise, nothing was written to
  the store, and no container is touched: only the engine was asked for its listing.
\<close>

theorem refused_changes_nothing:
  assumes "put_project E name p s = (Some e, s') \<or> put_projects E files s = (Some e, s')"
    and "\<And>m. e \<noteq> EOther m"
  shows "s' = s\<lparr>svEngine := svEngine s'\<rparr>"
  using assms by (rule refusal_unchanged)

text \<open>The rig declares a container of project \<open>p\<close>; project \<open>q\<close> wants its name.\<close>

lemma refused_changes_nothing_witness:
  "fst (put_project rig_env ''q'' (rig_project ''b=img'') declared_rig) = Some (ESpec (NameDeclaredBy ''b'' ''p''))
   \<and> svRecords (snd (put_project rig_env ''q'' (rig_project ''b=img'') declared_rig)) = svRecords declared_rig"
proof -
  have f: "fst (put_project rig_env ''q'' (rig_project ''b=img'') declared_rig) = Some (ESpec (NameDeclaredBy ''b'' ''p''))"
    by code_simp
  then have "put_project rig_env ''q'' (rig_project ''b=img'') declared_rig = (Some (ESpec (NameDeclaredBy ''b'' ''p'')),
      snd (put_project rig_env ''q'' (rig_project ''b=img'') declared_rig))" by (simp add: prod_eq_iff)
  from refused_changes_nothing [OF disjI1 [OF this]] f show ?thesis
    by (metis sup_error.distinct(7) sup.select_convs(3) sup.surjective sup.update_convs(2))
qed

text \<open>
  C18: Deleting a project that succeeds deletes its containers' declarations and the project, and
  nothing else; when nothing is of that name the error says so and the declarations are as they were.
\<close>

theorem delete_project_deletes:
  assumes "distinct (map fst (svRecords s))"
  shows "case delete_project E name s of
     (None, s') \<Rightarrow> decls_of s' = abs_delete_project name (decls_of s)
   | (Some e, s') \<Rightarrow> if map_of (svProjects s) name = None \<and> (\<nexists>n r. map_of (svRecords s) n = Some r \<and> of_project name r)
       then e = ENoProject \<and> decls_of s' = decls_of s else \<exists>m. e = EOther m"
proof (cases "delete_project E name s")
  case (Pair e s')
  show ?thesis
  proof (cases e)
    case None
    then show ?thesis using delete_project_done [of E name s s'] Pair assms by (simp add: distinct_recs_def)
  next
    case (Some x)
    let ?found = "has_key (svProjects s) name \<or> list_ex (\<lambda>(n, r). sProject (recSpec r) = name) (svRecords s)"
    have found: "?found \<longleftrightarrow> \<not> (map_of (svProjects s) name = None \<and> (\<nexists>n r. map_of (svRecords s) n = Some r \<and> of_project name r))"
      using assms by (auto simp: list_ex_iff of_project_def dest: map_of_SomeD)
    have none: "delete_where E (\<lambda>n r. sProject (recSpec r) = name) s = (None, s)" if "\<not> ?found"
    proof -
      have "foreach (\<lambda>(n, r) s. if sProject (recSpec r) = name then delete E n s else (None, s)) recs s' = (None, s')"
        if "\<not> list_ex (\<lambda>(n, r). sProject (recSpec r) = name) recs" for recs :: "(string \<times> store_record) list" and s'
        using that by (induction recs) auto
      then show ?thesis using that by (simp add: delete_where_def)
    qed
    show ?thesis
    proof (cases ?found)
      case True
      have "store_error (fst (delete_project E name s))"
        using True unfolding delete_project_def Let_def
        by (auto intro!: and_then_error delete_where_error prim_errors)
      then have "\<exists>m. x = EOther m" using Pair Some by (simp add: store_error_def)
      then show ?thesis using True found Pair Some by auto
    next
      case False
      then show ?thesis using none found Pair Some by (auto simp: delete_project_def Let_def)
    qed
  qed
qed

lemma delete_project_deletes_witness:
  "decls_of (snd (delete_project rig_env ''p'' declared_rig)) = abs_delete_project ''p'' (decls_of declared_rig)"
proof -
  have "fst (delete_project rig_env ''p'' declared_rig) = None" by code_simp
  then have "delete_project rig_env ''p'' declared_rig = (None, snd (delete_project rig_env ''p'' declared_rig))"
    by (simp add: prod_eq_iff)
  then show ?thesis using delete_project_deletes [where s = declared_rig and E = rig_env and name = "''p''"]
    by (simp add: declared_rig_def rig_sup_def new_sup_def split: prod.splits)
qed

section \<open>Start, stop and restart\<close>

text \<open>
  \<open>Start\<close>, \<open>Stop\<close> and \<open>Restart\<close> of a declared container that succeed set its desired state, running or
  stopped, and change no other declaration; a start or restart resets its tallies and forces a
  start at the next pass, a restart is asked for only by \<open>Restart\<close>, and a pass is woken.
\<close>

theorem desired_states:
  "(start_container E n s = (None, s') \<longrightarrow> decls_of s' = abs_desire n Running (decls_of s)
      \<and> get_t n s' = zero_tracking\<lparr>tForce := True\<rparr> \<and> svWake s')
   \<and> (stop_container E n s = (None, s') \<longrightarrow> decls_of s' = abs_desire n Stopped (decls_of s)
      \<and> get_t n s' = get_t n s \<and> svWake s')
   \<and> (restart_container E n s = (None, s') \<longrightarrow> decls_of s' = abs_desire n Running (decls_of s)
      \<and> get_t n s' = zero_tracking\<lparr>tForce := True, tRestart := True\<rparr> \<and> svWake s')"
proof -
  have g: "get_t n (touch n s) = get_t n s" "svWake (touch n s)" for s :: "('a, 'b) sup"
    by (simp_all add: touch_def poke_def get_t_def Let_def)
  have t: "get_t n s' = (if d = Running then forced else get_t n s) \<and> svWake s'"
    if "set_desired E n d s = (None, s')" for d and s' :: "('a, 'b) sup"
    using that g by (auto simp: set_desired_def Let_def and_then_def get_t_def touch_def poke_def split: option.splits prod.splits if_splits)
  have m: "decls_of (mark_restart n s) = decls_of s" "get_t n (mark_restart n s) = (get_t n s)\<lparr>tRestart := True\<rparr>" "svWake (mark_restart n s)"
    for s :: "('a, 'b) sup"
    by (simp_all add: mark_restart_def g upd_t_def decls_of_def)
  show ?thesis
    using set_desired_done t m
    by (auto simp: start_container_def stop_container_def restart_container_def and_then_None forced_def Running_def Stopped_def)
qed

lemma desired_states_witness:
  "tForce (get_t ''b'' (snd (start_container rig_env ''b'' declared_rig)))
     \<and> map_option recDesired (map_of (svRecords (snd (start_container rig_env ''b'' declared_rig))) ''b'') = Some Running"
proof -
  have "fst (start_container rig_env ''b'' declared_rig) = None" by code_simp
  then have "start_container rig_env ''b'' declared_rig = (None, snd (start_container rig_env ''b'' declared_rig))"
    by (simp add: prod_eq_iff)
  with desired_states [of rig_env "''b''" declared_rig "snd (start_container rig_env ''b'' declared_rig)"]
  show ?thesis by (auto simp: decls_of_def abs_desire_def declared_rig_def rig_sup_def new_sup_def)
qed

end
