(* ===== verification/Json.thy ===== *)
theory Json
  imports Prelude
begin

text \<open>
  What the program uses of encoding/json (and of unicode/utf8 under it): JSON values, the text
  \<open>json.Marshal\<close> and \<open>json.MarshalIndent\<close> write, and the text \<open>json.Unmarshal\<close> reads. A string is
  its bytes; bytes that are not UTF-8 are written as the replacement character, which is the
  only thing a round trip changes (\<open>read_quoted\<close>, \<open>parse_encode\<close>). A number is its literal.
\<close>

section \<open>Runes\<close>

abbreviation byte :: "char \<Rightarrow> nat" where "byte c \<equiv> of_char c"

text \<open>The ranges of the bytes after the first byte of a rune: \<open>first\<close> and \<open>acceptRanges\<close> of unicode/utf8.\<close>

definition tail_of :: "nat \<Rightarrow> (nat \<times> nat) list option" where
  "tail_of b =
     (if b < 0x80 then Some []
      else if b < 0xC2 then None
      else if b < 0xE0 then Some [(0x80, 0xBF)]
      else if b = 0xE0 then Some [(0xA0, 0xBF), (0x80, 0xBF)]
      else if b = 0xED then Some [(0x80, 0x9F), (0x80, 0xBF)]
      else if b < 0xF0 then Some [(0x80, 0xBF), (0x80, 0xBF)]
      else if b = 0xF0 then Some [(0x90, 0xBF), (0x80, 0xBF), (0x80, 0xBF)]
      else if b < 0xF4 then Some [(0x80, 0xBF), (0x80, 0xBF), (0x80, 0xBF)]
      else if b = 0xF4 then Some [(0x80, 0x8F), (0x80, 0xBF), (0x80, 0xBF)]
      else None)"

text \<open>\<open>rune c s\<close> is how many bytes of \<open>s\<close> belong to the rune that begins with \<open>c\<close>; \<open>None\<close> when it is no rune.\<close>

fun in_ranges :: "(nat \<times> nat) list \<Rightarrow> string \<Rightarrow> bool" where
  "in_ranges [] s = True"
| "in_ranges ((l, h) # rs) [] = False"
| "in_ranges ((l, h) # rs) (c # s) \<longleftrightarrow> l \<le> byte c \<and> byte c \<le> h \<and> in_ranges rs s"

definition rune :: "char \<Rightarrow> string \<Rightarrow> nat option" where
  "rune c s = (case tail_of (byte c) of None \<Rightarrow> None
     | Some rs \<Rightarrow> if in_ranges rs s then Some (length rs) else None)"

definition replacement :: string where
  "replacement = [CHR 0xEF, CHR 0xBF, CHR 0xBD]"

text \<open>\<open>utf8.Valid\<close>, and the bytes with everything that is no rune replaced.\<close>

fun utf8 :: "string \<Rightarrow> bool" where
  "utf8 [] = True"
| "utf8 (c # s) = (case rune c s of None \<Rightarrow> False | Some n \<Rightarrow> utf8 (drop n s))"

fun to_utf8 :: "string \<Rightarrow> string" where
  "to_utf8 [] = []"
| "to_utf8 (c # s) = (case rune c s of None \<Rightarrow> replacement @ to_utf8 s
     | Some n \<Rightarrow> c # take n s @ to_utf8 (drop n s))"

lemma to_utf8_id: "utf8 s \<Longrightarrow> to_utf8 s = s"
  by (induction s rule: utf8.induct) (auto split: option.splits)

lemma in_ranges_append: "length rs \<le> length s \<Longrightarrow> in_ranges rs (s @ t) = in_ranges rs s"
  by (induction rs s rule: in_ranges.induct) auto

lemma in_ranges_length: "in_ranges rs s \<Longrightarrow> length rs \<le> length s"
  by (induction rs s rule: in_ranges.induct) auto

lemma rune_length: "rune c s = Some n \<Longrightarrow> n \<le> length s"
  by (auto simp: rune_def in_ranges_length split: option.splits if_splits)

lemma rune_take: "rune c s = Some n \<Longrightarrow> rune c (take n s @ t) = Some n"
proof -
  assume a: "rune c s = Some n"
  then obtain rs where rs: "tail_of (byte c) = Some rs" "in_ranges rs s" "n = length rs"
    by (auto simp: rune_def split: option.splits if_splits)
  have "in_ranges rs (take (length rs) s)"
    using rs(2) in_ranges_append [of rs "take (length rs) s" "drop (length rs) s"] in_ranges_length [OF rs(2)] by simp
  then show ?thesis using rs in_ranges_append [of rs "take (length rs) s" t] in_ranges_length [OF rs(2)]
    by (simp add: rune_def)
qed

lemma tail_of_high: "tail_of b = Some rs \<Longrightarrow> list_all (\<lambda>(l, h). 0x80 \<le> l) rs"
  by (auto simp: tail_of_def split: if_splits)

lemma rune_ascii: "byte c < 0x80 \<Longrightarrow> rune c s = Some 0"
  by (simp add: rune_def tail_of_def)

lemma in_ranges_high: "in_ranges rs s \<Longrightarrow> list_all (\<lambda>(l, h). 0x80 \<le> l) rs \<Longrightarrow> list_all (\<lambda>c. 0x80 \<le> byte c) (take (length rs) s)"
  by (induction rs s rule: in_ranges.induct) auto

lemma rune_high: "rune c s = Some n \<Longrightarrow> list_all (\<lambda>c. 0x80 \<le> byte c) (take n s)"
  by (auto simp: rune_def in_ranges_high dest: tail_of_high split: option.splits if_splits)

section \<open>Quoting\<close>

abbreviation dquote :: char where "dquote \<equiv> CHR 0x22"
abbreviation backslash :: char where "backslash \<equiv> CHR 0x5C"

definition hex_char :: "nat \<Rightarrow> char" where
  "hex_char d = (if d < 10 then char_of (48 + d) else char_of (87 + d))"

text \<open>\<open>appendString\<close> with HTML escaping, the default of \<open>Marshal\<close> and of an \<open>Encoder\<close>.\<close>

definition escape :: "char \<Rightarrow> string" where
  "escape c =
     (if c = dquote \<or> c = backslash then [backslash, c]
      else if c = CHR 0x08 then [backslash, CHR ''b'']
      else if c = CHR 0x0C then [backslash, CHR ''f'']
      else if c = CHR 0x0A then [backslash, CHR ''n'']
      else if c = CHR 0x0D then [backslash, CHR ''r'']
      else if c = CHR 0x09 then [backslash, CHR ''t'']
      else if byte c < 0x20 \<or> c = CHR ''<'' \<or> c = CHR ''>'' \<or> c = CHR ''&''
        then [backslash, CHR ''u'', CHR ''0'', CHR ''0'', hex_char (byte c div 16), hex_char (byte c mod 16)]
      else [c])"

definition escape_rune :: "string \<Rightarrow> string" where
  "escape_rune r =
     (if r = [CHR 0xE2, CHR 0x80, CHR 0xA8] then backslash # ''u2028''
      else if r = [CHR 0xE2, CHR 0x80, CHR 0xA9] then backslash # ''u2029''
      else r)"

fun quoted :: "string \<Rightarrow> string" where
  "quoted [] = []"
| "quoted (c # s) = (if byte c < 0x80 then escape c @ quoted s
     else case rune c s of None \<Rightarrow> (backslash # ''ufffd'') @ quoted s
       | Some n \<Rightarrow> escape_rune (c # take n s) @ quoted (drop n s))"

definition quote :: "string \<Rightarrow> string" where
  "quote s = dquote # quoted s @ [dquote]"

section \<open>Reading a quoted string\<close>

definition hex_val :: "char \<Rightarrow> nat option" where
  "hex_val c = (if 48 \<le> byte c \<and> byte c \<le> 57 then Some (byte c - 48)
     else if 97 \<le> byte c \<and> byte c \<le> 102 then Some (byte c - 87)
     else if 65 \<le> byte c \<and> byte c \<le> 70 then Some (byte c - 55) else None)"

text \<open>\<open>getu4\<close>: the four hexadecimal digits after \<open>\u\<close>.\<close>

fun hex4 :: "string \<Rightarrow> nat option" where
  "hex4 (a # b # c # d # _) = (case (hex_val a, hex_val b, hex_val c, hex_val d) of
     (Some a, Some b, Some c, Some d) \<Rightarrow> Some (((a * 16 + b) * 16 + c) * 16 + d) | _ \<Rightarrow> None)"
| "hex4 _ = None"

text \<open>\<open>utf8.AppendRune\<close>; a surrogate half is the replacement character.\<close>

definition surrogate :: "nat \<Rightarrow> bool" where
  "surrogate r \<longleftrightarrow> 0xD800 \<le> r \<and> r < 0xE000"

definition encode_rune :: "nat \<Rightarrow> string" where
  "encode_rune r =
     (if r < 0x80 then [char_of r]
      else if r < 0x800 then [char_of (0xC0 + r div 64), char_of (0x80 + r mod 64)]
      else if surrogate r \<or> 0x110000 \<le> r then replacement
      else if r < 0x10000 then [char_of (0xE0 + r div 4096), char_of (0x80 + r div 64 mod 64), char_of (0x80 + r mod 64)]
      else [char_of (0xF0 + r div 262144), char_of (0x80 + r div 4096 mod 64), char_of (0x80 + r div 64 mod 64), char_of (0x80 + r mod 64)])"

text \<open>
  The escape after a backslash: its bytes and how long it is. A surrogate pair is one rune when its
  second half follows as an escape of its own; a half on its own is replaced.
\<close>

fun pair_after :: "nat \<Rightarrow> string \<Rightarrow> nat option" where
  "pair_after r (b # u # s) = (if b = backslash \<and> u = CHR ''u'' then
     (case hex4 s of Some q \<Rightarrow>
        if r < 0xDC00 \<and> 0xDC00 \<le> q \<and> q < 0xE000 then Some ((r - 0xD800) * 0x400 + (q - 0xDC00) + 0x10000) else None
      | None \<Rightarrow> None) else None)"
| "pair_after r _ = None"

fun unescape :: "string \<Rightarrow> (string \<times> nat) option" where
  "unescape [] = None"
| "unescape (e # s) =
     (if e = dquote \<or> e = backslash \<or> e = CHR ''/'' then Some ([e], 1)
      else if e = CHR ''b'' then Some ([CHR 0x08], 1)
      else if e = CHR ''f'' then Some ([CHR 0x0C], 1)
      else if e = CHR ''n'' then Some ([CHR 0x0A], 1)
      else if e = CHR ''r'' then Some ([CHR 0x0D], 1)
      else if e = CHR ''t'' then Some ([CHR 0x09], 1)
      else if e = CHR ''u'' then (case hex4 s of None \<Rightarrow> None
        | Some r \<Rightarrow> if surrogate r then
            (case pair_after r (drop 4 s) of Some q \<Rightarrow> Some (encode_rune q, 11) | None \<Rightarrow> Some (replacement, 5))
          else Some (encode_rune r, 5))
      else None)"

text \<open>What stands at the head of a quoted string: the bytes it means and how many more it takes.\<close>

definition next_piece :: "char \<Rightarrow> string \<Rightarrow> (string \<times> nat) option" where
  "next_piece c s =
     (if c = backslash then unescape s
      else if byte c < 0x20 then None
      else case rune c s of None \<Rightarrow> Some (replacement, 0) | Some n \<Rightarrow> Some (c # take n s, n))"

fun unquoted :: "string \<Rightarrow> (string \<times> string) option" where
  "unquoted [] = None"
| "unquoted (c # s) = (if c = dquote then Some ([], s)
     else case next_piece c s of None \<Rightarrow> None
       | Some (bs, n) \<Rightarrow> (case unquoted (drop n s) of None \<Rightarrow> None | Some (v, r) \<Rightarrow> Some (bs @ v, r)))"

subsection \<open>What was quoted is read back\<close>

lemma hex_val_char: "d < 16 \<Longrightarrow> hex_val (hex_char d) = Some d"
  by (cases "d < 10") (simp_all add: hex_char_def hex_val_def)

lemma byte_less: "byte c < 256"
  using mod_less_divisor [of 256 "byte c"] by (simp del: mod_less_divisor)

lemma unquoted_piece:
  "c \<noteq> dquote \<Longrightarrow> next_piece c (p @ t) = Some (bs, length p) \<Longrightarrow>
   unquoted (c # p @ t) = map_option (\<lambda>(v, r). (bs @ v, r)) (unquoted t)"
  by (simp split: option.splits)

declare unquoted.simps(2) [simp del] unescape.simps(2) [simp del]

lemma unquoted_escape:
  assumes "byte c < 0x80"
  shows "unquoted (escape c @ t) = map_option (\<lambda>(v, r). (c # v, r)) (unquoted t)"
proof -
  have esc: "unquoted (backslash # p @ t) = map_option (\<lambda>(v, r). (c # v, r)) (unquoted t)"
    if "unescape (p @ t) = Some ([c], length p)" for p
    using unquoted_piece [of backslash p t "[c]"] that by (simp add: next_piece_def)
  define S where "S = {dquote, backslash, CHR 0x08, CHR 0x0C, CHR 0x0A, CHR 0x0D, CHR 0x09}"
  define coded where "coded \<longleftrightarrow> byte c < 0x20 \<or> c = CHR ''<'' \<or> c = CHR ''>'' \<or> c = CHR ''&''"
  consider (special) "c \<in> S" | (code) "c \<notin> S" coded | (plain) "c \<notin> S" "\<not> coded" by blast
  then show ?thesis
  proof cases
    case special
    have one: ?thesis if "escape c = [backslash, e]" "unescape (e # t) = Some ([c], 1)" for e
    proof -
      have "unescape ([e] @ t) = Some ([c], length [e])" using that(2) by simp
      from esc [OF this] show ?thesis unfolding that(1) by simp
    qed
    from special show ?thesis unfolding S_def
    proof (elim insertE emptyE)
      assume "c = CHR 0x08" then show ?thesis using one [of "CHR ''b''"] by (simp add: escape_def unescape.simps)
    next
      assume "c = CHR 0x0C" then show ?thesis using one [of "CHR ''f''"] by (simp add: escape_def unescape.simps)
    next
      assume "c = CHR 0x0A" then show ?thesis using one [of "CHR ''n''"] by (simp add: escape_def unescape.simps)
    next
      assume "c = CHR 0x0D" then show ?thesis using one [of "CHR ''r''"] by (simp add: escape_def unescape.simps)
    next
      assume "c = CHR 0x09" then show ?thesis using one [of "CHR ''t''"] by (simp add: escape_def unescape.simps)
    qed (use one [of c] in \<open>simp_all add: escape_def unescape.simps\<close>)
  next
    case code
    let ?p = "[CHR ''u'', CHR ''0'', CHR ''0'', hex_char (byte c div 16), hex_char (byte c mod 16)]"
    have "hex_val (hex_char (byte c div 16)) = Some (byte c div 16)"
      "hex_val (hex_char (byte c mod 16)) = Some (byte c mod 16)"
      using assms by (simp_all add: hex_val_char)
    moreover have "hex_val CHR ''0'' = Some 0" by (simp add: hex_val_def)
    ultimately have "hex4 (drop 1 (?p @ t)) = Some (byte c)" by simp
    moreover have "encode_rune (byte c) = [c]" using assms by (simp add: encode_rune_def)
    ultimately have "unescape (?p @ t) = Some ([c], length ?p)"
      using assms by (simp add: surrogate_def unescape.simps)
    then show ?thesis using code esc [of ?p] by (simp add: escape_def S_def coded_def)
  next
    case plain
    then have "escape c = [c]" by (simp add: escape_def S_def coded_def)
    then show ?thesis using plain unquoted_piece [of c "[]" t "[c]"] rune_ascii [OF assms] by (simp add: next_piece_def S_def coded_def)
  qed
qed

lemma unquoted_u:
  assumes "map_option encode_rune (hex4 [a, b, d, e]) = Some bs" and "\<And>r. hex4 [a, b, d, e] = Some r \<Longrightarrow> \<not> surrogate r"
  shows "unquoted (backslash # CHR ''u'' # a # b # d # e # t) = map_option (\<lambda>(v, r). (bs @ v, r)) (unquoted t)"
proof -
  obtain r where r: "hex4 [a, b, d, e] = Some r" "encode_rune r = bs" using assms(1) by auto
  have "unescape (CHR ''u'' # a # b # d # e # t) = Some (bs, 5)"
    using r assms(2) by (simp add: unescape.simps split: option.splits)
  then show ?thesis using unquoted_piece [of backslash "[CHR ''u'', a, b, d, e]" t bs]
    by (simp add: next_piece_def)
qed

lemma rune_bytes:
  "char_of (226 :: nat) = CHR 0xE2" "char_of (128 :: nat) = CHR 0x80" "char_of (168 :: nat) = CHR 0xA8"
  "char_of (169 :: nat) = CHR 0xA9" "char_of (239 :: nat) = CHR 0xEF" "char_of (191 :: nat) = CHR 0xBF"
  "char_of (189 :: nat) = CHR 0xBD"
  by (simp_all add: char_of_eq_iff take_bit_eq_mod)

lemma unquoted_rune:
  assumes "\<not> byte c < 0x80" and "rune c s = Some n"
  shows "unquoted (escape_rune (c # take n s) @ t) = map_option (\<lambda>(v, r). ((c # take n s) @ v, r)) (unquoted t)"
proof -
  consider (ls) "c # take n s = [CHR 0xE2, CHR 0x80, CHR 0xA8]" | (ps) "c # take n s = [CHR 0xE2, CHR 0x80, CHR 0xA9]"
    | (plain) "c # take n s \<noteq> [CHR 0xE2, CHR 0x80, CHR 0xA8]" "c # take n s \<noteq> [CHR 0xE2, CHR 0x80, CHR 0xA9]" by blast
  then show ?thesis
  proof cases
    case ls
    then show ?thesis using unquoted_u [of "CHR ''2''" "CHR ''0''" "CHR ''2''" "CHR ''8''" "c # take n s" t]
      by (simp add: escape_rune_def hex_val_def encode_rune_def surrogate_def rune_bytes)
  next
    case ps
    then show ?thesis using unquoted_u [of "CHR ''2''" "CHR ''0''" "CHR ''2''" "CHR ''9''" "c # take n s" t]
      by (simp add: escape_rune_def hex_val_def encode_rune_def surrogate_def rune_bytes)
  next
    case plain
    have "next_piece c (take n s @ t) = Some (c # take n s, length (take n s))"
      using assms rune_take [OF assms(2), of t] rune_length [OF assms(2)] by (auto simp: next_piece_def)
    moreover have "escape_rune (c # take n s) = c # take n s" using plain by (simp add: escape_rune_def)
    moreover have "c \<noteq> dquote" using assms(1) by auto
    ultimately show ?thesis using unquoted_piece [of c "take n s" t "c # take n s"] by simp
  qed
qed

theorem unquoted_quoted: "unquoted (quoted s @ dquote # t) = Some (to_utf8 s, t)"
proof (induction s rule: quoted.induct)
  case (2 c s)
  show ?case
  proof (cases "byte c < 0x80")
    case True
    then show ?thesis using 2 unquoted_escape [of c "quoted s @ dquote # t"] by (simp add: rune_ascii)
  next
    case False
    show ?thesis
    proof (cases "rune c s")
      case None
      have "unquoted (backslash # CHR ''u'' # CHR ''f'' # CHR ''f'' # CHR ''f'' # CHR ''d'' # quoted s @ dquote # t)
          = map_option (\<lambda>(v, r). (replacement @ v, r)) (unquoted (quoted s @ dquote # t))"
        by (rule unquoted_u) (simp_all add: hex_val_def encode_rune_def surrogate_def replacement_def rune_bytes)
      then show ?thesis using 2 None False by simp
    next
      case (Some n)
      then show ?thesis using 2 False unquoted_rune [OF False Some, of "quoted (drop n s) @ dquote # t"] by simp
    qed
  qed
qed (simp add: unquoted.simps)

section \<open>Values\<close>

datatype json =
    JNull
  | JBool bool
  | JNum string
  | JStr string
  | JArr "json list"
  | JObj "(string \<times> json) list"

definition json_int :: "int \<Rightarrow> json" where
  "json_int i = JNum (show_int i)"

subsection \<open>Writing\<close>

text \<open>
  \<open>encode None\<close> is \<open>json.Marshal\<close>; \<open>encode (Some d)\<close> is what \<open>json.MarshalIndent(v, "", "  ")\<close> and an
  encoder with that indentation write of a value at depth \<open>d\<close>.
\<close>

definition line :: "nat option \<Rightarrow> string" where
  "line d = (case d of None \<Rightarrow> [] | Some n \<Rightarrow> CHR 0x0A # replicate (2 * n) CHR '' '')"

definition colon :: "nat option \<Rightarrow> string" where
  "colon d = (case d of None \<Rightarrow> '':'' | Some n \<Rightarrow> '': '')"

fun encode :: "nat option \<Rightarrow> json \<Rightarrow> string"
  and encode_elems :: "nat option \<Rightarrow> json list \<Rightarrow> string"
  and encode_members :: "nat option \<Rightarrow> (string \<times> json) list \<Rightarrow> string" where
  "encode d JNull = ''null''"
| "encode d (JBool b) = (if b then ''true'' else ''false'')"
| "encode d (JNum n) = n"
| "encode d (JStr s) = quote s"
| "encode d (JArr []) = ''[]''"
| "encode d (JArr (j # js)) = CHR ''['' # line (map_option Suc d) @ encode (map_option Suc d) j
     @ encode_elems (map_option Suc d) js @ line d @ '']''"
| "encode d (JObj []) = ''{}''"
| "encode d (JObj ((k, v) # ms)) = CHR ''{'' # line (map_option Suc d) @ quote k @ colon d @ encode (map_option Suc d) v
     @ encode_members (map_option Suc d) ms @ line d @ ''}''"
| "encode_elems d [] = []"
| "encode_elems d (j # js) = CHR '','' # line d @ encode d j @ encode_elems d js"
| "encode_members d [] = []"
| "encode_members d ((k, v) # ms) = CHR '','' # line d @ quote k @ colon d @ encode d v @ encode_members d ms"

abbreviation marshal :: "json \<Rightarrow> string" where "marshal \<equiv> encode None"
abbreviation marshal_indent :: "json \<Rightarrow> string" where "marshal_indent \<equiv> encode (Some 0)"

subsection \<open>Reading\<close>

definition space :: "char \<Rightarrow> bool" where
  "space c \<longleftrightarrow> c = CHR '' '' \<or> c = CHR 0x09 \<or> c = CHR 0x0D \<or> c = CHR 0x0A"

definition skip :: "string \<Rightarrow> string" where
  "skip = dropWhile space"

text \<open>A number literal, the longest there is; \<open>None\<close> where the scanner refuses.\<close>

definition span_digits :: "string \<Rightarrow> string \<times> string" where
  "span_digits s = (takeWhile is_digit s, dropWhile is_digit s)"

definition fraction :: "string \<Rightarrow> (string \<times> string) option" where
  "fraction s = (case s of c # t \<Rightarrow> if c = CHR ''.'' then
       (case span_digits t of ([], _) \<Rightarrow> None | (ds, u) \<Rightarrow> Some (c # ds, u)) else Some ([], s)
     | [] \<Rightarrow> Some ([], s))"

definition exponent :: "string \<Rightarrow> (string \<times> string) option" where
  "exponent s = (case s of c # t \<Rightarrow> if c = CHR ''e'' \<or> c = CHR ''E'' then
       (let (sign, u) = (case t of x # u \<Rightarrow> if x = CHR ''+'' \<or> x = CHR ''-'' then ([x], u) else ([], t) | [] \<Rightarrow> ([], t)) in
        case span_digits u of ([], _) \<Rightarrow> None | (ds, v) \<Rightarrow> Some (c # sign @ ds, v)) else Some ([], s)
     | [] \<Rightarrow> Some ([], s))"

definition magnitude :: "string \<Rightarrow> (string \<times> string) option" where
  "magnitude s = (case s of [] \<Rightarrow> None | c # t \<Rightarrow>
     (if c = CHR ''0'' then Some ([c], t)
      else if is_digit c then Some (span_digits s) else None))"

definition number :: "string \<Rightarrow> (string \<times> string) option" where
  "number s =
     (let (sign, t) = (case s of x # t \<Rightarrow> if x = CHR ''-'' then ([x], t) else ([], s) | [] \<Rightarrow> ([], s)) in
      case magnitude t of None \<Rightarrow> None | Some (m, u) \<Rightarrow>
      case fraction u of None \<Rightarrow> None | Some (f, v) \<Rightarrow>
      case exponent v of None \<Rightarrow> None | Some (e, w) \<Rightarrow> Some (sign @ m @ f @ e, w))"

fun parse_value :: "nat \<Rightarrow> string \<Rightarrow> (json \<times> string) option"
  and parse_elems :: "nat \<Rightarrow> string \<Rightarrow> (json list \<times> string) option"
  and parse_members :: "nat \<Rightarrow> string \<Rightarrow> ((string \<times> json) list \<times> string) option" where
  "parse_value 0 s = None"
| "parse_value (Suc f) s = (case skip s of [] \<Rightarrow> None | c # t \<Rightarrow>
     if c = dquote then map_option (\<lambda>(v, r). (JStr v, r)) (unquoted t)
     else if c = CHR ''['' then
       (if has_prefix (skip t) '']'' then Some (JArr [], tl (skip t)) else map_option (\<lambda>(js, r). (JArr js, r)) (parse_elems f t))
     else if c = CHR ''{'' then
       (if has_prefix (skip t) ''}'' then Some (JObj [], tl (skip t)) else map_option (\<lambda>(ms, r). (JObj ms, r)) (parse_members f t))
     else if has_prefix (c # t) ''null'' then Some (JNull, drop 4 (c # t))
     else if has_prefix (c # t) ''true'' then Some (JBool True, drop 4 (c # t))
     else if has_prefix (c # t) ''false'' then Some (JBool False, drop 5 (c # t))
     else map_option (\<lambda>(n, r). (JNum n, r)) (number (c # t)))"
| "parse_elems 0 s = None"
| "parse_elems (Suc f) s = (case parse_value f s of None \<Rightarrow> None | Some (j, r) \<Rightarrow>
     (case skip r of [] \<Rightarrow> None | c # t \<Rightarrow>
       if c = CHR '','' then map_option (\<lambda>(js, r). (j # js, r)) (parse_elems f t)
       else if c = CHR '']'' then Some ([j], t) else None))"
| "parse_members 0 s = None"
| "parse_members (Suc f) s = (case skip s of [] \<Rightarrow> None | q # t \<Rightarrow>
     if q \<noteq> dquote then None else
     (case unquoted t of None \<Rightarrow> None | Some (k, r) \<Rightarrow>
     (case skip r of [] \<Rightarrow> None | c # t \<Rightarrow>
     if c \<noteq> CHR '':'' then None else
     (case parse_value f t of None \<Rightarrow> None | Some (v, r) \<Rightarrow>
     (case skip r of [] \<Rightarrow> None | c # t \<Rightarrow>
       if c = CHR '','' then map_option (\<lambda>(ms, r). ((k, v) # ms, r)) (parse_members f t)
       else if c = CHR ''}'' then Some ([(k, v)], t) else None)))))"

text \<open>\<open>json.Unmarshal\<close> takes exactly one value. Each step of the recursion uses up a byte: the length is fuel enough.\<close>

definition parse :: "string \<Rightarrow> json option" where
  "parse s = (case parse_value (Suc (length s)) s of None \<Rightarrow> None
     | Some (j, r) \<Rightarrow> if skip r = [] then Some j else None)"

subsection \<open>What was written is read back\<close>

text \<open>The value with its strings made UTF-8, and the values whose numbers are integers: all the program writes.\<close>

fun clean_json :: "json \<Rightarrow> json" where
  "clean_json (JStr s) = JStr (to_utf8 s)"
| "clean_json (JArr js) = JArr (map clean_json js)"
| "clean_json (JObj ms) = JObj (map (\<lambda>(k, v). (to_utf8 k, clean_json v)) ms)"
| "clean_json j = j"

fun integral :: "json \<Rightarrow> bool" where
  "integral (JNum n) \<longleftrightarrow> (\<exists>i. n = show_int i)"
| "integral (JArr js) \<longleftrightarrow> list_all integral js"
| "integral (JObj ms) \<longleftrightarrow> list_all (\<lambda>(k, v). integral v) ms"
| "integral j \<longleftrightarrow> True"

text \<open>What may follow a number.\<close>

definition stops :: "string \<Rightarrow> bool" where
  "stops t \<longleftrightarrow> (case t of [] \<Rightarrow> True | c # _ \<Rightarrow> \<not> is_digit c \<and> c \<notin> {CHR ''.'', CHR ''e'', CHR ''E''})"

lemma show_nat_head: "show_nat n = CHR ''0'' # s \<Longrightarrow> n = 0 \<and> s = []"
proof (induction n arbitrary: s rule: show_nat.induct)
  case (1 n)
  show ?case
  proof (cases "n < 10")
    case True
    then have "digit_char n = CHR ''0''" "s = []" using 1(2) by (simp_all add: show_nat.simps [of n])
    then have "(of_char (digit_char n) :: nat) = 48" by simp
    then show ?thesis using True \<open>s = []\<close> by (simp add: of_char_digit_char)
  next
    case False
    obtain c u where u: "show_nat (n div 10) = c # u" by (metis list.exhaust show_nat_nonempty)
    then have "c = CHR ''0''" using 1(2) False by (simp add: show_nat.simps [of n])
    with 1(1) [OF False] u have "n div 10 = 0" by blast
    then show ?thesis using False by simp
  qed
qed

lemma span_digits_show: "stops t \<Longrightarrow> span_digits (show_nat n @ t) = (show_nat n, t)"
proof -
  assume "stops t"
  then have t: "takeWhile is_digit t = [] \<and> dropWhile is_digit t = t" by (cases t) (auto simp: stops_def)
  have "\<forall>c \<in> set (show_nat n). is_digit c" using show_nat_digits by blast
  then show ?thesis using t by (simp add: span_digits_def takeWhile_append2 dropWhile_append2)
qed

lemma magnitude_show: "stops t \<Longrightarrow> magnitude (show_nat n @ t) = Some (show_nat n, t)"
proof -
  assume t: "stops t"
  obtain c u where u: "show_nat n = c # u" by (metis list.exhaust show_nat_nonempty)
  have "is_digit c" using show_nat_digits [of c n] u by simp
  then show ?thesis
    using u show_nat_head [of n u] span_digits_show [OF t, of n] by (auto simp: magnitude_def)
qed

lemma number_show: "stops t \<Longrightarrow> number (show_int i @ t) = Some (show_int i, t)"
proof -
  assume t: "stops t"
  have f: "fraction t = Some ([], t)" "exponent t = Some ([], t)"
    using t by (auto simp: fraction_def exponent_def stops_def split: list.splits)
  obtain c u where u: "show_nat (nat i) = c # u" by (metis list.exhaust show_nat_nonempty)
  have "is_digit c" using show_nat_digits [of c "nat i"] u by simp
  then have "c \<noteq> CHR ''-''" by (auto simp: is_digit_def)
  moreover have "magnitude (c # u @ t) = Some (c # u, t)" using magnitude_show [OF t, of "nat i"] u by simp
  ultimately show ?thesis using magnitude_show [OF t] f u
    by (cases "i < 0") (simp_all add: number_def show_int_def)
qed

text \<open>What follows an element or a member, as one step of the two loops.\<close>

definition after_elem :: "nat \<Rightarrow> string \<Rightarrow> (json list \<times> string) option" where
  "after_elem f r = (case skip r of [] \<Rightarrow> None | c # t \<Rightarrow>
     if c = CHR '','' then parse_elems f t else if c = CHR '']'' then Some ([], t) else None)"

definition after_member :: "nat \<Rightarrow> string \<Rightarrow> ((string \<times> json) list \<times> string) option" where
  "after_member f r = (case skip r of [] \<Rightarrow> None | c # t \<Rightarrow>
     if c = CHR '','' then parse_members f t else if c = CHR ''}'' then Some ([], t) else None)"

lemma parse_elems_Suc:
  "parse_value f s = Some (j, r) \<Longrightarrow> parse_elems (Suc f) s = map_option (\<lambda>(js, r). (j # js, r)) (after_elem f r)"
  by (simp add: after_elem_def split: list.splits)

lemma skip_nonspace: "\<not> space c \<Longrightarrow> skip (c # s) = c # s"
  by (simp add: skip_def)

lemma skip_line [simp]: "skip (line d @ s) = skip s"
proof -
  have "dropWhile space (replicate n CHR '' '' @ s) = dropWhile space s" for n
    by (induction n) (simp_all add: space_def)
  then show ?thesis by (cases d) (simp_all add: line_def skip_def space_def)
qed

lemma parse_value_line [simp]: "parse_value f (line d @ s) = parse_value f s"
  by (cases f) simp_all

lemma parse_value_space [simp]: "parse_value f (CHR '' '' # s) = parse_value f s"
  by (cases f) (simp_all add: skip_def space_def)

lemma parse_members_Suc:
  "parse_value f u = Some (v, r) \<Longrightarrow>
   parse_members (Suc f) (line d @ quote k @ colon d @ u) = map_option (\<lambda>(ms, r). ((to_utf8 k, v) # ms, r)) (after_member f r)"
  by (cases d) (simp_all add: after_member_def quote_def colon_def unquoted_quoted skip_nonspace space_def split: list.splits)

lemma colon_deeper [simp]: "colon (map_option Suc d) = colon d"
  by (cases d) (simp_all add: colon_def)

lemma stops_encode [simp]:
  "stops (encode_elems d js @ line d' @ CHR '']'' # t)" "stops (encode_members d ms @ line d' @ CHR ''}'' # t)"
  by (cases js; cases d'; simp add: stops_def line_def is_digit_def)
     (cases ms; cases d'; auto simp: stops_def line_def is_digit_def)

lemma show_int_head: "\<exists>c s. show_int i = c # s \<and> (c = CHR ''-'' \<or> is_digit c)"
proof (cases "i < 0")
  case False
  obtain c u where u: "show_nat (nat i) = c # u" by (metis list.exhaust show_nat_nonempty)
  then show ?thesis using show_nat_digits [of c "nat i"] False by (simp add: show_int_def)
qed (simp add: show_int_def)

lemma digit_not: "is_digit c \<or> c = CHR ''-'' \<Longrightarrow> \<not> space c \<and> c \<notin> {CHR '']'', CHR ''}'', CHR ''['', CHR ''{'', dquote, CHR ''n'', CHR ''t'', CHR ''f''}"
  by (auto simp: is_digit_def space_def)

lemma encode_head: "integral j \<Longrightarrow> \<exists>c s. encode d j = c # s \<and> \<not> space c \<and> c \<noteq> CHR '']''"
proof (cases j)
  case (JNum n)
  assume "integral j"
  then obtain i where "n = show_int i" using JNum by auto
  then show ?thesis using JNum show_int_head [of i] digit_not by fastforce
next
  case (JArr js)
  then show ?thesis by (cases js) (simp_all add: space_def)
next
  case (JObj ms)
  then show ?thesis by (cases ms) (auto simp: space_def)
qed (simp_all add: quote_def space_def)

lemma skip_encode: "integral j \<Longrightarrow> skip (line d @ encode d' j @ t) = encode d' j @ t \<and> \<not> has_prefix (encode d' j @ t) '']''"
  using encode_head [of j d'] by (auto simp: skip_nonspace)

lemma parse_number:
  assumes "stops t" shows "parse_value (Suc f) (show_int i @ t) = Some (JNum (show_int i), t)"
proof -
  obtain c s where c: "show_int i = c # s" "c = CHR ''-'' \<or> is_digit c" using show_int_head by blast
  with digit_not [of c] have n: "skip (c # s @ t) = c # s @ t"
    "c \<notin> {CHR ''['', CHR ''{'', dquote, CHR ''n'', CHR ''t'', CHR ''f''}" by (auto simp: skip_nonspace)
  have "number (c # s @ t) = Some (c # s, t)" using number_show [OF assms, of i] c by simp
  then show ?thesis using c n by simp
qed

lemma parse_encoded:
  "integral j \<Longrightarrow> stops t \<Longrightarrow> length (encode d j) \<le> f \<Longrightarrow>
    parse_value f (encode d j @ t) = Some (clean_json j, t)"
  "list_all integral js \<Longrightarrow> length (encode_elems d js) \<le> f \<Longrightarrow>
    after_elem f (encode_elems d js @ line d' @ CHR '']'' # t) = Some (map clean_json js, t)"
  "list_all (\<lambda>(k, v). integral v) ms \<Longrightarrow> length (encode_members d ms) \<le> f \<Longrightarrow>
    after_member f (encode_members d ms @ line d' @ CHR ''}'' # t) = Some (map (\<lambda>(k, v). (to_utf8 k, clean_json v)) ms, t)"
proof (induction d j and d js and d ms arbitrary: f t and f d' t and f d' t rule: encode_encode_elems_encode_members.induct)
  case (1 d)
  then show ?case by (cases f) (simp_all add: skip_nonspace space_def)
next
  case (2 d b)
  then show ?case by (cases f; cases b) (simp_all add: skip_nonspace space_def)
next
  case (3 d n)
  then obtain i where "n = show_int i" by auto
  moreover have "show_int i \<noteq> []" using show_int_head [of i] by auto
  ultimately show ?case using 3 by (cases f) (auto simp: parse_number simp del: parse_value.simps)
next
  case (4 d s)
  then show ?case by (cases f) (simp_all add: quote_def unquoted_quoted skip_nonspace space_def)
next
  case (5 d)
  then show ?case by (cases f) (simp_all add: skip_nonspace space_def)
next
  case (6 d j js)
  let ?d = "map_option Suc d"
  let ?u = "encode_elems ?d js @ line d @ CHR '']'' # t"
  obtain f' f'' where f: "f = Suc f'" "f' = Suc f''" using 6(5) encode_head [of j ?d] 6(3)
    by (cases f; cases "f - 1") auto
  have v: "parse_value f'' (line ?d @ encode ?d j @ ?u) = Some (clean_json j, ?u)"
    using 6(1) [of ?u f''] 6(3,5) f by simp
  have e: "parse_elems f' (line ?d @ encode ?d j @ ?u) = Some (clean_json j # map clean_json js, t)"
    using parse_elems_Suc [OF v] 6(2) [of f'' d t] 6(3,5) f by simp
  show ?case using e skip_encode [of j ?d ?d ?u] 6(3) f by (simp add: skip_nonspace space_def del: parse_elems.simps)
next
  case (7 d)
  then show ?case by (cases f) (simp_all add: skip_nonspace space_def)
next
  case (8 d k v ms)
  let ?d = "map_option Suc d"
  let ?u = "encode_members ?d ms @ line d @ CHR ''}'' # t"
  obtain f' f'' where f: "f = Suc f'" "f' = Suc f''" using 8(5)
    by (cases f; cases "f - 1") (auto simp: quote_def)
  have v: "parse_value f'' (encode ?d v @ ?u) = Some (clean_json v, ?u)"
    using 8(1) [of ?u f''] 8(3,5) f by simp
  have e: "parse_members f' (line ?d @ quote k @ colon ?d @ encode ?d v @ ?u)
      = Some ((to_utf8 k, clean_json v) # map (\<lambda>(k, v). (to_utf8 k, clean_json v)) ms, t)"
    using parse_members_Suc [OF v, of ?d k] 8(2) [of f'' d t] 8(3,5) f by simp
  have "skip (line ?d @ quote k @ colon ?d @ encode ?d v @ ?u) = quote k @ colon ?d @ encode ?d v @ ?u"
    by (simp add: quote_def skip_nonspace space_def)
  then show ?case using e f by (simp add: quote_def skip_nonspace space_def del: parse_members.simps)
next
  case (9 d)
  then show ?case by (simp add: after_elem_def skip_nonspace space_def)
next
  case (10 d j js)
  let ?u = "encode_elems d js @ line d' @ CHR '']'' # t"
  obtain f' where f: "f = Suc f'" using 10(4) by (cases f) auto
  have v: "parse_value f' (line d @ encode d j @ ?u) = Some (clean_json j, ?u)"
    using 10(1) [of ?u f'] 10(3,4) f by simp
  show ?case using parse_elems_Suc [OF v] 10(2) [of f' d' t] 10(3,4) f
    by (simp add: after_elem_def [of "Suc f'"] skip_nonspace space_def del: parse_elems.simps)
next
  case (11 d)
  then show ?case by (simp add: after_member_def skip_nonspace space_def)
next
  case (12 d k v ms)
  let ?u = "encode_members d ms @ line d' @ CHR ''}'' # t"
  obtain f' where f: "f = Suc f'" using 12(4) by (cases f) auto
  have v: "parse_value f' (encode d v @ ?u) = Some (clean_json v, ?u)"
    using 12(1) [of ?u f'] 12(3,4) f by simp
  show ?case using parse_members_Suc [OF v, of d k] 12(2) [of f' d' t] 12(3,4) f
    by (simp add: after_member_def [of "Suc f'"] skip_nonspace space_def del: parse_members.simps)
qed

lemma parse_encode:
  assumes "integral j" and "skip t = []"
  shows "parse (encode d j @ t) = Some (clean_json j)"
proof -
  have "\<not> is_digit c \<and> c \<notin> {CHR ''.'', CHR ''e'', CHR ''E''}" if "space c" for c
    using that unfolding space_def is_digit_def by auto
  then have "stops t" using assms(2) by (cases t) (simp_all add: stops_def skip_def split: if_splits)
  then have "parse_value (Suc (length (encode d j @ t))) (encode d j @ t) = Some (clean_json j, t)"
    by (rule parse_encoded(1) [OF assms(1)]) simp
  then show ?thesis using assms(2) by (simp add: parse_def del: parse_value.simps)
qed

end
