(* ===== verification/Url.thy ===== *)
theory Url
  imports Json GoPath
begin

text \<open>
  Go's package \<open>net/url\<close> as the client and the server of the API use it: escaping and unescaping of a
  path, of one segment of a path and of a part of a query (\<open>PathEscape\<close>, \<open>QueryEscape\<close>, \<open>EscapedPath\<close>),
  and queries (\<open>Values.Encode\<close>, \<open>ParseQuery\<close>, \<open>Get\<close>). The lemmas: what was escaped is unescaped to
  itself, what an escaped segment may hold, and a query reads back what it was written from.
\<close>

section \<open>Escaping\<close>

datatype encoding = EncPath | EncSegment | EncQuery

definition alnum_byte :: "char \<Rightarrow> bool" where
  "alnum_byte c \<longleftrightarrow> is_digit c \<or> 65 \<le> byte c \<and> byte c \<le> 90 \<or> 97 \<le> byte c \<and> byte c \<le> 122"

text \<open>\<open>shouldEscape\<close>.\<close>

definition unreserved :: "char \<Rightarrow> bool" where
  "unreserved c \<longleftrightarrow> alnum_byte c \<or> List.member ''-_.~'' c"

definition reserved :: "char \<Rightarrow> bool" where
  "reserved c \<longleftrightarrow> List.member ''$&+,/:;=?@'' c"

definition should_escape :: "encoding \<Rightarrow> char \<Rightarrow> bool" where
  "should_escape m c =
     (if unreserved c then False
      else if reserved c then
        (case m of EncPath \<Rightarrow> c = CHR ''?'' | EncSegment \<Rightarrow> List.member ''/;,?'' c | EncQuery \<Rightarrow> True)
      else True)"

definition upper_hex :: "nat \<Rightarrow> char" where
  "upper_hex d = (if d < 10 then char_of (48 + d) else char_of (55 + d))"

definition escape_byte :: "encoding \<Rightarrow> char \<Rightarrow> string" where
  "escape_byte m c =
     (if m = EncQuery \<and> c = CHR '' '' then ''+''
      else if should_escape m c then [CHR ''%'', upper_hex (byte c div 16), upper_hex (byte c mod 16)]
      else [c])"

definition url_escape :: "encoding \<Rightarrow> string \<Rightarrow> string" where
  "url_escape m s = concat (map (escape_byte m) s)"

abbreviation PathEscape :: "string \<Rightarrow> string" where "PathEscape \<equiv> url_escape EncSegment"
abbreviation QueryEscape :: "string \<Rightarrow> string" where "QueryEscape \<equiv> url_escape EncQuery"

fun url_unescape :: "encoding \<Rightarrow> string \<Rightarrow> string option" where
  "url_unescape m [] = Some []"
| "url_unescape m (c # s) =
     (if c = CHR ''%'' then
        (case s of h # l # t \<Rightarrow> (case (hex_val h, hex_val l) of
             (Some a, Some b) \<Rightarrow> map_option ((#) (char_of (16 * a + b))) (url_unescape m t)
           | _ \<Rightarrow> None)
         | _ \<Rightarrow> None)
      else map_option ((#) (if m = EncQuery \<and> c = CHR ''+'' then CHR '' '' else c)) (url_unescape m s))"

text \<open>\<open>EscapedPath\<close> of a path as it was sent: it is kept when it is a valid encoding.\<close>

definition valid_encoded :: "string \<Rightarrow> bool" where
  "valid_encoded s \<longleftrightarrow> list_all (\<lambda>c. List.member ''!$&()*+,;=:@[]%'' c \<or> c = CHR 0x27 \<or> \<not> should_escape EncPath c) s"

definition escaped_path :: "string \<Rightarrow> string option" where
  "escaped_path p = (case url_unescape EncPath p of None \<Rightarrow> None
     | Some u \<Rightarrow> Some (if valid_encoded p then p else if u = ''*'' then u else url_escape EncPath u))"

lemma hex_val_upper: "d < 16 \<Longrightarrow> hex_val (upper_hex d) = Some d"
  by (simp add: hex_val_def upper_hex_def is_digit_def digit_val_def)

lemma special_escaped [simp]: "should_escape m (CHR ''%'')" "should_escape EncQuery (CHR ''+'')" "m \<noteq> EncPath \<Longrightarrow> should_escape m (CHR ''/'')"
  "should_escape m (CHR ''?'')" "should_escape m (CHR ''#'')" "should_escape EncQuery (CHR ''&'')" "should_escape EncQuery (CHR ''='')"
  "should_escape EncQuery (CHR '';'')"
  by (cases m; simp add: should_escape_def unreserved_def reserved_def alnum_byte_def is_digit_def)+

lemma unescape_byte: "url_unescape m (escape_byte m c @ t) = map_option ((#) c) (url_unescape m t)"
proof -
  have d: "byte c div 16 < 16" "byte c mod 16 < 16" "16 * (byte c div 16) + byte c mod 16 = byte c"
    using nat_of_char_less_256 [of c] by (simp_all add: div_less_iff_less_mult del: nat_of_char_less_256)
  show ?thesis
  proof (cases "should_escape m c")
    case True
    then show ?thesis using d by (simp add: escape_byte_def hex_val_upper)
  next
    case False
    then have "c \<noteq> CHR ''%''" "\<not> (m = EncQuery \<and> c = CHR ''+'')"
      using special_escaped by metis+
    then show ?thesis using False by (cases m) (auto simp: escape_byte_def)
  qed
qed

lemma unescape_escape [simp]: "url_unescape m (url_escape m s) = Some s"
  by (induction s) (simp_all add: url_escape_def unescape_byte)

lemma escape_inj: "url_escape m s = url_escape m t \<longleftrightarrow> s = t"
  by (metis option.inject unescape_escape)

lemma escape_Nil [simp]: "url_escape m [] = []"
  by (simp add: url_escape_def)

text \<open>The bytes of an escaped text: \<open>+\<close> and \<open>%\<close>, and those that need no escape.\<close>

lemma upper_hex_alnum: "d < 16 \<Longrightarrow> alnum_byte (upper_hex d)"
  by (simp add: alnum_byte_def upper_hex_def is_digit_def)

lemma escaped_bytes:
  assumes "c \<in> set (url_escape m s)"
  shows "c = CHR ''+'' \<or> c = CHR ''%'' \<or> \<not> should_escape m c"
proof -
  obtain b where b: "c \<in> set (escape_byte m b)" using assms by (auto simp: url_escape_def)
  have "byte b div 16 < 16" "byte b mod 16 < 16" by (simp_all add: div_less_iff_less_mult)
  then have "\<not> should_escape m (upper_hex (byte b div 16))" "\<not> should_escape m (upper_hex (byte b mod 16))"
    using upper_hex_alnum by (simp_all add: should_escape_def unreserved_def)
  then show ?thesis using b unfolding escape_byte_def by (auto split: if_splits)
qed

lemma escape_avoids: "should_escape m c \<Longrightarrow> c \<noteq> CHR ''+'' \<Longrightarrow> c \<noteq> CHR ''%'' \<Longrightarrow> c \<notin> set (url_escape m s)"
  using escaped_bytes by blast

lemma escape_no_slash: "m \<noteq> EncPath \<Longrightarrow> CHR ''/'' \<notin> set (url_escape m s)"
  and escape_no_question: "CHR ''?'' \<notin> set (url_escape m s)"
  and escape_no_hash: "CHR ''#'' \<notin> set (url_escape m s)"
  and escape_no_amp: "CHR ''&'' \<notin> set (QueryEscape s)"
  and escape_no_eq: "CHR ''='' \<notin> set (QueryEscape s)"
  and escape_no_semicolon: "CHR '';'' \<notin> set (QueryEscape s)"
  by (rule escape_avoids; simp)+

lemma escape_path_less: "should_escape EncPath c \<Longrightarrow> should_escape m c"
proof (cases "c = CHR ''?''")
  case False
  moreover assume "should_escape EncPath c"
  ultimately show ?thesis by (auto simp: should_escape_def split: if_splits)
qed simp

lemma valid_encoded_append [simp]: "valid_encoded (s @ t) \<longleftrightarrow> valid_encoded s \<and> valid_encoded t"
  by (simp add: valid_encoded_def)

lemma valid_encoded_escape [simp]: "valid_encoded (url_escape m s)"
  unfolding valid_encoded_def list_all_iff
proof
  fix c assume "c \<in> set (url_escape m s)"
  then have "c = CHR ''+'' \<or> c = CHR ''%'' \<or> \<not> should_escape EncPath c"
    using escaped_bytes escape_path_less by blast
  then show "List.member ''!$&()*+,;=:@[]%'' c \<or> c = CHR 0x27 \<or> \<not> should_escape EncPath c" by (elim disjE) simp_all
qed

text \<open>An escaped segment is unescaped alike as a part of a path.\<close>

lemma unescape_path [simp]: "url_unescape EncPath s = url_unescape EncSegment s"
  by (induction EncPath s rule: url_unescape.induct) (auto split: list.splits option.splits)

lemma unescape_append:
  "url_unescape m s = Some u \<Longrightarrow> url_unescape m (s @ t) = map_option ((@) u) (url_unescape m t)"
proof (induction m s arbitrary: u rule: url_unescape.induct)
  case (1 m)
  then show ?case by (cases "url_unescape m t") simp_all
next
  case (2 m c s)
  show ?case
  proof (cases "c = CHR ''%''")
    case True
    then show ?thesis using 2 by (cases "url_unescape m t") (auto split: list.splits option.splits)
  next
    case False
    then show ?thesis using 2 by (cases "url_unescape m t") auto
  qed
qed

section \<open>Queries\<close>

text \<open>\<open>url.Values\<close> is a map of lists; the program gives a key one value. \<open>Encode\<close> sorts the keys.\<close>

definition encode_pair :: "string \<times> string \<Rightarrow> string" where
  "encode_pair kv = QueryEscape (fst kv) @ ''='' @ QueryEscape (snd kv)"

definition encode_query :: "(string \<times> string) list \<Rightarrow> string" where
  "encode_query m = join ''&'' (map encode_pair (sorted_entries m))"

text \<open>\<open>ParseQuery\<close>, as \<open>Query\<close> uses it: a part with a semicolon or an invalid escape is left out.\<close>

definition parse_pair :: "string \<Rightarrow> (string \<times> string) option" where
  "parse_pair part =
     (if part = [] \<or> List.member part (CHR '';'') then None
      else case cut (CHR ''='') part of (k, v) \<Rightarrow>
        (case (url_unescape EncQuery k, url_unescape EncQuery (case v of None \<Rightarrow> [] | Some v \<Rightarrow> v)) of
           (Some k, Some v) \<Rightarrow> Some (k, v) | _ \<Rightarrow> None))"

definition parse_query :: "string \<Rightarrow> (string \<times> string) list" where
  "parse_query q = List.map_filter parse_pair (split_on (CHR ''&'') q)"

text \<open>\<open>Get\<close> gives the first value of a key, and the empty string without one.\<close>

definition query_get :: "string \<Rightarrow> string \<Rightarrow> string" where
  "query_get q k = str_at (parse_query q) k"

lemma parse_encoded_pair: "parse_pair (encode_pair (k, v)) = Some (k, v)"
proof -
  have "CHR '';'' \<notin> set (encode_pair (k, v))"
    using escape_no_semicolon [of k] escape_no_semicolon [of v] by (simp add: encode_pair_def)
  moreover have "cut (CHR ''='') (encode_pair (k, v)) = (QueryEscape k, Some (QueryEscape v))"
    using cut_append [OF escape_no_eq, of k "QueryEscape v"] by (simp add: encode_pair_def)
  ultimately show ?thesis by (simp add: parse_pair_def encode_pair_def)
qed

text \<open>A query reads back the entries it was written from.\<close>

lemma parse_encoded_query: "parse_query (encode_query m) = sorted_entries m"
proof (cases "sorted_entries m = []")
  case True
  then show ?thesis by (simp add: encode_query_def parse_query_def parse_pair_def List.map_filter_simps)
next
  case False
  have amp: "CHR ''&'' \<notin> set (encode_pair kv)" for kv
    using escape_no_amp [of "fst kv"] escape_no_amp [of "snd kv"] by (simp add: encode_pair_def)
  have "List.map_filter parse_pair (map encode_pair es) = es" for es
    by (induction es) (auto simp: List.map_filter_simps parse_encoded_pair)
  moreover have "split_on (CHR ''&'') (encode_query m) = map encode_pair (sorted_entries m)"
    unfolding encode_query_def using False amp by (intro split_on_join) auto
  ultimately show ?thesis by (simp add: parse_query_def)
qed

lemma set_join: "c \<in> set (join sep xs) \<Longrightarrow> c \<in> set sep \<or> (\<exists>x \<in> set xs. c \<in> set x)"
  by (induction sep xs rule: join.induct) auto

lemma valid_query_bytes: "c \<in> set (encode_query m) \<Longrightarrow> c \<noteq> CHR ''?'' \<and> c \<noteq> CHR ''#''"
proof -
  have "CHR ''?'' \<notin> set (encode_pair kv) \<and> CHR ''#'' \<notin> set (encode_pair kv)" for kv
    using escape_no_question [of EncQuery "fst kv"] escape_no_question [of EncQuery "snd kv"]
      escape_no_hash [of EncQuery "fst kv"] escape_no_hash [of EncQuery "snd kv"] by (simp add: encode_pair_def)
  moreover assume "c \<in> set (encode_query m)"
  then have "c = CHR ''&'' \<or> (\<exists>kv. c \<in> set (encode_pair kv))" unfolding encode_query_def using set_join [of c "''&''"] by fastforce
  ultimately show ?thesis by auto
qed

end
