(* ===== verification/Strconv.thy ===== *)
theory Strconv
  imports Prelude
begin

text \<open>
  The rest of strconv and strings the program reads its input with: \<open>ParseInt\<close>, \<open>ParseUint\<close> and \<open>Atoi\<close> in
  base ten, \<open>TrimSpace\<close>, \<open>TrimRight\<close> and \<open>ToUpper\<close>.
\<close>

section \<open>Numbers\<close>

definition read_digits :: "string \<Rightarrow> nat option" where
  "read_digits s = (if s \<noteq> [] \<and> list_all is_digit s then Some (read_nat s) else None)"

text \<open>\<open>strconv.ParseUint(s, 10, bits)\<close>: no sign, and nothing out of range.\<close>

definition parse_uint :: "nat \<Rightarrow> string \<Rightarrow> nat option" where
  "parse_uint bits s = (case read_digits s of None \<Rightarrow> None
     | Some n \<Rightarrow> if n < 2 ^ bits then Some n else None)"

text \<open>\<open>strconv.ParseInt(s, 10, bits)\<close>, and \<open>Atoi\<close> at 64 bits: a sign first, or none.\<close>

definition sign_of :: "string \<Rightarrow> bool \<times> string" where
  "sign_of s = (case s of [] \<Rightarrow> (False, s)
     | c # t \<Rightarrow> if c = CHR ''-'' then (True, t) else if c = CHR ''+'' then (False, t) else (False, s))"

definition parse_int :: "nat \<Rightarrow> string \<Rightarrow> int option" where
  "parse_int bits s = (case sign_of s of (negative, t) \<Rightarrow>
     (case read_digits t of None \<Rightarrow> None
      | Some n \<Rightarrow> let i = (if negative then - int n else int n) in
          if - (2 ^ (bits - 1)) \<le> i \<and> i < 2 ^ (bits - 1) then Some i else None))"

abbreviation atoi :: "string \<Rightarrow> int option" where "atoi \<equiv> parse_int 64"

lemma read_digits_show [simp]: "read_digits (show_nat n) = Some n"
  using show_nat_digits [of _ n] by (simp add: read_digits_def read_show_nat list_all_iff)

lemma parse_uint_show: "n < 2 ^ bits \<Longrightarrow> parse_uint bits (show_nat n) = Some n"
  by (simp add: parse_uint_def)

lemma show_nat_no_sign: "show_nat n = c # t \<Longrightarrow> c \<noteq> CHR ''-'' \<and> c \<noteq> CHR ''+''"
  using show_nat_digits [of c n] by (auto simp: is_digit_def)

lemma sign_of_show: "sign_of (show_int i) = (i < 0, show_nat (nat (if i < 0 then - i else i)))"
proof (cases "i < 0")
  case False
  obtain c t where c: "show_nat (nat i) = c # t" by (metis list.exhaust show_nat_nonempty)
  then show ?thesis using False show_nat_no_sign [OF c] by (simp add: show_int_def sign_of_def)
qed (simp add: show_int_def sign_of_def)

lemma parse_int_show:
  "- (2 ^ (bits - 1)) \<le> i \<Longrightarrow> i < 2 ^ (bits - 1) \<Longrightarrow> parse_int bits (show_int i) = Some i"
  by (simp add: parse_int_def sign_of_show)

lemma parse_int_range: "parse_int bits s = Some i \<Longrightarrow> - (2 ^ (bits - 1)) \<le> i \<and> i < 2 ^ (bits - 1)"
  by (auto simp: parse_int_def Let_def split: option.splits prod.splits if_splits)

section \<open>Trimming\<close>

text \<open>The bytes of each rune \<open>unicode.IsSpace\<close> accepts.\<close>

definition space_runes :: "string list" where
  "space_runes = [[CHR 0x09], [CHR 0x0A], [CHR 0x0B], [CHR 0x0C], [CHR 0x0D], [CHR 0x20],
     [CHR 0xC2, CHR 0x85], [CHR 0xC2, CHR 0xA0], [CHR 0xE1, CHR 0x9A, CHR 0x80],
     [CHR 0xE2, CHR 0x80, CHR 0x80], [CHR 0xE2, CHR 0x80, CHR 0x81], [CHR 0xE2, CHR 0x80, CHR 0x82],
     [CHR 0xE2, CHR 0x80, CHR 0x83], [CHR 0xE2, CHR 0x80, CHR 0x84], [CHR 0xE2, CHR 0x80, CHR 0x85],
     [CHR 0xE2, CHR 0x80, CHR 0x86], [CHR 0xE2, CHR 0x80, CHR 0x87], [CHR 0xE2, CHR 0x80, CHR 0x88],
     [CHR 0xE2, CHR 0x80, CHR 0x89], [CHR 0xE2, CHR 0x80, CHR 0x8A], [CHR 0xE2, CHR 0x80, CHR 0xA8],
     [CHR 0xE2, CHR 0x80, CHR 0xA9], [CHR 0xE2, CHR 0x80, CHR 0xAF], [CHR 0xE2, CHR 0x81, CHR 0x9F],
     [CHR 0xE3, CHR 0x80, CHR 0x80]]"

definition space_at :: "string list \<Rightarrow> string \<Rightarrow> nat option" where
  "space_at rs s = map_option length (find (has_prefix s) rs)"

fun trim_left :: "string list \<Rightarrow> string \<Rightarrow> string" where
  "trim_left rs [] = []"
| "trim_left rs (c # s) = (case space_at rs (c # s) of Some (Suc n) \<Rightarrow> trim_left rs (drop n s) | _ \<Rightarrow> c # s)"

definition trim_space :: "string \<Rightarrow> string" where
  "trim_space s = rev (trim_left (map rev space_runes) (rev (trim_left space_runes s)))"

lemma trim_left_id: "space_at rs s = None \<Longrightarrow> trim_left rs s = s"
  by (cases s) simp_all

text \<open>A text that begins and ends with no space, followed by a newline, is trimmed to itself.\<close>

definition trimmed :: "string \<Rightarrow> bool" where
  "trimmed s \<longleftrightarrow> space_at space_runes s = None \<and> space_at (map rev space_runes) (rev s) = None"

lemma trim_space_trimmed: "trimmed s \<Longrightarrow> trim_space s = s"
  by (simp add: trimmed_def trim_space_def trim_left_id)

lemma space_at_append:
  assumes "s \<noteq> []" and "space_at space_runes s = None"
  shows "space_at space_runes (s @ [CHR 0x0A]) = None"
proof (rule ccontr)
  assume "\<not> ?thesis"
  then obtain r where r: "r \<in> set space_runes" "has_prefix (s @ [CHR 0x0A]) r"
    by (auto simp: space_at_def find_Some_iff in_set_conv_nth)
  then obtain t where t: "s @ [CHR 0x0A] = r @ t" by (auto simp: has_prefix_iff)
  have "\<not> has_prefix s r" using assms(2) r(1) by (auto simp: space_at_def find_None_iff)
  then have "t = []" using t by (cases t rule: rev_cases) (auto simp: has_prefix_iff)
  then have "r = s @ [CHR 0x0A]" using t by simp
  then have "last r = CHR 0x0A" by simp
  moreover have "list_all (\<lambda>r. last r = CHR 0x0A \<longrightarrow> r = [CHR 0x0A]) space_runes" by code_simp
  ultimately have "r = [CHR 0x0A]" using r(1) unfolding list_all_iff by blast
  then show False using \<open>r = s @ [CHR 0x0A]\<close> assms(1) by simp
qed

lemma trim_space_line: "trimmed s \<Longrightarrow> trim_space (s @ [CHR 0x0A]) = s"
proof -
  assume s: "trimmed s"
  have nl: "space_at (map rev space_runes) (CHR 0x0A # t) = Some 1" for t
    by (simp add: space_at_def space_runes_def)
  show ?thesis
  proof (cases "s = []")
    case True
    then show ?thesis by (simp add: trim_space_def space_at_def space_runes_def)
  next
    case False
    then have "trim_left space_runes (s @ [CHR 0x0A]) = s @ [CHR 0x0A]"
      using s space_at_append by (simp add: trimmed_def trim_left_id)
    then show ?thesis using s nl [of "rev s"] by (simp add: trimmed_def trim_space_def trim_left_id)
  qed
qed

text \<open>\<open>strings.TrimRight(s, cutset)\<close> for a cutset of one byte.\<close>

definition trim_right :: "char \<Rightarrow> string \<Rightarrow> string" where
  "trim_right c s = rev (dropWhile (\<lambda>x. x = c) (rev s))"

section \<open>Upper case\<close>

text \<open>
  \<open>strings.ToUpper\<close>. Beyond ASCII only the two runes whose upper case is an ASCII letter are
  mapped: every other rune has an upper case outside ASCII, so that no ASCII name is the upper
  case of a text with one.
\<close>

definition upper :: "char \<Rightarrow> char" where
  "upper c = (if 97 \<le> (of_char c :: nat) \<and> (of_char c :: nat) \<le> 122 then char_of ((of_char c :: nat) - 32) else c)"

fun to_upper :: "string \<Rightarrow> string" where
  "to_upper [] = []"
| "to_upper (c # s) =
     (if c = CHR 0xC4 \<and> has_prefix s [CHR 0xB1] then CHR ''I'' # to_upper (drop 1 s)
      else if c = CHR 0xC5 \<and> has_prefix s [CHR 0xBF] then CHR ''S'' # to_upper (drop 1 s)
      else upper c # to_upper s)"

end
