(* ===== verification/Unmarshal.thy ===== *)
theory Unmarshal
  imports Json Strconv
begin

text \<open>
  \<open>json.Unmarshal\<close> of a parsed value into Go data. A decoder takes the value and what the variable
  holds, and gives what it holds then; \<open>None\<close> is the type error. \<open>null\<close> leaves a scalar or a struct as it
  is and makes a slice, map or pointer nil. A key of an object goes to the field it names,
  or else to the one it names but for the case; a key without a field is skipped, or refused by a strict
  decoder (\<open>DisallowUnknownFields\<close>). Of a key written twice each occurrence is decoded in turn;
  the elements of a slice always start from zero here, where Go would reuse those of the earlier
  occurrence.
\<close>

type_synonym 'a dec = "json \<Rightarrow> 'a \<Rightarrow> 'a option"

fun d_str :: "string dec" where
  "d_str (JStr s) x = Some s"
| "d_str JNull x = Some x"
| "d_str _ x = None"

fun d_bool :: "bool dec" where
  "d_bool (JBool b) x = Some b"
| "d_bool JNull x = Some x"
| "d_bool _ x = None"

fun d_int :: "nat \<Rightarrow> int dec" where
  "d_int bits (JNum n) x = parse_int bits n"
| "d_int bits JNull x = Some x"
| "d_int bits _ x = None"

fun d_port :: "16 word dec" where
  "d_port (JNum n) x = map_option of_nat (parse_uint 16 n)"
| "d_port JNull x = Some x"
| "d_port _ x = None"

fun all_some :: "'a option list \<Rightarrow> 'a list option" where
  "all_some [] = Some []"
| "all_some (x # xs) = (case (x, all_some xs) of (Some y, Some ys) \<Rightarrow> Some (y # ys) | _ \<Rightarrow> None)"

text \<open>A slice, with nil kept apart from the empty one and not; a map; a pointer.\<close>

fun d_slice :: "'a dec \<Rightarrow> 'a \<Rightarrow> 'a list option dec" where
  "d_slice d z (JArr js) x = map_option Some (all_some (map (\<lambda>j. d j z) js))"
| "d_slice d z JNull x = Some None"
| "d_slice d z _ x = None"

fun d_list :: "'a dec \<Rightarrow> 'a \<Rightarrow> 'a list dec" where
  "d_list d z (JArr js) x = all_some (map (\<lambda>j. d j z) js)"
| "d_list d z JNull x = Some []"
| "d_list d z _ x = None"

fun put_members :: "'a dec \<Rightarrow> 'a \<Rightarrow> (string \<times> json) list \<Rightarrow> (string \<times> 'a) list \<Rightarrow> (string \<times> 'a) list option" where
  "put_members d z [] m = Some m"
| "put_members d z ((k, j) # ms) m = (case d j z of None \<Rightarrow> None | Some v \<Rightarrow> put_members d z ms (mput k v m))"

fun d_map :: "'a dec \<Rightarrow> 'a \<Rightarrow> (string \<times> 'a) list option dec" where
  "d_map d z (JObj ms) x = map_option Some (put_members d z ms (case x of None \<Rightarrow> [] | Some m \<Rightarrow> m))"
| "d_map d z JNull x = Some None"
| "d_map d z _ x = None"

definition d_ptr :: "'a dec \<Rightarrow> 'a \<Rightarrow> 'a option dec" where
  "d_ptr d z j x = (if j = JNull then Some None else map_option Some (d j (case x of None \<Rightarrow> z | Some y \<Rightarrow> y)))"

section \<open>Structs\<close>

text \<open>\<open>foldName\<close>: upper case, and the two runes whose case folding reaches ASCII.\<close>

fun fold_name :: "string \<Rightarrow> string" where
  "fold_name [] = []"
| "fold_name (c # s) =
     (if c = CHR 0xC5 \<and> has_prefix s [CHR 0xBF] then CHR ''S'' # fold_name (drop 1 s)
      else if c = CHR 0xE2 \<and> has_prefix s [CHR 0x84, CHR 0xAA] then CHR ''K'' # fold_name (drop 2 s)
      else upper c # fold_name s)"

type_synonym 'r fields = "(string \<times> (json \<Rightarrow> 'r \<Rightarrow> 'r option)) list"

definition field_for :: "'r fields \<Rightarrow> string \<Rightarrow> (json \<Rightarrow> 'r \<Rightarrow> 'r option) option" where
  "field_for fs k = (case map_of fs k of Some f \<Rightarrow> Some f
     | None \<Rightarrow> map_of (map (\<lambda>(n, f). (fold_name n, f)) fs) (fold_name k))"

text \<open>A field: how it is decoded, read and set.\<close>

definition fld :: "'a dec \<Rightarrow> ('r \<Rightarrow> 'a) \<Rightarrow> (('a \<Rightarrow> 'a) \<Rightarrow> 'r \<Rightarrow> 'r) \<Rightarrow> json \<Rightarrow> 'r \<Rightarrow> 'r option" where
  "fld d get upd j r = map_option (\<lambda>x. upd (\<lambda>_. x) r) (d j (get r))"

fun d_members :: "bool \<Rightarrow> 'r fields \<Rightarrow> (string \<times> json) list \<Rightarrow> 'r \<Rightarrow> 'r option" where
  "d_members strict fs [] r = Some r"
| "d_members strict fs ((k, j) # ms) r = (case field_for fs k of
     None \<Rightarrow> if strict then None else d_members strict fs ms r
   | Some f \<Rightarrow> (case f j r of None \<Rightarrow> None | Some r \<Rightarrow> d_members strict fs ms r))"

fun d_struct :: "bool \<Rightarrow> 'r fields \<Rightarrow> 'r dec" where
  "d_struct strict fs (JObj ms) r = d_members strict fs ms r"
| "d_struct strict fs JNull r = Some r"
| "d_struct strict fs _ r = None"

text \<open>\<open>json.Unmarshal\<close> of a text: the whole of it is one value, of the type.\<close>

definition unmarshal :: "'a dec \<Rightarrow> string \<Rightarrow> 'a \<Rightarrow> 'a option" where
  "unmarshal d s x = (case parse s of None \<Rightarrow> None | Some j \<Rightarrow> d j x)"

section \<open>Lemmas\<close>

named_theorems decode_simps \<open>decoding what was encoded\<close>

lemma d_members_append:
  "d_members b fs (ms @ ms') r = (case d_members b fs ms r of None \<Rightarrow> None | Some r \<Rightarrow> d_members b fs ms' r)"
proof (induction ms arbitrary: r)
  case (Cons m ms)
  obtain k j where "m = (k, j)" by fastforce
  then show ?case using Cons by (auto split: option.splits)
qed simp

lemma all_some_map: "(\<And>x. x \<in> set xs \<Longrightarrow> f x = Some (g x)) \<Longrightarrow> all_some (map f xs) = Some (map g xs)"
  by (induction xs) simp_all

lemma all_some_id: "(\<And>x. x \<in> set xs \<Longrightarrow> f x = Some x) \<Longrightarrow> all_some (map f xs) = Some xs"
  using all_some_map [of xs f "\<lambda>x. x"] by simp

lemma d_int_json [decode_simps]: "in_int64 i \<Longrightarrow> d_int 64 (json_int i) x = Some i"
  by (simp add: json_int_def parse_int_show min_int64_def max_int64_def)

lemma d_port_json [decode_simps]: "d_port (json_int (uint p)) x = Some p"
proof -
  have "unat p < 2 ^ 16" using unsigned_less [of p] by simp
  then show ?thesis by (simp add: json_int_def show_int_def parse_uint_show)
qed

lemma mput_new: "k \<notin> fst ` set m \<Longrightarrow> mput k v m = m @ [(k, v)]"
  by (induction m) (auto simp: mput_def)

lemma put_members_sorted:
  assumes "distinct (map fst ms @ map fst m)"
  shows "put_members d_str [] (map (\<lambda>(k, v). (k, JStr v)) ms) m = Some (m @ ms)"
  using assms
proof (induction ms arbitrary: m)
  case (Cons kv ms)
  obtain k v where kv: "kv = (k, v)" by fastforce
  have "mput k v m = m @ [(k, v)]" using Cons(2) kv
    by (simp add: mput_new)
  then show ?case using Cons kv by simp
qed simp

end
