(* ===== verification/SpecJson.thy ===== *)
theory SpecJson
  imports SupervisorState Unmarshal
begin

text \<open>
  The JSON of a spec and of a record: the text on disk, and the text the runtime part is hashed
  from. \<open>spec_json\<close> and \<open>record_json\<close> are the struct tags of package spec and of \<open>store.Record\<close>;
  \<open>read_record\<close> is \<open>json.Unmarshal\<close> into a \<open>Record\<close>; \<open>Hash\<close> is \<open>Spec.Hash\<close> over a digest.
\<close>

section \<open>Writing\<close>

text \<open>A field of a struct, and one with \<open>omitempty\<close>.\<close>

definition omit :: "bool \<Rightarrow> string \<Rightarrow> json \<Rightarrow> (string \<times> json) list" where
  "omit none k j = (if none then [] else [(k, j)])"

definition strs :: "string list \<Rightarrow> json" where
  "strs xs = JArr (map JStr xs)"

text \<open>A slice or map that may be nil: nil is \<open>null\<close>. A map is written with its keys sorted.\<close>

definition or_null :: "('a list \<Rightarrow> json) \<Rightarrow> 'a list option \<Rightarrow> json" where
  "or_null f xs = (case xs of None \<Rightarrow> JNull | Some ys \<Rightarrow> f ys)"

definition str_map :: "(string \<times> string) list \<Rightarrow> json" where
  "str_map m = JObj (map (\<lambda>k. (k, JStr (str_at m k))) (sorted_keys m))"

definition port_json :: "port \<Rightarrow> json" where
  "port_json p = JObj [(''host'', json_int (uint (pHost p))), (''container'', json_int (uint (pContainer p))),
     (''protocol'', JStr (pProtocol p))]"

definition volume_json :: "volume \<Rightarrow> json" where
  "volume_json v = JObj ([(''host'', JStr (vHost v)), (''container'', JStr (vContainer v)), (''read_only'', JBool (vReadOnly v))]
     @ omit (\<not> vMake v) ''make'' (JBool (vMake v)))"

definition device_json :: "device \<Rightarrow> json" where
  "device_json d = JObj [(''host'', JStr (dvHost d)), (''container'', JStr (dvContainer d)), (''permissions'', JStr (dvPermissions d))]"

definition limits_json :: "limits \<Rightarrow> json" where
  "limits_json l = JObj (omit (lPids l = 0) ''pids'' (json_int (lPids l)) @ omit (lMemory l = []) ''memory'' (JStr (lMemory l))
     @ omit (lCPU l = []) ''cpu'' (JStr (lCPU l)))"

definition restart_json :: "restart \<Rightarrow> json" where
  "restart_json r = JObj [(''policy'', JStr (rPolicy r)), (''max_restarts'', json_int (rMaxRestarts r))]"

definition health_json :: "health \<Rightarrow> json" where
  "health_json h = JObj [(''command'', strs (hCommand h)), (''interval_seconds'', json_int (hIntervalSeconds h)),
     (''timeout_seconds'', json_int (hTimeoutSeconds h)), (''retries'', json_int (hRetries h)),
     (''start_period_seconds'', json_int (hStartPeriodSeconds h))]"

definition dependency_json :: "dependency \<Rightarrow> json" where
  "dependency_json d = JObj [(''name'', JStr (dName d)), (''ready'', JStr (dReady d))]"

text \<open>The \<open>json\<close> tags of \<open>Spec\<close>, in the order of its fields.\<close>

definition spec_json :: "spec \<Rightarrow> json" where
  "spec_json s = JObj (
     [(''name'', JStr (sName s)), (''project'', JStr (sProject s)), (''service'', JStr (sService s)), (''image'', JStr (sImage s))]
     @ omit (sEntrypoint s = []) ''entrypoint'' (strs (sEntrypoint s))
     @ omit (sUser s = []) ''user'' (JStr (sUser s))
     @ omit (sWorkingDir s = []) ''working_dir'' (JStr (sWorkingDir s))
     @ omit (elems (sCommand s) = []) ''command'' (strs (elems (sCommand s)))
     @ omit (elems (sEnvironment s) = []) ''environment'' (str_map (elems (sEnvironment s)))
     @ omit (sPublish s = []) ''publish'' (JArr (map port_json (sPublish s)))
     @ omit (elems (sVolumes s) = []) ''volumes'' (JArr (map volume_json (elems (sVolumes s))))
     @ omit (sNetwork s = []) ''network'' (JStr (sNetwork s))
     @ omit (sAliases s = []) ''aliases'' (strs (sAliases s))
     @ omit (sNetworkMode s = []) ''network_mode'' (JStr (sNetworkMode s))
     @ omit (sCapAdd s = []) ''cap_add'' (strs (sCapAdd s))
     @ omit (sCapDrop s = []) ''cap_drop'' (strs (sCapDrop s))
     @ omit (sDevices s = []) ''devices'' (JArr (map device_json (sDevices s)))
     @ omit (sDeviceCgroupRules s = []) ''device_cgroup_rules'' (strs (sDeviceCgroupRules s))
     @ [(''limits'', limits_json (sLimits s)), (''restart'', restart_json (sRestart s))]
     @ (case sHealth s of None \<Rightarrow> [] | Some h \<Rightarrow> [(''health'', health_json h)])
     @ omit (sDependsOn s = []) ''depends_on'' (JArr (map dependency_json (sDependsOn s))))"

definition record_json :: "store_record \<Rightarrow> json" where
  "record_json r = JObj [(''spec'', spec_json (recSpec r)), (''desired'', JStr (recDesired r))]"

section \<open>The hash\<close>

text \<open>The struct \<open>runtime\<close> of a normalized spec, as JSON: \<open>command\<close>, \<open>environment\<close> and \<open>volumes\<close> are written when nil.\<close>

definition runtime_json :: "spec \<Rightarrow> json" where
  "runtime_json n = JObj (
     [(''image'', JStr (sImage n))]
     @ omit (sEntrypoint n = []) ''entrypoint'' (strs (sEntrypoint n))
     @ omit (sUser n = []) ''user'' (JStr (sUser n))
     @ omit (sWorkingDir n = []) ''working_dir'' (JStr (sWorkingDir n))
     @ [(''command'', or_null strs (sCommand n)), (''environment'', or_null str_map (sEnvironment n)),
        (''publish'', JArr (map port_json (sPublish n))),
        (''volumes'', or_null (\<lambda>vs. JArr (map volume_json vs)) (sVolumes n))]
     @ omit (sNetwork n = []) ''network'' (JStr (sNetwork n))
     @ omit (sAliases n = []) ''aliases'' (strs (sAliases n))
     @ omit (sNetworkMode n = []) ''network_mode'' (JStr (sNetworkMode n))
     @ omit (sCapAdd n = []) ''cap_add'' (strs (sCapAdd n))
     @ omit (sCapDrop n = []) ''cap_drop'' (strs (sCapDrop n))
     @ omit (sDevices n = []) ''devices'' (JArr (map device_json (sDevices n)))
     @ omit (sDeviceCgroupRules n = []) ''device_cgroup_rules'' (strs (sDeviceCgroupRules n))
     @ omit (sProject n = []) ''project'' (JStr (sProject n))
     @ [(''limits'', limits_json (sLimits n)),
        (''health'', case sHealth n of None \<Rightarrow> JNull | Some h \<Rightarrow> health_json h)])"

text \<open>\<open>digest\<close> is \<open>sha256\<close> of a text, in hexadecimal.\<close>

definition runtime_text :: "spec \<Rightarrow> string" where
  "runtime_text s = marshal (runtime_json (normalized s))"

definition Hash :: "(string \<Rightarrow> string) \<Rightarrow> spec \<Rightarrow> string" where
  "Hash digest s = digest (runtime_text s)"

subsection \<open>What the hash determines\<close>

fun utf8_json :: "json \<Rightarrow> bool" where
  "utf8_json (JStr s) \<longleftrightarrow> utf8 s"
| "utf8_json (JArr js) \<longleftrightarrow> list_all utf8_json js"
| "utf8_json (JObj ms) \<longleftrightarrow> list_all (\<lambda>(k, v). utf8 k \<and> utf8_json v) ms"
| "utf8_json j \<longleftrightarrow> True"

lemma clean_json_id: "utf8_json j \<Longrightarrow> clean_json j = j"
proof (induction j rule: clean_json.induct)
  case (3 ms)
  have "(to_utf8 k, clean_json v) = (k, v)" if "(k, v) \<in> set ms" for k v
    using 3 that by (auto simp: list_all_iff to_utf8_id)
  then show ?case by (auto intro!: map_idI)
qed (auto simp: to_utf8_id list_all_iff intro!: map_idI)

lemma marshal_inj:
  assumes "marshal j = marshal j'" and "integral j" "integral j'" and "utf8_json j" "utf8_json j'"
  shows "j = j'"
  using parse_encode [of j "[]" None] parse_encode [of j' "[]" None] assms
  by (simp add: skip_def clean_json_id)

definition member :: "json \<Rightarrow> string \<Rightarrow> json option" where
  "member j k = (case j of JObj ms \<Rightarrow> map_of ms k | _ \<Rightarrow> None)"

lemma map_of_omit [simp]: "map_of (omit b k j) x = (if \<not> b \<and> x = k then Some j else None)"
  by (simp add: omit_def)

lemma integral_simps [simp]:
  "integral (strs xs)" "integral (json_int i)" "integral (str_map m)" "integral (port_json p)" "integral (volume_json v)"
  "integral (device_json d)" "integral (limits_json l)" "integral (health_json h)" "integral (dependency_json dp)" "integral (restart_json r)"
  "list_all (\<lambda>(k, v). integral v) (omit b k j) \<longleftrightarrow> b \<or> integral j"
  by (auto simp: strs_def json_int_def str_map_def port_json_def volume_json_def device_json_def limits_json_def
      health_json_def dependency_json_def restart_json_def omit_def list_all_iff)

lemma integral_runtime: "integral (runtime_json n)"
  by (auto simp: runtime_json_def or_null_def list_all_iff [of integral] split: option.splits)

lemma integral_record: "integral (record_json r)"
  by (auto simp: record_json_def spec_json_def list_all_iff [of integral] split: option.splits)

lemma show_int_inj: "show_int i = show_int j \<longleftrightarrow> i = j"
proof -
  have "(case sign_of (show_int i) of (neg, t) \<Rightarrow> if neg then - int (read_nat t) else int (read_nat t)) = i" for i
    by (simp add: sign_of_show read_show_nat)
  then show ?thesis by metis
qed

lemma map_inj: "map f xs = map f ys \<Longrightarrow> (\<And>x y. f x = f y \<Longrightarrow> x = y) \<Longrightarrow> xs = ys"
  by (metis inj_map_eq_map inj_on_def)

lemma json_int_inj: "json_int i = json_int j \<longleftrightarrow> i = j"
  by (simp add: json_int_def show_int_inj)

lemma strs_inj: "strs xs = strs ys \<longleftrightarrow> xs = ys"
  by (auto simp: strs_def dest: map_inj)

lemma port_json_inj: "port_json p = port_json q \<Longrightarrow> p = q"
  by (simp add: port_json_def json_int_inj word_uint_eq_iff)

lemma volume_json_inj: "volume_json v = volume_json w \<Longrightarrow> v = w"
  by (auto simp: volume_json_def omit_def split: if_splits)

lemma device_json_inj: "device_json d = device_json e \<Longrightarrow> d = e"
  by (simp add: device_json_def)

lemma limits_json_inj: "limits_json l = limits_json m \<Longrightarrow> l = m"
  by (auto simp: limits_json_def omit_def json_int_inj split: if_splits)

lemma health_json_inj: "health_json h = health_json k \<Longrightarrow> h = k"
  by (simp add: health_json_def json_int_inj strs_inj)

lemma str_map_sorted: "str_map m = str_map m' \<Longrightarrow> sorted_keys m = sorted_keys m' \<and> (\<forall>k \<in> set (sorted_keys m). str_at m k = str_at m' k)"
proof -
  assume "str_map m = str_map m'"
  then have e: "map (\<lambda>k. (k, JStr (str_at m k))) (sorted_keys m) = map (\<lambda>k. (k, JStr (str_at m' k))) (sorted_keys m')"
    by (simp add: str_map_def)
  then have "map fst (map (\<lambda>k. (k, JStr (str_at m k))) (sorted_keys m)) = map fst (map (\<lambda>k. (k, JStr (str_at m' k))) (sorted_keys m'))" by simp
  then have "sorted_keys m = sorted_keys m'" by (simp add: comp_def)
  then show ?thesis using e by simp
qed

text \<open>The part of a normalized spec the container is created from, up to what podman cannot tell apart: nil and empty.\<close>

definition same_runtime :: "spec \<Rightarrow> spec \<Rightarrow> bool" where
  "same_runtime n m \<longleftrightarrow>
     sImage n = sImage m \<and> sEntrypoint n = sEntrypoint m \<and> sUser n = sUser m \<and> sWorkingDir n = sWorkingDir m
   \<and> elems (sCommand n) = elems (sCommand m)
   \<and> sorted_keys (elems (sEnvironment n)) = sorted_keys (elems (sEnvironment m))
   \<and> (\<forall>k \<in> set (sorted_keys (elems (sEnvironment n))). str_at (elems (sEnvironment n)) k = str_at (elems (sEnvironment m)) k)
   \<and> sPublish n = sPublish m \<and> elems (sVolumes n) = elems (sVolumes m)
   \<and> sNetwork n = sNetwork m \<and> sAliases n = sAliases m \<and> sNetworkMode n = sNetworkMode m
   \<and> sCapAdd n = sCapAdd m \<and> sCapDrop n = sCapDrop m \<and> sDevices n = sDevices m
   \<and> sDeviceCgroupRules n = sDeviceCgroupRules m \<and> sProject n = sProject m
   \<and> sLimits n = sLimits m \<and> sHealth n = sHealth m"

lemma or_null_strs: "or_null strs x = or_null strs y \<Longrightarrow> elems x = elems y"
  by (cases x; cases y) (auto simp: or_null_def strs_inj, auto simp: strs_def)

lemma or_null_volumes: "or_null (\<lambda>vs. JArr (map volume_json vs)) x = or_null (\<lambda>vs. JArr (map volume_json vs)) y \<Longrightarrow> elems x = elems y"
  by (cases x; cases y) (auto simp: or_null_def dest: map_inj volume_json_inj)

lemma or_null_map: "or_null str_map x = or_null str_map y \<Longrightarrow>
  sorted_keys (elems x) = sorted_keys (elems y) \<and> (\<forall>k \<in> set (sorted_keys (elems x)). str_at (elems x) k = str_at (elems y) k)"
proof -
  assume e: "or_null str_map x = or_null str_map y"
  have "str_map m \<noteq> JNull" for m by (simp add: str_map_def)
  then have "x = y \<or> (\<exists>m m'. x = Some m \<and> y = Some m' \<and> str_map m = str_map m')"
    using e by (cases x; cases y) (simp_all add: or_null_def, metis+)
  then show ?thesis
  proof (elim disjE exE conjE)
    fix m m'
    assume "x = Some m" "y = Some m'" "str_map m = str_map m'"
    then show ?thesis using str_map_sorted [of m m'] by (simp del: set_sorted_keys)
  qed simp
qed

lemma case_option_id [simp]: "(case x of None \<Rightarrow> None | Some y \<Rightarrow> Some y) = x"
  by (cases x) simp_all

lemma runtime_json_same:
  assumes "runtime_json n = runtime_json m" shows "same_runtime n m"
proof -
  have m: "member (runtime_json n) k = member (runtime_json m) k" for k using assms by simp
  note ms = runtime_json_def member_def map_add_def
  have str: "(if \<not> x = [] then Some (JStr x) else None) = (if \<not> y = [] then Some (JStr y) else None) \<Longrightarrow> x = y" for x y
    by (simp split: if_splits)
  have lst: "(if \<not> x = [] then Some (strs x) else None) = (if \<not> y = [] then Some (strs y) else None) \<Longrightarrow> x = y" for x y
    by (simp add: strs_inj split: if_splits)
  have "sImage n = sImage m" using m [of "''image''"] by (simp add: ms cong: option.case_cong)
  moreover have "sEntrypoint n = sEntrypoint m" using m [of "''entrypoint''"] by (intro lst) (simp add: ms cong: option.case_cong)
  moreover have "sUser n = sUser m" using m [of "''user''"] by (intro str) (simp add: ms cong: option.case_cong)
  moreover have "sWorkingDir n = sWorkingDir m" using m [of "''working_dir''"] by (intro str) (simp add: ms cong: option.case_cong)
  moreover have "elems (sCommand n) = elems (sCommand m)" using m [of "''command''"] by (intro or_null_strs) (simp add: ms cong: option.case_cong)
  moreover have "or_null str_map (sEnvironment n) = or_null str_map (sEnvironment m)" using m [of "''environment''"] by (simp add: ms cong: option.case_cong)
  note or_null_map [OF this]
  moreover have "map port_json (sPublish n) = map port_json (sPublish m)" using m [of "''publish''"] by (simp add: ms cong: option.case_cong)
  note map_inj [OF this port_json_inj]
  moreover have "elems (sVolumes n) = elems (sVolumes m)" using m [of "''volumes''"] by (intro or_null_volumes) (simp add: ms cong: option.case_cong)
  moreover have "sNetwork n = sNetwork m" using m [of "''network''"] by (intro str) (simp add: ms cong: option.case_cong)
  moreover have "sAliases n = sAliases m" using m [of "''aliases''"] by (intro lst) (simp add: ms cong: option.case_cong)
  moreover have "sNetworkMode n = sNetworkMode m" using m [of "''network_mode''"] by (intro str) (simp add: ms cong: option.case_cong)
  moreover have "sCapAdd n = sCapAdd m" using m [of "''cap_add''"] by (intro lst) (simp add: ms cong: option.case_cong)
  moreover have "sCapDrop n = sCapDrop m" using m [of "''cap_drop''"] by (intro lst) (simp add: ms cong: option.case_cong)
  moreover have "map device_json (sDevices n) = map device_json (sDevices m)" using m [of "''devices''"]
    by (simp add: ms split: if_splits cong: option.case_cong)
  note map_inj [OF this device_json_inj]
  moreover have "sDeviceCgroupRules n = sDeviceCgroupRules m" using m [of "''device_cgroup_rules''"] by (intro lst) (simp add: ms cong: option.case_cong)
  moreover have "sProject n = sProject m" using m [of "''project''"] by (intro str) (simp add: ms cong: option.case_cong)
  moreover have "sLimits n = sLimits m" using m [of "''limits''"] by (intro limits_json_inj) (simp add: ms cong: option.case_cong)
  moreover have "sHealth n = sHealth m" using m [of "''health''"]
    by (auto simp: ms health_json_def json_int_inj strs_inj split: option.splits)
  ultimately show ?thesis unfolding same_runtime_def by blast
qed

text \<open>Every string of the spec is UTF-8: its JSON loses nothing.\<close>

definition utf8_spec :: "spec \<Rightarrow> bool" where
  "utf8_spec s \<longleftrightarrow> utf8_json (spec_json s)"

lemma utf8_ascii [simp]: "byte c < 0x80 \<Longrightarrow> utf8 (c # s) \<longleftrightarrow> utf8 s"
  by (simp add: rune_ascii)

declare utf8.simps(2) [simp del]

lemma utf8_json_omit [simp]:
  "list_all (\<lambda>(k, v). utf8 k \<and> utf8_json v) (omit b k j) \<longleftrightarrow> b \<or> utf8 k \<and> utf8_json j"
  by (simp add: omit_def)

lemma utf8_show_int [simp]: "utf8_json (json_int i)"
  by (simp add: json_int_def)

lemma utf8_or_null:
  "elems x = [] \<or> utf8_json (f (elems x)) \<Longrightarrow> utf8_json (f []) \<Longrightarrow> utf8_json (or_null f x)"
  by (cases x) (auto simp: or_null_def)

lemma utf8_port: "utf8_json (port_json p) \<Longrightarrow> utf8_json (port_json (normalized_port p))"
  by (auto simp: port_json_def normalized_port_def rune_ascii)

lemma utf8_health: "utf8_json (health_json h) \<Longrightarrow> utf8_json (health_json (normalized_health h))"
  by (simp add: health_json_def normalized_health_def Let_def)

lemma utf8_runtime: "utf8_spec s \<Longrightarrow> utf8_json (runtime_json (normalized s))"
proof -
  assume a: "utf8_spec s"
  have n: "utf8_json (strs [])" "utf8_json (str_map [])" "utf8_json (JArr (map volume_json []))"
    by (simp_all add: strs_def str_map_def sorted_keys_def)
  have c: "utf8_json (or_null strs (sCommand s))" "utf8_json (or_null str_map (sEnvironment s))"
    "utf8_json (or_null (\<lambda>vs. JArr (map volume_json vs)) (sVolumes s))"
    by (rule utf8_or_null, use a n in \<open>simp_all add: utf8_spec_def spec_json_def\<close>)+
  have p: "list_all utf8_json (map port_json (map normalized_port (sPublish s)))"
  proof -
    have "list_all utf8_json (map port_json (sPublish s))"
      using a by (cases "sPublish s = []") (simp_all add: utf8_spec_def spec_json_def)
    then show ?thesis by (auto simp: list_all_iff utf8_port)
  qed
  have h: "utf8_json (case map_option normalized_health (sHealth s) of None \<Rightarrow> JNull | Some h \<Rightarrow> health_json h)"
    using a utf8_health by (cases "sHealth s") (simp_all add: utf8_spec_def spec_json_def)
  show ?thesis using a c p h by (simp add: utf8_spec_def spec_json_def runtime_json_def)
qed

section \<open>Reading\<close>

definition port_fields :: "port fields" where
  "port_fields = [(''host'', fld d_port pHost pHost_update), (''container'', fld d_port pContainer pContainer_update),
     (''protocol'', fld d_str pProtocol pProtocol_update)]"

definition volume_fields :: "volume fields" where
  "volume_fields = [(''host'', fld d_str vHost vHost_update), (''container'', fld d_str vContainer vContainer_update),
     (''read_only'', fld d_bool vReadOnly vReadOnly_update), (''make'', fld d_bool vMake vMake_update)]"

definition device_fields :: "device fields" where
  "device_fields = [(''host'', fld d_str dvHost dvHost_update), (''container'', fld d_str dvContainer dvContainer_update),
     (''permissions'', fld d_str dvPermissions dvPermissions_update)]"

definition limits_fields :: "limits fields" where
  "limits_fields = [(''pids'', fld (d_int 64) lPids lPids_update), (''memory'', fld d_str lMemory lMemory_update),
     (''cpu'', fld d_str lCPU lCPU_update)]"

definition restart_fields :: "restart fields" where
  "restart_fields = [(''policy'', fld d_str rPolicy rPolicy_update), (''max_restarts'', fld (d_int 64) rMaxRestarts rMaxRestarts_update)]"

definition health_fields :: "health fields" where
  "health_fields = [(''command'', fld (d_list d_str []) hCommand hCommand_update),
     (''interval_seconds'', fld (d_int 64) hIntervalSeconds hIntervalSeconds_update),
     (''timeout_seconds'', fld (d_int 64) hTimeoutSeconds hTimeoutSeconds_update),
     (''retries'', fld (d_int 64) hRetries hRetries_update),
     (''start_period_seconds'', fld (d_int 64) hStartPeriodSeconds hStartPeriodSeconds_update)]"

definition dependency_fields :: "dependency fields" where
  "dependency_fields = [(''name'', fld d_str dName dName_update), (''ready'', fld d_str dReady dReady_update)]"

definition zero_port :: port where "zero_port = \<lparr>pHost = 0, pContainer = 0, pProtocol = []\<rparr>"
definition zero_volume :: volume where "zero_volume = \<lparr>vHost = [], vContainer = [], vReadOnly = False, vMake = False\<rparr>"
definition zero_device :: device where "zero_device = \<lparr>dvHost = [], dvContainer = [], dvPermissions = []\<rparr>"
definition zero_dependency :: dependency where "zero_dependency = \<lparr>dName = [], dReady = []\<rparr>"
definition zero_health :: health where
  "zero_health = \<lparr>hCommand = [], hIntervalSeconds = 0, hTimeoutSeconds = 0, hRetries = 0, hStartPeriodSeconds = 0\<rparr>"

definition spec_fields :: "spec fields" where
  "spec_fields = [
     (''name'', fld d_str sName sName_update), (''project'', fld d_str sProject sProject_update),
     (''service'', fld d_str sService sService_update), (''image'', fld d_str sImage sImage_update),
     (''entrypoint'', fld (d_list d_str []) sEntrypoint sEntrypoint_update), (''user'', fld d_str sUser sUser_update),
     (''working_dir'', fld d_str sWorkingDir sWorkingDir_update),
     (''command'', fld (d_slice d_str []) sCommand sCommand_update),
     (''environment'', fld (d_map d_str []) sEnvironment sEnvironment_update),
     (''publish'', fld (d_list (d_struct False port_fields) zero_port) sPublish sPublish_update),
     (''volumes'', fld (d_slice (d_struct False volume_fields) zero_volume) sVolumes sVolumes_update),
     (''network'', fld d_str sNetwork sNetwork_update),
     (''aliases'', fld (d_list d_str []) sAliases sAliases_update),
     (''network_mode'', fld d_str sNetworkMode sNetworkMode_update),
     (''cap_add'', fld (d_list d_str []) sCapAdd sCapAdd_update),
     (''cap_drop'', fld (d_list d_str []) sCapDrop sCapDrop_update),
     (''devices'', fld (d_list (d_struct False device_fields) zero_device) sDevices sDevices_update),
     (''device_cgroup_rules'', fld (d_list d_str []) sDeviceCgroupRules sDeviceCgroupRules_update),
     (''limits'', fld (d_struct False limits_fields) sLimits sLimits_update),
     (''restart'', fld (d_struct False restart_fields) sRestart sRestart_update),
     (''health'', fld (d_ptr (d_struct False health_fields) zero_health) sHealth sHealth_update),
     (''depends_on'', fld (d_list (d_struct False dependency_fields) zero_dependency) sDependsOn sDependsOn_update)]"

definition record_fields :: "store_record fields" where
  "record_fields = [(''spec'', fld (d_struct False spec_fields) recSpec recSpec_update),
     (''desired'', fld d_str recDesired recDesired_update)]"

definition zero_record :: store_record where
  "zero_record = \<lparr>recSpec = zero_spec, recDesired = []\<rparr>"

definition read_record :: "string \<Rightarrow> store_record option" where
  "read_record b = unmarshal (d_struct False record_fields) b zero_record"

subsection \<open>What was written is read back\<close>

text \<open>The integers of a spec fit Go's; a Go map has each key once.\<close>

definition machine_spec :: "spec \<Rightarrow> bool" where
  "machine_spec s \<longleftrightarrow> in_int64 (lPids (sLimits s)) \<and> in_int64 (rMaxRestarts (sRestart s))
   \<and> (case sHealth s of None \<Rightarrow> True | Some h \<Rightarrow> in_int64 (hIntervalSeconds h) \<and> in_int64 (hTimeoutSeconds h)
        \<and> in_int64 (hRetries h) \<and> in_int64 (hStartPeriodSeconds h))
   \<and> distinct (map fst (elems (sEnvironment s)))"

text \<open>
  A spec as it comes back: an empty slice or map comes back nil, for it was omitted, and a map comes
  back in the order of its keys, which Go leaves open anyway.
\<close>

definition sorted_env :: "(string \<times> string) list \<Rightarrow> (string \<times> string) list" where
  "sorted_env m = map (\<lambda>k. (k, str_at m k)) (sorted_keys m)"

definition nil_if_empty :: "'a list option \<Rightarrow> 'a list option" where
  "nil_if_empty xs = (if elems xs = [] then None else xs)"

definition stored :: "spec \<Rightarrow> spec" where
  "stored s = s\<lparr>sCommand := nil_if_empty (sCommand s),
     sEnvironment := map_option sorted_env (nil_if_empty (sEnvironment s)), sVolumes := nil_if_empty (sVolumes s)\<rparr>"

named_theorems field_simps \<open>finding and setting the field of a key\<close>
declare field_for_def [field_simps] fld_def [field_simps]

lemma d_port_back: "d_struct b port_fields (port_json p) zero_port = Some p"
  by (simp add: port_fields_def port_json_def zero_port_def field_simps decode_simps)

lemma d_volume_back: "d_struct b volume_fields (volume_json v) zero_volume = Some v"
  by (cases "vMake v") (simp_all add: volume_fields_def volume_json_def zero_volume_def field_simps decode_simps omit_def)

lemma d_device_back: "d_struct b device_fields (device_json d) zero_device = Some d"
  by (simp add: device_fields_def device_json_def zero_device_def field_simps decode_simps)

lemma d_dependency_back: "d_struct b dependency_fields (dependency_json d) zero_dependency = Some d"
  by (simp add: dependency_fields_def dependency_json_def zero_dependency_def field_simps decode_simps)

lemma d_strs_back: "d_list d_str [] (strs xs) x = Some xs"
  using all_some_map [of xs "\<lambda>s. d_str (JStr s) []" "\<lambda>s. s"] by (simp add: strs_def comp_def)

lemma d_restart_back: "in_int64 (rMaxRestarts r) \<Longrightarrow> d_struct b restart_fields (restart_json r) x = Some r"
  by (cases x) (simp add: restart_fields_def restart_json_def field_simps decode_simps)

lemma d_health_back:
  "in_int64 (hIntervalSeconds h) \<Longrightarrow> in_int64 (hTimeoutSeconds h) \<Longrightarrow> in_int64 (hRetries h) \<Longrightarrow> in_int64 (hStartPeriodSeconds h) \<Longrightarrow>
   d_struct b health_fields (health_json h) zero_health = Some h"
  by (simp add: health_fields_def health_json_def zero_health_def field_simps decode_simps d_strs_back)

lemma d_limits_back: "in_int64 (lPids l) \<Longrightarrow> d_struct b limits_fields (limits_json l) \<lparr>lPids = 0, lMemory = [], lCPU = []\<rparr> = Some l"
  by (cases "lPids l = 0"; cases "lMemory l = []"; cases "lCPU l = []")
     (simp_all add: limits_fields_def limits_json_def field_simps decode_simps omit_def)

lemma d_list_back: "(\<And>x. d (j x) z = Some x) \<Longrightarrow> d_list d z (JArr (map j xs)) y = Some xs"
  using all_some_map [of xs "\<lambda>x. d (j x) z" "\<lambda>x. x"] by (simp add: comp_def)

lemma d_slice_back: "(\<And>x. d (j x) z = Some x) \<Longrightarrow> d_slice d z (JArr (map j xs)) y = Some (Some xs)"
  using all_some_map [of xs "\<lambda>x. d (j x) z" "\<lambda>x. x"] by (simp add: comp_def)

lemma d_env_back: "distinct (map fst m) \<Longrightarrow> d_map d_str [] (str_map m) None = Some (Some (sorted_env m))"
  using put_members_sorted [of "sorted_env m" "[]"] by (simp add: str_map_def sorted_env_def comp_def)

lemmas part_back = d_port_back d_volume_back d_device_back d_dependency_back d_strs_back d_restart_back d_health_back
  d_limits_back d_list_back d_slice_back d_env_back

text \<open>One omitted field: reading it sets it, for it is empty when it is left out.\<close>

lemma d_omit:
  assumes "field_for fs k = Some (fld d get upd)" and "\<not> c \<Longrightarrow> d j (get r) = Some x" and "c \<Longrightarrow> upd (\<lambda>_. x) r = r"
  shows "d_members b fs (omit c k j @ ms) r = d_members b fs ms (upd (\<lambda>_. x) r)"
  using assms by (simp add: omit_def fld_def)

lemma nil_if_empty_simps: "elems x = [] \<Longrightarrow> nil_if_empty x = None" "elems x \<noteq> [] \<Longrightarrow> nil_if_empty x = Some (elems x)"
  by (cases x; simp add: nil_if_empty_def)+

lemma d_slice_strs: "d_slice d_str [] (strs xs) y = Some (Some xs)"
  using d_slice_back [of d_str JStr "[]" xs y] by (simp add: strs_def)

lemma d_structs_back:
  "d_list (d_struct b port_fields) zero_port (JArr (map port_json ps)) y = Some ps"
  "d_list (d_struct b device_fields) zero_device (JArr (map device_json ds)) y' = Some ds"
  "d_list (d_struct b dependency_fields) zero_dependency (JArr (map dependency_json dps)) y'' = Some dps"
  "d_slice (d_struct b volume_fields) zero_volume (JArr (map volume_json vs)) z = Some (Some vs)"
  by (rule d_list_back d_slice_back, rule d_port_back d_device_back d_dependency_back d_volume_back)+

lemmas slices_back = d_slice_strs d_strs_back d_env_back d_structs_back

lemma omitted_fields:
  "sEntrypoint r = [] \<Longrightarrow> d_members b spec_fields (omit (sEntrypoint s = []) ''entrypoint'' (strs (sEntrypoint s)) @ ms) r = d_members b spec_fields ms (r\<lparr>sEntrypoint := sEntrypoint s\<rparr>)"
  "sUser r = [] \<Longrightarrow> d_members b spec_fields (omit (sUser s = []) ''user'' (JStr (sUser s)) @ ms) r = d_members b spec_fields ms (r\<lparr>sUser := sUser s\<rparr>)"
  "sWorkingDir r = [] \<Longrightarrow> d_members b spec_fields (omit (sWorkingDir s = []) ''working_dir'' (JStr (sWorkingDir s)) @ ms) r = d_members b spec_fields ms (r\<lparr>sWorkingDir := sWorkingDir s\<rparr>)"
  "sCommand r = None \<Longrightarrow> d_members b spec_fields (omit (elems (sCommand s) = []) ''command'' (strs (elems (sCommand s))) @ ms) r = d_members b spec_fields ms (r\<lparr>sCommand := nil_if_empty (sCommand s)\<rparr>)"
  "sEnvironment r = None \<Longrightarrow> distinct (map fst (elems (sEnvironment s))) \<Longrightarrow> d_members b spec_fields (omit (elems (sEnvironment s) = []) ''environment'' (str_map (elems (sEnvironment s))) @ ms) r = d_members b spec_fields ms (r\<lparr>sEnvironment := map_option sorted_env (nil_if_empty (sEnvironment s))\<rparr>)"
  "sPublish r = [] \<Longrightarrow> d_members b spec_fields (omit (sPublish s = []) ''publish'' (JArr (map port_json (sPublish s))) @ ms) r = d_members b spec_fields ms (r\<lparr>sPublish := sPublish s\<rparr>)"
  "sVolumes r = None \<Longrightarrow> d_members b spec_fields (omit (elems (sVolumes s) = []) ''volumes'' (JArr (map volume_json (elems (sVolumes s)))) @ ms) r = d_members b spec_fields ms (r\<lparr>sVolumes := nil_if_empty (sVolumes s)\<rparr>)"
  "sNetwork r = [] \<Longrightarrow> d_members b spec_fields (omit (sNetwork s = []) ''network'' (JStr (sNetwork s)) @ ms) r = d_members b spec_fields ms (r\<lparr>sNetwork := sNetwork s\<rparr>)"
  "sAliases r = [] \<Longrightarrow> d_members b spec_fields (omit (sAliases s = []) ''aliases'' (strs (sAliases s)) @ ms) r = d_members b spec_fields ms (r\<lparr>sAliases := sAliases s\<rparr>)"
  "sNetworkMode r = [] \<Longrightarrow> d_members b spec_fields (omit (sNetworkMode s = []) ''network_mode'' (JStr (sNetworkMode s)) @ ms) r = d_members b spec_fields ms (r\<lparr>sNetworkMode := sNetworkMode s\<rparr>)"
  "sCapAdd r = [] \<Longrightarrow> d_members b spec_fields (omit (sCapAdd s = []) ''cap_add'' (strs (sCapAdd s)) @ ms) r = d_members b spec_fields ms (r\<lparr>sCapAdd := sCapAdd s\<rparr>)"
  "sCapDrop r = [] \<Longrightarrow> d_members b spec_fields (omit (sCapDrop s = []) ''cap_drop'' (strs (sCapDrop s)) @ ms) r = d_members b spec_fields ms (r\<lparr>sCapDrop := sCapDrop s\<rparr>)"
  "sDevices r = [] \<Longrightarrow> d_members b spec_fields (omit (sDevices s = []) ''devices'' (JArr (map device_json (sDevices s))) @ ms) r = d_members b spec_fields ms (r\<lparr>sDevices := sDevices s\<rparr>)"
  "sDeviceCgroupRules r = [] \<Longrightarrow> d_members b spec_fields (omit (sDeviceCgroupRules s = []) ''device_cgroup_rules'' (strs (sDeviceCgroupRules s)) @ ms) r = d_members b spec_fields ms (r\<lparr>sDeviceCgroupRules := sDeviceCgroupRules s\<rparr>)"
  by ((rule d_omit, simp add: spec_fields_def field_for_def,
       simp add: slices_back nil_if_empty_simps del: d_list.simps d_slice.simps d_map.simps,
       cases r, simp add: nil_if_empty_simps)+)

lemma spec_field:
  "field_for spec_fields ''name'' = Some (fld d_str sName sName_update)"
  "field_for spec_fields ''project'' = Some (fld d_str sProject sProject_update)"
  "field_for spec_fields ''service'' = Some (fld d_str sService sService_update)"
  "field_for spec_fields ''image'' = Some (fld d_str sImage sImage_update)"
  "field_for spec_fields ''limits'' = Some (fld (d_struct False limits_fields) sLimits sLimits_update)"
  "field_for spec_fields ''restart'' = Some (fld (d_struct False restart_fields) sRestart sRestart_update)"
  "field_for spec_fields ''health'' = Some (fld (d_ptr (d_struct False health_fields) zero_health) sHealth sHealth_update)"
  "field_for spec_fields ''depends_on''
    = Some (fld (d_list (d_struct False dependency_fields) zero_dependency) sDependsOn sDependsOn_update)"
  by (simp_all add: spec_fields_def field_for_def)

lemma head_fields:
  "d_members b spec_fields ((''name'', JStr x) # ms) r = d_members b spec_fields ms (r\<lparr>sName := x\<rparr>)"
  "d_members b spec_fields ((''project'', JStr x) # ms) r = d_members b spec_fields ms (r\<lparr>sProject := x\<rparr>)"
  "d_members b spec_fields ((''service'', JStr x) # ms) r = d_members b spec_fields ms (r\<lparr>sService := x\<rparr>)"
  "d_members b spec_fields ((''image'', JStr x) # ms) r = d_members b spec_fields ms (r\<lparr>sImage := x\<rparr>)"
  by (simp_all add: spec_field fld_def)

lemma d_spec_back:
  assumes "machine_spec s"
  shows "d_struct b spec_fields (spec_json s) zero_spec = Some (stored s)"
proof -
  let ?h = "case sHealth s of None \<Rightarrow> [] | Some h \<Rightarrow> [(''health'', health_json h)]"
  let ?d = "omit (sDependsOn s = []) ''depends_on'' (JArr (map dependency_json (sDependsOn s)))"
  have deps: "d_members b spec_fields ?d r = Some (r\<lparr>sDependsOn := sDependsOn s\<rparr>)" if "sDependsOn r = []" for r
  proof -
    have "d_list (d_struct False dependency_fields) zero_dependency (JArr (map dependency_json (sDependsOn s))) (sDependsOn r) = Some (sDependsOn s)"
      by (rule d_list_back) (rule d_dependency_back)
    moreover have "r\<lparr>sDependsOn := sDependsOn s\<rparr> = r" if "sDependsOn s = []" using that \<open>sDependsOn r = []\<close> by (cases r) simp
    ultimately show ?thesis using d_omit [where ms = "[]" and b = b, OF spec_field(8), of "sDependsOn s = []"] by simp
  qed
  have health: "d_members b spec_fields (?h @ ?d) r = Some (r\<lparr>sHealth := sHealth s, sDependsOn := sDependsOn s\<rparr>)"
    if "sHealth r = None" "sDependsOn r = []" for r
  proof (cases "sHealth s")
    case None
    then show ?thesis using deps that by (cases r) simp
  next
    case (Some h)
    have "d_ptr (d_struct False health_fields) zero_health (health_json h) None = Some (Some h)"
      using Some assms d_health_back [of h False] by (simp add: machine_spec_def d_ptr_def health_json_def)
    then show ?thesis using Some deps that by (simp add: fld_def spec_field)
  qed
  have tail: "d_members b spec_fields ((''limits'', limits_json (sLimits s)) # (''restart'', restart_json (sRestart s)) # ?h @ ?d) r
      = Some (r\<lparr>sLimits := sLimits s, sRestart := sRestart s, sHealth := sHealth s, sDependsOn := sDependsOn s\<rparr>)"
    if "sHealth r = None" "sDependsOn r = []" "sLimits r = \<lparr>lPids = 0, lMemory = [], lCPU = []\<rparr>" for r
    using that assms health
    by (simp add: spec_field fld_def d_limits_back d_restart_back machine_spec_def del: d_struct.simps)
  have "distinct (map fst (elems (sEnvironment s)))" using assms by (simp add: machine_spec_def)
  then have "d_members b spec_fields (case spec_json s of JObj ms \<Rightarrow> ms | _ \<Rightarrow> []) zero_spec = Some (stored s)"
    by (simp add: spec_json_def zero_spec_def omitted_fields tail head_fields stored_def del: d_members.simps(2))
  then show ?thesis by (simp add: spec_json_def)
qed

text \<open>The text of a record's file.\<close>

definition record_text :: "store_record \<Rightarrow> string" where
  "record_text r = marshal_indent (record_json r) @ [CHR 0x0A]"

definition utf8_record :: "store_record \<Rightarrow> bool" where
  "utf8_record r \<longleftrightarrow> utf8_spec (recSpec r) \<and> utf8 (recDesired r)"

lemma read_record_text:
  assumes "utf8_record r" and "machine_spec (recSpec r)"
  shows "read_record (record_text r) = Some (r\<lparr>recSpec := stored (recSpec r)\<rparr>)"
proof -
  have "clean_json (record_json r) = record_json r"
    using assms(1) by (intro clean_json_id) (simp add: record_json_def utf8_record_def utf8_spec_def)
  then have "parse (record_text r) = Some (record_json r)"
    unfolding record_text_def by (subst parse_encode [OF integral_record]) (simp_all add: skip_def space_def)
  then show ?thesis using d_spec_back [OF assms(2), of False]
    by (simp add: read_record_def unmarshal_def record_json_def record_fields_def field_simps zero_record_def del: d_struct.simps(1))
       (simp add: record_fields_def field_simps)
qed

lemma sorted_env_keys: "sorted_keys (sorted_env m) = sorted_keys m"
  by (simp add: sorted_env_def sorted_keys_def comp_def sorted_sort_id)

lemma sorted_env_at: "k \<in> fst ` set m \<Longrightarrow> str_at (sorted_env m) k = str_at m k"
  unfolding sorted_env_def by (subst str_at_def) (simp add: map_of_map_restrict)

lemma nil_if_empty_id: "x \<noteq> Some [] \<Longrightarrow> nil_if_empty x = x"
  by (cases x) (auto simp: nil_if_empty_def)

text \<open>A spec keeps its hash through the store, unless a slice or map of it is empty and not nil.\<close>

lemma runtime_text_stored:
  assumes "sCommand s \<noteq> Some []" "sEnvironment s \<noteq> Some []" "sVolumes s \<noteq> Some []"
  shows "runtime_text (stored s) = runtime_text s"
proof -
  have "str_map (sorted_env m) = str_map m" for m
    by (simp add: str_map_def sorted_env_keys sorted_env_at)
  then have "or_null str_map (map_option sorted_env (sEnvironment s)) = or_null str_map (sEnvironment s)"
    by (cases "sEnvironment s") (simp_all add: or_null_def)
  then show ?thesis using assms by (simp add: runtime_text_def runtime_json_def stored_def normalized_def nil_if_empty_id)
qed

end
