(* ===== verification/Api.thy ===== *)
theory Api
  imports Url Status SpecJson
begin

text \<open>
  Package \<open>internal/api\<close>: the routes of \<open>Handler\<close> as \<open>net/http.ServeMux\<close> takes them, the handlers over the
  state of the supervisor, the JSON of the answers, and the decoding of the bodies. A request is what a
  handler gets of it: the method, \<open>URL.EscapedPath()\<close>, the raw query, the body, and, for a stream of
  events, the changes its subscription yields until the client leaves. A handler returns the
  response and the new state of the supervisor.
\<close>

section \<open>Requests and responses\<close>

record request =
  rqMethod :: string
  rqPath :: string
  rqQuery :: string
  rqBody :: string
  rqChanges :: "change list"

record response =
  rsCode :: nat
  rsType :: string
  rsLocation :: string
  rsBody :: string

record info =
  infVersion :: string
  infStore :: string
  infBootID :: string
  infStarted :: time

text \<open>
  What the handlers are given: the supervisor's environment, \<open>Info\<close>, \<open>engine.Logs\<close> (an error, or the
  reads of the stream: the bytes of each and whether it ended with an error); the text of a time in the
  zone of the process, the words of a problem, of a refused spec, of an error of the JSON decoder and of a refused tail, and the code
  with which \<open>net/http\<close> redirects.
\<close>

record ('d, 'e) server =
  srvEnv :: "('d, 'e) env"
  srvInfo :: info
  srvLogs :: "string \<Rightarrow> int \<Rightarrow> bool \<Rightarrow> 'e \<Rightarrow> (string + (string \<times> bool) list) \<times> 'e"
  srvStamp :: "time \<Rightarrow> string"
  srvWords :: "detail \<Rightarrow> string"
  srvSpecWords :: "spec_error \<Rightarrow> string"
  srvJsonWords :: "string \<Rightarrow> string"
  srvTailWords :: "string \<Rightarrow> string"
  srvRedirect :: nat

definition maxBody :: nat where "maxBody = 2 ^ 20"

section \<open>JSON\<close>

fun phase_text :: "phase \<Rightarrow> string" where
  "phase_text PhaseNone = ''''"
| "phase_text PhaseStopped = ''stopped''"
| "phase_text PhaseStarting = ''starting''"
| "phase_text PhaseRunning = ''running''"
| "phase_text PhaseBackoff = ''backoff''"
| "phase_text PhaseExited = ''exited''"
| "phase_text PhaseFatal = ''fatal''"
| "phase_text PhaseWaiting = ''waiting''"
| "phase_text PhaseDeleted = ''deleted''"

fun health_text :: "health_state \<Rightarrow> string" where
  "health_text HealthNone = ''''"
| "health_text HealthStarting = ''starting''"
| "health_text HealthHealthy = ''healthy''"
| "health_text HealthUnhealthy = ''unhealthy''"

text \<open>The struct tags of \<open>Status\<close>, \<open>ProjectStatus\<close>, \<open>Change\<close> and \<open>compose.Problem\<close>.\<close>

definition status_json :: "(time \<Rightarrow> string) \<Rightarrow> status \<Rightarrow> json" where
  "status_json stamp st = JObj (
     [(''project'', JStr (stsProject st)), (''service'', JStr (stsService st)), (''spec'', spec_json (stsSpec st)),
      (''desired'', JStr (stsDesired st)), (''phase'', JStr (phase_text (stsPhase st)))]
     @ omit (stsHealth st = HealthNone) ''health'' (JStr (health_text (stsHealth st)))
     @ [(''exists'', JBool (stsExists st))]
     @ omit (stsImageID st = []) ''image_id'' (JStr (stsImageID st))
     @ omit (is_zero (stsStartedAt st)) ''started_at'' (JStr (stamp (stsStartedAt st)))
     @ omit (is_zero (stsExitedAt st)) ''exited_at'' (JStr (stamp (stsExitedAt st)))
     @ [(''exit_code'', json_int (stsExitCode st)), (''start_attempts'', json_int (stsStartAttempts st)),
        (''restarts'', json_int (stsRestarts st))]
     @ omit (is_zero (stsNextAttempt st)) ''next_attempt'' (JStr (stamp (stsNextAttempt st)))
     @ omit (stsError st = []) ''error'' (JStr (stsError st)))"

definition project_json :: "(time \<Rightarrow> string) \<Rightarrow> project_status \<Rightarrow> json" where
  "project_json stamp p = JObj (
     [(''name'', JStr (psName p))]
     @ omit (psProjectDir p = []) ''projectDir'' (JStr (psProjectDir p))
     @ omit (psCompose p = []) ''compose'' (JStr (psCompose p))
     @ [(''services'', JArr (map (status_json stamp) (psServices p)))])"

definition change_json :: "(time \<Rightarrow> string) \<Rightarrow> change \<Rightarrow> json" where
  "change_json stamp ch = JObj
     [(''name'', JStr (chName ch)), (''phase'', JStr (phase_text (chPhase ch))), (''desired'', JStr (chDesired ch)),
      (''exit_code'', json_int (chExitCode ch)), (''time'', JStr (stamp (chTime ch)))]"

definition problem_json :: "(detail \<Rightarrow> string) \<Rightarrow> problem \<Rightarrow> json" where
  "problem_json text p = JObj (
     omit (pbProject p = []) ''project'' (JStr (pbProject p))
     @ [(''service'', JStr (pbService p)), (''field'', JStr (pbField p)), (''detail'', JStr (text (pbDetail p)))])"

text \<open>The tally of phases that \<open>GET /v1/status\<close> reports.\<close>

definition count_phase :: "status \<Rightarrow> (string \<times> int) list \<Rightarrow> (string \<times> int) list" where
  "count_phase st m = (let k = phase_text (stsPhase st) in
     mput k ((case map_of m k of None \<Rightarrow> 0 | Some n \<Rightarrow> n) + 1) m)"

definition phase_counts :: "status list \<Rightarrow> (string \<times> int) list" where
  "phase_counts sts = fold count_phase sts []"

section \<open>Answers\<close>

definition reply :: "nat \<Rightarrow> json \<Rightarrow> response" where
  "reply code j = \<lparr>rsCode = code, rsType = ''application/json'', rsLocation = [], rsBody = marshal_indent j @ [CHR 0x0A]\<rparr>"

definition fail_with :: "nat \<Rightarrow> string \<Rightarrow> string \<Rightarrow> response" where
  "fail_with code rule text = reply code (JObj [(''detail'', JStr text), (''error'', JStr rule)])"

definition fail_for :: "('d, 'e) server \<Rightarrow> sup_error \<Rightarrow> response" where
  "fail_for S e = (case e of
     ECompose ps \<Rightarrow> reply 400 (JObj [(''detail'', JStr (error_string (srvWords S) ps)), (''error'', JStr ''compose''),
       (''problems'', JArr (map (problem_json (srvWords S)) ps))])
   | ESpec se \<Rightarrow> fail_with 400 (rule_of se) (srvSpecWords S se)
   | ENotFound \<Rightarrow> fail_with 404 ''not-found'' ''no such container''
   | ENoProject \<Rightarrow> fail_with 404 ''not-found'' ''no such project''
   | EOther m \<Rightarrow> fail_with 500 ''internal'' m)"

section \<open>Bodies\<close>

text \<open>\<open>io.ReadAll\<close> of a \<open>MaxBytesReader\<close>.\<close>

definition read_body :: "string \<Rightarrow> string option" where
  "read_body body = (if length body \<le> maxBody then Some body else None)"

text \<open>
  \<open>decode\<close>: the first value of what \<open>MaxBytesReader\<close> lets through, strictly, and \<open>More\<close>, which takes a
  closing bracket for the end.
\<close>

definition dec_more :: "string \<Rightarrow> bool" where
  "dec_more rest = (case skip rest of [] \<Rightarrow> False | c # _ \<Rightarrow> c \<noteq> CHR '']'' \<and> c \<noteq> CHR ''}'')"

definition decode_body :: "('d, 'e) server \<Rightarrow> 'a dec \<Rightarrow> 'a \<Rightarrow> string \<Rightarrow> response + 'a" where
  "decode_body S d x body =
     (let seen = take maxBody body; refused = (\<lambda>text. Inl (fail_with 400 ''json'' text)) in
      case parse_value (Suc (length seen)) seen of
        None \<Rightarrow> refused (srvJsonWords S body)
      | Some (j, rest) \<Rightarrow>
          (case d j x of
             None \<Rightarrow> refused (srvJsonWords S body)
           | Some v \<Rightarrow> if dec_more rest then refused ''more than one JSON value'' else Inr v))"

text \<open>\<open>declared.UnmarshalJSON\<close> and the body of \<open>PUT /v1/projects\<close>.\<close>

definition declared_fields :: "project fields" where
  "declared_fields = [(''compose'', fld d_str prjCompose prjCompose_update), (''projectDir'', fld d_str prjDir prjDir_update)]"

definition d_declared :: "project dec" where
  "d_declared j x = (case d_str j [] of
     Some file \<Rightarrow> Some \<lparr>prjCompose = file, prjDir = []\<rparr>
   | None \<Rightarrow> d_struct True declared_fields j \<lparr>prjCompose = [], prjDir = []\<rparr>)"

definition d_projects :: "(string \<times> project) list option dec" where
  "d_projects = d_struct True [(''projects'', fld (d_map d_declared \<lparr>prjCompose = [], prjDir = []\<rparr>) (\<lambda>m. m) (\<lambda>f m. f m))]"

section \<open>Routes\<close>

text \<open>The patterns of \<open>Handler\<close>, in its order; \<open>Wild\<close> is a wildcard of one segment.\<close>

datatype seg = Lit string | Wild

datatype endpoint = GetStatus | GetProjects | PutProjects | GetProject | PutProject | DeleteProject
  | GetContainers | GetContainer | StartContainer | StopContainer | RestartContainer | GetLogs | GetEvents | NoRoute

definition routes :: "(string \<times> seg list \<times> endpoint) list" where
  "routes =
     [(''GET'', [Lit ''v1'', Lit ''status''], GetStatus),
      (''GET'', [Lit ''v1'', Lit ''projects''], GetProjects),
      (''PUT'', [Lit ''v1'', Lit ''projects''], PutProjects),
      (''GET'', [Lit ''v1'', Lit ''projects'', Wild], GetProject),
      (''PUT'', [Lit ''v1'', Lit ''projects'', Wild], PutProject),
      (''DELETE'', [Lit ''v1'', Lit ''projects'', Wild], DeleteProject),
      (''GET'', [Lit ''v1'', Lit ''containers''], GetContainers),
      (''GET'', [Lit ''v1'', Lit ''containers'', Wild], GetContainer),
      (''POST'', [Lit ''v1'', Lit ''containers'', Wild, Lit ''start''], StartContainer),
      (''POST'', [Lit ''v1'', Lit ''containers'', Wild, Lit ''stop''], StopContainer),
      (''POST'', [Lit ''v1'', Lit ''containers'', Wild, Lit ''restart''], RestartContainer),
      (''GET'', [Lit ''v1'', Lit ''containers'', Wild, Lit ''logs''], GetLogs),
      (''GET'', [Lit ''v1'', Lit ''events''], GetEvents)]"

text \<open>
  \<open>ServeMux\<close>: the path is cleaned, and one that was not clean is redirected; its segments are unescaped, a
  final slash being the segment \<open>/\<close>, which no wildcard takes. A pattern without the method of the
  request does not match, but \<open>HEAD\<close> falls back to \<open>GET\<close>; what no pattern matches goes to \<open>/\<close>. No two
  patterns of a method match one path, so their order does not matter.
\<close>

definition clean_request_path :: "string \<Rightarrow> string" where
  "clean_request_path p0 =
     (let p = (if has_prefix p0 ''/'' then p0 else CHR ''/'' # p0); np = path_clean p
      in if p0 = [] then ''/'' else if has_suffix p ''/'' \<and> np \<noteq> ''/'' then np @ ''/'' else np)"

definition segment :: "string \<Rightarrow> string" where
  "segment e = (if e = [] then ''/'' else case url_unescape EncSegment e of None \<Rightarrow> e | Some u \<Rightarrow> u)"

definition segments :: "string \<Rightarrow> string list" where
  "segments p = map segment (split_on (CHR ''/'') (tl p))"

fun match_segs :: "seg list \<Rightarrow> string list \<Rightarrow> string list option" where
  "match_segs [] [] = Some []"
| "match_segs (Lit l # ps) (s # ss) = (if s = l then match_segs ps ss else None)"
| "match_segs (Wild # ps) (s # ss) = (if s \<noteq> ''/'' then map_option ((#) s) (match_segs ps ss) else None)"
| "match_segs _ _ = None"

fun find_route :: "string \<Rightarrow> string list \<Rightarrow> (string \<times> seg list \<times> endpoint) list \<Rightarrow> (endpoint \<times> string list) option" where
  "find_route m ss [] = None"
| "find_route m ss ((m', ps, ep) # rs) =
     (case if m = m' then match_segs ps ss else None of
        Some vs \<Rightarrow> Some (ep, vs) | None \<Rightarrow> find_route m ss rs)"

datatype routed = Redirect string | Endpoint endpoint string

definition route :: "string \<Rightarrow> string \<Rightarrow> routed" where
  "route method path =
     (let p = (if method = ''CONNECT'' then path else clean_request_path path); ss = segments p in
      if p \<noteq> path then Redirect p
      else case find_route method ss routes of
        Some (ep, vs) \<Rightarrow> Endpoint ep (concat vs)
      | None \<Rightarrow> (case if method = ''HEAD'' then find_route ''GET'' ss routes else None of
            Some (ep, vs) \<Rightarrow> Endpoint ep (concat vs) | None \<Rightarrow> Endpoint NoRoute []))"

section \<open>Handlers\<close>

text \<open>What a call of the supervisor answers: its error, or what \<open>k\<close> answers in the state it left.\<close>

definition after_call :: "('d, 'e) server \<Rightarrow> sup_error option \<times> ('d, 'e) sup \<Rightarrow> (('d, 'e) sup \<Rightarrow> response)
    \<Rightarrow> response \<times> ('d, 'e) sup" where
  "after_call S r k = (case r of (Some e, s) \<Rightarrow> (fail_for S e, s) | (None, s) \<Rightarrow> (k s, s))"

definition h_status :: "('d, 'e) server \<Rightarrow> ('d, 'e) sup \<Rightarrow> response" where
  "h_status S s = (let sts = list_status s; i = srvInfo S in
     reply 200 (JObj
       [(''boot_id'', JStr (infBootID i)), (''containers'', json_int (int (length sts))),
        (''phases'', JObj (map (\<lambda>(k, n). (k, json_int n)) (sorted_entries (phase_counts sts)))),
        (''started'', JStr (srvStamp S (infStarted i))), (''store'', JStr (infStore i)), (''version'', JStr (infVersion i))]))"

definition h_list :: "('d, 'e) server \<Rightarrow> ('d, 'e) sup \<Rightarrow> response" where
  "h_list S s = reply 200 (JObj [(''containers'', JArr (map (status_json (srvStamp S)) (list_status s)))])"

definition h_get :: "('d, 'e) server \<Rightarrow> string \<Rightarrow> ('d, 'e) sup \<Rightarrow> response" where
  "h_get S name s = (case get_status name s of
     Inl e \<Rightarrow> fail_for S e | Inr st \<Rightarrow> reply 200 (status_json (srvStamp S) st))"

definition h_projects :: "('d, 'e) server \<Rightarrow> ('d, 'e) sup \<Rightarrow> response" where
  "h_projects S s = reply 200 (JObj [(''projects'', JArr (map (project_json (srvStamp S)) (list_projects (srvEnv S) s)))])"

definition h_project :: "('d, 'e) server \<Rightarrow> string \<Rightarrow> ('d, 'e) sup \<Rightarrow> response" where
  "h_project S name s = (case get_project (srvEnv S) name s of
     Inl e \<Rightarrow> fail_for S e | Inr p \<Rightarrow> reply 200 (project_json (srvStamp S) p))"

definition h_put_project :: "('d, 'e) server \<Rightarrow> request \<Rightarrow> string \<Rightarrow> ('d, 'e) sup \<Rightarrow> response \<times> ('d, 'e) sup" where
  "h_put_project S rq name s = (case read_body (rqBody rq) of
     None \<Rightarrow> (fail_with 400 ''body'' ''http: request body too large'', s)
   | Some file \<Rightarrow>
       after_call S (put_project (srvEnv S) name \<lparr>prjCompose = file, prjDir = query_get (rqQuery rq) ''projectDir''\<rparr> s)
         (h_project S name))"

definition h_put_projects :: "('d, 'e) server \<Rightarrow> request \<Rightarrow> ('d, 'e) sup \<Rightarrow> response \<times> ('d, 'e) sup" where
  "h_put_projects S rq s = (case decode_body S d_projects None (rqBody rq) of
     Inl refusal \<Rightarrow> (refusal, s)
   | Inr m \<Rightarrow> after_call S (put_projects (srvEnv S) (case m of None \<Rightarrow> [] | Some m \<Rightarrow> m) s) (h_projects S))"

definition h_delete_project :: "('d, 'e) server \<Rightarrow> string \<Rightarrow> ('d, 'e) sup \<Rightarrow> response \<times> ('d, 'e) sup" where
  "h_delete_project S name s = after_call S (delete_project (srvEnv S) name s)
     (\<lambda>_. \<lparr>rsCode = 204, rsType = [], rsLocation = [], rsBody = []\<rparr>)"

text \<open>
  \<open>verb\<close>: the call, then the container as it is after. The code takes the mutex for each, and \<open>Restart\<close> twice; here a
  handler is one step, as if no other call came in between (\<open>restart_tracks_the_deleted\<close> in \<open>Findings\<close> is a run in which one does).
\<close>

definition h_verb :: "('d, 'e) server \<Rightarrow> (string \<Rightarrow> ('d, 'e) sup \<Rightarrow> sup_error option \<times> ('d, 'e) sup) \<Rightarrow> string
    \<Rightarrow> ('d, 'e) sup \<Rightarrow> response \<times> ('d, 'e) sup" where
  "h_verb S act name s = after_call S (act name s) (h_get S name)"

subsection \<open>Streams\<close>

text \<open>
  What a client that takes \<open>n\<close> writes gets of a log: the bytes of the reads, until a write or a read
  fails. \<open>sup_logs\<close> is \<open>Supervisor.Logs\<close>.
\<close>

fun copy_reads :: "nat \<Rightarrow> (string \<times> bool) list \<Rightarrow> string" where
  "copy_reads n [] = []"
| "copy_reads n ((b, err) # rs) =
     (if b \<noteq> [] \<and> n = 0 then []
      else b @ (if err then [] else copy_reads (if b = [] then n else n - 1) rs))"

definition sup_logs :: "('d, 'e) server \<Rightarrow> string \<Rightarrow> int \<Rightarrow> bool \<Rightarrow> ('d, 'e) sup
    \<Rightarrow> (sup_error + (string \<times> bool) list) \<times> ('d, 'e) sup" where
  "sup_logs S name tail follow s =
     (if \<not> has_key (svRecords s) name then (Inl ENotFound, s)
      else case srvLogs S name tail follow (svEngine s) of
        (Inl m, en) \<Rightarrow> (Inl (EOther m), s\<lparr>svEngine := en\<rparr>)
      | (Inr rs, en) \<Rightarrow> (Inr rs, s\<lparr>svEngine := en\<rparr>))"

text \<open>\<open>None\<close> is a tail that is not a number of lines; \<open>-1\<close> is all of them.\<close>

definition tail_param :: "string \<Rightarrow> int option" where
  "tail_param q = (let v = query_get q ''tail'' in
     if v = [] then Some (- 1)
     else case atoi v of None \<Rightarrow> None | Some n \<Rightarrow> if n < 0 then None else Some n)"

definition follow_param :: "string \<Rightarrow> bool" where
  "follow_param q \<longleftrightarrow> query_get q ''follow'' = ''1'' \<or> query_get q ''follow'' = ''true''"

definition h_logs :: "('d, 'e) server \<Rightarrow> request \<Rightarrow> string \<Rightarrow> ('d, 'e) sup \<Rightarrow> response \<times> ('d, 'e) sup" where
  "h_logs S rq name s = (case tail_param (rqQuery rq) of
     None \<Rightarrow> (fail_with 400 ''tail'' (srvTailWords S (query_get (rqQuery rq) ''tail'')), s)
   | Some n \<Rightarrow> (case sup_logs S name n (follow_param (rqQuery rq)) s of
        (Inl e, s) \<Rightarrow> (fail_for S e, s)
      | (Inr rs, s) \<Rightarrow> (\<lparr>rsCode = 200, rsType = ''text/plain; charset=utf-8'', rsLocation = [],
            rsBody = copy_reads (length rs) rs\<rparr>, s)))"

text \<open>A subscription from the first byte to the last: one line for each change the channel yields.\<close>

definition fresh_sub :: "('d, 'e) sup \<Rightarrow> nat" where
  "fresh_sub s = Suc (fold max (map fst (svSubs s)) 0)"

definition h_events :: "('d, 'e) server \<Rightarrow> request \<Rightarrow> ('d, 'e) sup \<Rightarrow> response \<times> ('d, 'e) sup" where
  "h_events S rq s =
     (let i = fresh_sub s; s1 = subscribe i s in
      (\<lparr>rsCode = 200, rsType = ''application/x-ndjson'', rsLocation = [],
        rsBody = concat (map (\<lambda>ch. marshal (change_json (srvStamp S) ch) @ [CHR 0x0A]) (rqChanges rq))\<rparr>,
       unsubscribe i s1))"

section \<open>The handler\<close>

definition serve :: "('d, 'e) server \<Rightarrow> endpoint \<Rightarrow> string \<Rightarrow> request \<Rightarrow> ('d, 'e) sup \<Rightarrow> response \<times> ('d, 'e) sup" where
  "serve S ep v rq s = (case ep of
     GetStatus \<Rightarrow> (h_status S s, s)
   | GetProjects \<Rightarrow> (h_projects S s, s)
   | PutProjects \<Rightarrow> h_put_projects S rq s
   | GetProject \<Rightarrow> (h_project S v s, s)
   | PutProject \<Rightarrow> h_put_project S rq v s
   | DeleteProject \<Rightarrow> h_delete_project S v s
   | GetContainers \<Rightarrow> (h_list S s, s)
   | GetContainer \<Rightarrow> (h_get S v s, s)
   | StartContainer \<Rightarrow> h_verb S (start_container (srvEnv S)) v s
   | StopContainer \<Rightarrow> h_verb S (stop_container (srvEnv S)) v s
   | RestartContainer \<Rightarrow> h_verb S (restart_container (srvEnv S)) v s
   | GetLogs \<Rightarrow> h_logs S rq v s
   | GetEvents \<Rightarrow> h_events S rq s
   | NoRoute \<Rightarrow> (fail_with 404 ''route'' ''no such endpoint'', s))"

text \<open>A response to \<open>HEAD\<close> has no body; a redirect's page is left out.\<close>

definition handle :: "('d, 'e) server \<Rightarrow> request \<Rightarrow> ('d, 'e) sup \<Rightarrow> response \<times> ('d, 'e) sup" where
  "handle S rq s = (case route (rqMethod rq) (rqPath rq) of
     Redirect p \<Rightarrow> (\<lparr>rsCode = srvRedirect S, rsType = [],
         rsLocation = url_escape EncPath p @ (if rqQuery rq = [] then [] else CHR ''?'' # rqQuery rq), rsBody = []\<rparr>, s)
   | Endpoint ep v \<Rightarrow> (case serve S ep v rq s of
       (r, s) \<Rightarrow> (if rqMethod rq = ''HEAD'' then r\<lparr>rsBody := []\<rparr> else r, s)))"

end
