(* ===== verification/ApiServe.thy ===== *)
theory ApiServe
  imports Api ApiPromises
begin

text \<open>
  What the API answers: which handler a request reaches, and what the code of an answer says of the state the
  call left.
\<close>

section \<open>Routing\<close>

lemma join_plain_no_slash_end:
  assumes "list_all plain_elem es" and "es \<noteq> []"
  shows "\<not> has_suffix (join ''/'' es) ''/''"
proof
  assume "has_suffix (join ''/'' es) ''/''"
  then obtain t where t: "join ''/'' es = t @ ''/''" by (auto simp: has_suffix_iff)
  have "split_on slash (t @ ''/'') = split_on slash t @ [[]]"
  proof (induction t)
    case (Cons c t)
    then show ?case by (auto split: list.splits)
  qed simp
  moreover have "split_on slash (join ''/'' es) = es"
    using assms by (intro split_on_join) (auto simp: plain_elem_def list_all_iff)
  ultimately have "[] \<in> set es" using t by (metis in_set_conv_decomp)
  then show False using assms(1) by (auto simp: list_all_iff plain_elem_def)
qed

lemma clean_request_plain:
  assumes "list_all plain_elem es" and "es \<noteq> []"
  shows "clean_request_path (slash # join ''/'' es) = slash # join ''/'' es"
proof -
  have "\<not> has_suffix (slash # join ''/'' es) ''/''"
  proof -
    have j: "join ''/'' es \<noteq> []"
    proof
      assume "join ''/'' es = []"
      then have "split_on slash (join ''/'' es) = [[]]" by simp
      moreover have "split_on slash (join ''/'' es) = es"
        using assms by (intro split_on_join) (auto simp: plain_elem_def list_all_iff)
      ultimately show False using assms(1) by (simp add: plain_elem_def)
    qed
    show ?thesis
    proof
      assume "has_suffix (slash # join ''/'' es) ''/''"
      then obtain t where t: "slash # join ''/'' es = t @ ''/''" by (auto simp: has_suffix_iff)
      then obtain u where "t = slash # u" using j by (cases t) auto
      then show False using t join_plain_no_slash_end [OF assms] by (auto simp: has_suffix_iff)
    qed
  qed
  then show ?thesis using path_clean_plain [OF assms(1)] by (simp add: clean_request_path_def Let_def)
qed

lemma segments_plain: "list_all plain_elem es \<Longrightarrow> es \<noteq> [] \<Longrightarrow> segments (slash # join ''/'' es) = map segment es"
  unfolding segments_def list.sel
  by (subst split_on_join) (auto simp: plain_elem_def list_all_iff)

text \<open>The names a client can put into a path: the others are read as part of its structure.\<close>

definition path_name :: "string \<Rightarrow> bool" where
  "path_name n \<longleftrightarrow> n \<notin> {[], ''.'', ''..'', ''/''}"

lemma escaped_plain: "path_name n \<Longrightarrow> plain_elem (PathEscape n)"
proof -
  have d: "PathEscape ''.'' = ''.''" "PathEscape ''..'' = ''..''"
    by (simp_all add: url_escape_def escape_byte_def should_escape_def unreserved_def)
  assume "path_name n"
  then show ?thesis
    using escape_no_slash [of EncSegment n] escape_inj [of EncSegment n "[]"] escape_inj [of EncSegment n "''.''"]
      escape_inj [of EncSegment n "''..''"] d
    by (auto simp: plain_elem_def path_name_def)
qed

lemma segment_escaped: "path_name n \<Longrightarrow> segment (PathEscape n) = n"
  using escape_inj [of EncSegment n "[]"] by (auto simp: segment_def path_name_def)

lemma segment_plain: "list_all alnum_byte e \<Longrightarrow> e \<noteq> [] \<Longrightarrow> segment e = e"
proof -
  have "list_all alnum_byte e \<Longrightarrow> url_unescape EncSegment e = Some e"
    by (induction e) (auto simp: alnum_byte_def is_digit_def)
  then show "list_all alnum_byte e \<Longrightarrow> e \<noteq> [] \<Longrightarrow> segment e = e" by (simp add: segment_def)
qed

lemma route_plain:
  assumes "list_all plain_elem es" and "es \<noteq> []"
  shows "route m (slash # join ''/'' es) =
    (case find_route m (map segment es) routes of
       Some (ep, vs) \<Rightarrow> Endpoint ep (concat vs)
     | None \<Rightarrow> (case if m = ''HEAD'' then find_route ''GET'' (map segment es) routes else None of
           Some (ep, vs) \<Rightarrow> Endpoint ep (concat vs) | None \<Rightarrow> Endpoint NoRoute []))"
proof -
  have "(if m = ''CONNECT'' then slash # join ''/'' es else clean_request_path (slash # join ''/'' es)) = slash # join ''/'' es"
    by (simp add: clean_request_plain [OF assms])
  then show ?thesis unfolding route_def Let_def by (simp only: segments_plain [OF assms] if_False not_True_eq_False simp_thms)
qed

lemma plain_words [simp]: "plain_elem ''v1''" "plain_elem ''projects''" "plain_elem ''containers''" "plain_elem ''status''"
  "plain_elem ''events''" "plain_elem ''start''" "plain_elem ''stop''" "plain_elem ''restart''" "plain_elem ''logs''"
  by (simp_all add: plain_elem_def)

lemma segment_words [simp]: "segment ''v1'' = ''v1''" "segment ''projects'' = ''projects''" "segment ''containers'' = ''containers''"
  "segment ''status'' = ''status''" "segment ''events'' = ''events''" "segment ''start'' = ''start''" "segment ''stop'' = ''stop''"
  "segment ''restart'' = ''restart''" "segment ''logs'' = ''logs''"
  by (simp_all add: segment_def)

lemma route_fixed:
  "route ''GET'' ''/v1/status'' = Endpoint GetStatus []"
  "route ''GET'' ''/v1/projects'' = Endpoint GetProjects []"
  "route ''PUT'' ''/v1/projects'' = Endpoint PutProjects []"
  "route ''GET'' ''/v1/containers'' = Endpoint GetContainers []"
  "route ''GET'' ''/v1/events'' = Endpoint GetEvents []"
  using route_plain [of "[''v1'', ''status'']" "''GET''"] route_plain [of "[''v1'', ''projects'']" "''GET''"]
    route_plain [of "[''v1'', ''projects'']" "''PUT''"] route_plain [of "[''v1'', ''containers'']" "''GET''"]
    route_plain [of "[''v1'', ''events'']" "''GET''"]
  by (simp_all add: routes_def)

lemma route_named:
  assumes "path_name n"
  shows "route ''GET'' (''/v1/projects/'' @ PathEscape n) = Endpoint GetProject n"
    "route ''PUT'' (''/v1/projects/'' @ PathEscape n) = Endpoint PutProject n"
    "route ''DELETE'' (''/v1/projects/'' @ PathEscape n) = Endpoint DeleteProject n"
    "route ''GET'' (''/v1/containers/'' @ PathEscape n) = Endpoint GetContainer n"
    "route ''POST'' (''/v1/containers/'' @ PathEscape n @ ''/start'') = Endpoint StartContainer n"
    "route ''POST'' (''/v1/containers/'' @ PathEscape n @ ''/stop'') = Endpoint StopContainer n"
    "route ''POST'' (''/v1/containers/'' @ PathEscape n @ ''/restart'') = Endpoint RestartContainer n"
    "route ''GET'' (''/v1/containers/'' @ PathEscape n @ ''/logs'') = Endpoint GetLogs n"
proof -
  have "n \<noteq> ''/''" using assms by (simp add: path_name_def)
  note e = escaped_plain [OF assms] segment_escaped [OF assms] this
  show "route ''GET'' (''/v1/projects/'' @ PathEscape n) = Endpoint GetProject n"
    "route ''PUT'' (''/v1/projects/'' @ PathEscape n) = Endpoint PutProject n"
    "route ''DELETE'' (''/v1/projects/'' @ PathEscape n) = Endpoint DeleteProject n"
    using route_plain [of "[''v1'', ''projects'', PathEscape n]"] e by (simp_all add: routes_def)
  show "route ''GET'' (''/v1/containers/'' @ PathEscape n) = Endpoint GetContainer n"
    using route_plain [of "[''v1'', ''containers'', PathEscape n]"] e by (simp add: routes_def)
  show "route ''POST'' (''/v1/containers/'' @ PathEscape n @ ''/start'') = Endpoint StartContainer n"
    using route_plain [of "[''v1'', ''containers'', PathEscape n, ''start'']"] e by (simp add: routes_def)
  show "route ''POST'' (''/v1/containers/'' @ PathEscape n @ ''/stop'') = Endpoint StopContainer n"
    using route_plain [of "[''v1'', ''containers'', PathEscape n, ''stop'']"] e by (simp add: routes_def)
  show "route ''POST'' (''/v1/containers/'' @ PathEscape n @ ''/restart'') = Endpoint RestartContainer n"
    using route_plain [of "[''v1'', ''containers'', PathEscape n, ''restart'']"] e by (simp add: routes_def)
  show "route ''GET'' (''/v1/containers/'' @ PathEscape n @ ''/logs'') = Endpoint GetLogs n"
    using route_plain [of "[''v1'', ''containers'', PathEscape n, ''logs'']"] e by (simp add: routes_def)
qed

text \<open>A route that changes something has a method that says so.\<close>

fun writes :: "endpoint \<Rightarrow> bool" where
  "writes PutProjects \<longleftrightarrow> True" | "writes PutProject \<longleftrightarrow> True" | "writes DeleteProject \<longleftrightarrow> True"
| "writes StartContainer \<longleftrightarrow> True" | "writes StopContainer \<longleftrightarrow> True" | "writes RestartContainer \<longleftrightarrow> True"
| "writes _ \<longleftrightarrow> False"

lemma find_route_in: "find_route m ss rs = Some (ep, vs) \<Longrightarrow> \<exists>ps. (m, ps, ep) \<in> set rs"
  by (induction rs) (auto split: option.splits if_splits)

lemma routes_write: "(m, ps, ep) \<in> set routes \<Longrightarrow> writes ep \<Longrightarrow> m \<in> {''PUT'', ''POST'', ''DELETE''}"
proof -
  have "list_all (\<lambda>(m, ps, ep). writes ep \<longrightarrow> List.member [''PUT'', ''POST'', ''DELETE''] m) routes" by (simp add: routes_def)
  then show "(m, ps, ep) \<in> set routes \<Longrightarrow> writes ep \<Longrightarrow> m \<in> {''PUT'', ''POST'', ''DELETE''}"
    unfolding list_all_iff by fastforce
qed

lemma route_write:
  assumes "route m p = Endpoint ep v" and "writes ep"
  shows "m \<in> {''PUT'', ''POST'', ''DELETE''}"
proof -
  let ?p = "if m = ''CONNECT'' then p else clean_request_path p"
  consider vs where "find_route m (segments ?p) routes = Some (ep, vs)"
    | vs where "find_route ''GET'' (segments ?p) routes = Some (ep, vs)" | "ep = NoRoute"
    using assms(1) by (fastforce simp: route_def Let_def split: if_splits option.splits prod.splits)
  then show ?thesis
  proof cases
    case (2 vs)
    then obtain ps where "(''GET'', ps, ep) \<in> set routes" using find_route_in by blast
    then show ?thesis using routes_write [of "''GET''" ps ep] assms(2) by simp
  qed (use find_route_in routes_write assms(2) in \<open>blast | simp\<close>)+
qed

lemma query_get_Nil [simp]: "query_get [] k = []"
  by (simp add: query_get_def parse_query_def parse_pair_def List.map_filter_simps str_at_def)

section \<open>What an answer says\<close>

lemma fresh_sub_new: "fresh_sub s \<notin> fst ` set (svSubs s)"
proof -
  have "x \<in> set xs \<Longrightarrow> x \<le> fold max xs n" for x and xs :: "nat list" and n
  proof (induction xs arbitrary: n)
    case (Cons y xs)
    have "m \<le> fold max xs m" for m by (induction xs arbitrary: m) (simp, metis fold_simps(2) max.bounded_iff comp_apply)
    then show ?case using Cons by (auto intro: order_trans [of _ "max x n"])
  qed simp
  then have "\<forall>x \<in> fst ` set (svSubs s). x \<le> fold max (map fst (svSubs s)) 0" by auto
  then show ?thesis unfolding fresh_sub_def by fastforce
qed

lemma subscription_ends: "unsubscribe (fresh_sub s) (subscribe (fresh_sub s) s) = s"
proof -
  have "i \<notin> fst ` set m \<Longrightarrow> mdel i (mput i v m) = m" for i :: nat and v :: "change list" and m
    by (induction m) (auto simp: mdel_def mput_def AList.delete_eq)
  then show ?thesis using fresh_sub_new [of s] by (simp add: subscribe_def unsubscribe_def)
qed

lemma same_but_engine [simp]: "\<exists>en. s = s\<lparr>svEngine := en\<rparr>" for s :: "('d, 'e) sup"
  by (rule exI [of _ "svEngine s"]) simp

lemma logs_read_only: "\<exists>en. snd (h_logs S rq v s) = s\<lparr>svEngine := en\<rparr>"
  by (auto simp: h_logs_def sup_logs_def split: option.split prod.split sum.split)

text \<open>The code of a failure tells whether it is an error of the store or the engine.\<close>

lemma fail_for_code:
  "rsCode (fail_for S e) = (case e of ESpec _ \<Rightarrow> 400 | ECompose _ \<Rightarrow> 400 | ENotFound \<Rightarrow> 404 | ENoProject \<Rightarrow> 404 | EOther _ \<Rightarrow> 500)"
  by (simp add: fail_for_def fail_with_def reply_def split: sup_error.split)

lemma declare_keeps_project:
  assumes "declare_project E n p specs s = (None, s')" shows "map_of (svProjects s') n = Some p"
proof -
  obtain s1 s2 where 1: "store_project E n p s = (None, s1)" "foreach (put E) specs s1 = (None, s2)"
    and 2: "foreach (\<lambda>(m, r) s. if sProject (recSpec r) = n \<and> m \<notin> set (map sName specs) then delete E m s else (None, s)) (svRecords s2) s2 = (None, s')"
    using assms by (auto simp: declare_project_def and_then_None delete_where_def)
  have "svProjects s' = svProjects s2"
    using delete_loop_done [OF 2] by blast
  moreover have "svProjects s2 = svProjects s1" using puts_done [OF 1(2)] by blast
  ultimately show ?thesis using store_project_done(2) [OF 1(1)] by simp
qed

lemma put_project_keeps: "put_project E n p s = (None, s') \<Longrightarrow> map_of (svProjects s') n = Some p"
  by (auto simp: put_project_def put_project_locked_def and_then_None intro: declare_keeps_project split: sum.splits option.splits)

lemma set_desired_keeps: "set_desired E n d s = (None, s') \<Longrightarrow> has_key (svRecords s') n"
  using set_desired_done [of E n d s s']
  by (auto simp: decls_of_def abs_desire_def set_desired_def fun_eq_iff split: option.splits)

lemma mark_restart_records [simp]: "svRecords (mark_restart n s) = svRecords s"
  by (simp add: mark_restart_def upd_t_def)

lemma restart_keeps: "restart_container E n s = (None, s') \<Longrightarrow> has_key (svRecords s') n"
  using set_desired_keeps by (fastforce simp: restart_container_def and_then_None)

lemma project_answer: "has_key (svProjects s) n \<Longrightarrow> rsCode (h_project S n s) = 200"
  by (auto simp: h_project_def get_project_def reply_def Let_def split: option.split)

lemma get_answer: "has_key (svRecords s) n \<Longrightarrow> rsCode (h_get S n s) = 200"
  by (auto simp: h_get_def get_status_def reply_def split: option.split)

text \<open>A refusal by the supervisor that is no error of the store or the engine leaves its state as it was.\<close>

lemma delete_project_refusal:
  assumes "delete_project E n s = (Some e, s')" and "\<forall>m. e \<noteq> EOther m" shows "s' = s"
proof (cases "has_key (svProjects s) n \<or> list_ex (\<lambda>(m, r). sProject (recSpec r) = n) (svRecords s)")
  case True
  then have "store_error (fst (delete_project E n s))"
    unfolding delete_project_def Let_def by (auto intro!: and_then_error delete_where_error prim_errors)
  then show ?thesis using assms by (simp add: store_error_def)
next
  case False
  have "foreach (\<lambda>(m, r) s. if sProject (recSpec r) = n then delete E m s else (None, s)) recs t = (None, t)"
    if "\<not> list_ex (\<lambda>(m, r). sProject (recSpec r) = n) recs" for recs :: "(string \<times> store_record) list" and t
    using that by (induction recs) auto
  then show ?thesis using assms(1) False by (simp add: delete_project_def delete_where_def Let_def)
qed

lemma set_desired_refusal:
  "set_desired E n d s = (Some e, s') \<Longrightarrow> \<forall>m. e \<noteq> EOther m \<Longrightarrow> s' = s"
  by (auto simp: set_desired_def Let_def and_then_def split: option.splits prod.splits if_splits)

lemma restart_refusal: "restart_container E n s = (Some e, s') \<Longrightarrow> \<forall>m. e \<noteq> EOther m \<Longrightarrow> s' = s"
  using set_desired_refusal [of E n Running s e s'] by (auto simp: restart_container_def and_then_def split: prod.splits option.splits)

lemma after_call_code: "fst c = Some e \<Longrightarrow> rsCode (fst (after_call S c k)) = rsCode (fail_for S e)"
  by (cases c) (simp add: after_call_def)

lemma after_call_refused:
  assumes "after_call S c k = (r, s')" and "400 \<le> rsCode r" "rsCode r < 500"
    and "\<And>t. c = (None, t) \<Longrightarrow> rsCode (k t) < 400"
    and "\<And>e t. c = (Some e, t) \<Longrightarrow> \<forall>m. e \<noteq> EOther m \<Longrightarrow> \<exists>en. t = s\<lparr>svEngine := en\<rparr>"
  shows "\<exists>en. s' = s\<lparr>svEngine := en\<rparr>"
proof (cases "fst c")
  case None
  then have "c = (None, snd c)" by (simp add: prod_eq_iff)
  then show ?thesis using assms(1,2) assms(4) [of "snd c"] by (cases c) (auto simp: after_call_def)
next
  case (Some e)
  then have c: "c = (Some e, snd c)" by (simp add: prod_eq_iff)
  then have r: "r = fail_for S e" "s' = snd c" using assms(1) by (cases c; simp add: after_call_def)+
  then have "\<forall>m. e \<noteq> EOther m" using assms(3) by (auto simp: fail_for_code)
  then show ?thesis using assms(5) [OF c] r by blast
qed

text \<open>A server over the rig.\<close>

definition rig_server :: "(mem, fake \<times> call list) server" where
  "rig_server = \<lparr>srvEnv = rig_env,
     srvInfo = \<lparr>infVersion = ''dev'', infStore = ''/var/lib/mica/containerd'', infBootID = ''boot-1'', infStarted = rig_boot\<rparr>,
     srvLogs = (\<lambda>n tail follow f. (Inr [(''up'', False), ([], True)], f)),
     srvStamp = show_int, srvWords = (\<lambda>d. ''refused''), srvSpecWords = (\<lambda>e. ''refused''), srvJsonWords = (\<lambda>b. ''not JSON''),
     srvTailWords = (\<lambda>v. ''not a number of lines''), srvRedirect = 307\<rparr>"

lemma rig_server_env [simp]: "srvEnv rig_server = rig_env"
  by (simp add: rig_server_def)

definition rig_request :: "string \<Rightarrow> string \<Rightarrow> string \<Rightarrow> request" where
  "rig_request method path body = \<lparr>rqMethod = method, rqPath = path, rqQuery = [], rqBody = body, rqChanges = []\<rparr>"

text \<open>
  C33: A refused request changes nothing. When a request is answered with a code of the client's
  errors, 400 or 404, for whatever reason, its body, its query, its path, what it declares or a name
  nothing carries, then the declarations, the tracking and the store are as they were; at most the engine was
  asked something. So a request that changed something is answered with success or with 500.
\<close>

theorem refused_request_changes_nothing:
  assumes "handle S rq s = (r, s')" and "400 \<le> rsCode r" and "rsCode r < 500"
  shows "\<exists>en. s' = s\<lparr>svEngine := en\<rparr>"
proof (cases "route (rqMethod rq) (rqPath rq)")
  case (Redirect p)
  then show ?thesis using assms(1) by (auto simp: handle_def)
next
  case (Endpoint ep v)
  obtain r1 where r1: "serve S ep v rq s = (r1, s')" "rsCode r1 = rsCode r"
    using assms(1) by (auto simp: handle_def Endpoint split: prod.splits if_splits)
  note codes = assms(2,3) [folded r1(2)]
  have put1: "\<exists>en. t = s\<lparr>svEngine := en\<rparr>"
    if "put_project (srvEnv S) n p s = (Some e, t) \<or> put_projects (srvEnv S) fs s = (Some e, t)" "\<forall>m. e \<noteq> EOther m" for n p fs e t
    using refusal_unchanged [OF that(1)] that(2) by blast
  show ?thesis
  proof (cases ep)
    case PutProject
    show ?thesis
    proof (cases "read_body (rqBody rq)")
      case (Some body)
      show ?thesis
      proof (rule after_call_refused [OF _ codes])
        show "after_call S (put_project (srvEnv S) v \<lparr>prjCompose = body, prjDir = query_get (rqQuery rq) ''projectDir''\<rparr> s)
            (h_project S v) = (r1, s')"
          using r1(1) PutProject Some by (simp add: serve_def h_put_project_def)
        show "rsCode (h_project S v t) < 400"
          if "put_project (srvEnv S) v \<lparr>prjCompose = body, prjDir = query_get (rqQuery rq) ''projectDir''\<rparr> s = (None, t)" for t
          using project_answer [of t v S] put_project_keeps [OF that] by simp
      qed (use put1 in blast)
    qed (use r1(1) PutProject in \<open>auto simp: serve_def h_put_project_def\<close>)
  next
    case PutProjects
    show ?thesis
    proof (cases "decode_body S d_projects None (rqBody rq)")
      case (Inr m)
      show ?thesis
        by (rule after_call_refused [OF _ codes,
              of S "put_projects (srvEnv S) (case m of None \<Rightarrow> [] | Some m \<Rightarrow> m) s" "h_projects S"])
           (use r1(1) PutProjects Inr put1 in \<open>simp_all add: serve_def h_put_projects_def h_projects_def reply_def, blast\<close>)
    qed (use r1(1) PutProjects in \<open>auto simp: serve_def h_put_projects_def\<close>)
  next
    case DeleteProject
    then show ?thesis using r1(1) codes
      by (auto simp: serve_def h_delete_project_def dest: delete_project_refusal elim!: after_call_refused)
  next
    case StartContainer
    then show ?thesis using r1(1) codes
      by (auto dest: set_desired_refusal set_desired_keeps simp: get_answer serve_def h_verb_def start_container_def elim!: after_call_refused)
  next
    case StopContainer
    then show ?thesis using r1(1) codes
      by (auto dest: set_desired_refusal set_desired_keeps simp: get_answer serve_def h_verb_def stop_container_def elim!: after_call_refused)
  next
    case RestartContainer
    then show ?thesis using r1(1) codes
      by (auto dest: restart_refusal restart_keeps simp: get_answer serve_def h_verb_def elim!: after_call_refused)
  next
    case GetLogs
    then show ?thesis using r1(1) logs_read_only [of S rq v s] by (simp add: serve_def)
  qed (use r1(1) in \<open>simp_all add: serve_def h_events_def Let_def subscription_ends\<close>)
qed

text \<open>Project \<open>q\<close> wants the name of a container of project \<open>p\<close>.\<close>

lemma refused_request_changes_nothing_witness:
  "rsCode (fst (handle rig_server (rig_request ''PUT'' ''/v1/projects/q'' ''b=img'') declared_rig)) = 400
   \<and> (\<exists>en. snd (handle rig_server (rig_request ''PUT'' ''/v1/projects/q'' ''b=img'') declared_rig) = declared_rig\<lparr>svEngine := en\<rparr>)"
proof -
  let ?h = "handle rig_server (rig_request ''PUT'' ''/v1/projects/q'' ''b=img'') declared_rig"
  let ?p = "put_project rig_env ''q'' (rig_project ''b=img'') declared_rig"
  have "PathEscape ''q'' = ''q''" by (simp add: url_escape_def escape_byte_def should_escape_def unreserved_def alnum_byte_def)
  then have r: "route ''PUT'' ''/v1/projects/q'' = Endpoint PutProject ''q''"
    using route_named(2) [of "''q''"] by (simp add: path_name_def)
  have "fst ?p = Some (ESpec (NameDeclaredBy ''b'' ''p''))" by code_simp
  then have "rsCode (fst (h_put_project rig_server (rig_request ''PUT'' ''/v1/projects/q'' ''b=img'') ''q'' declared_rig)) = 400"
    by (simp add: h_put_project_def read_body_def maxBody_def rig_request_def after_call_code fail_for_code flip: rig_project_def)
  then have c: "rsCode (fst ?h) = 400"
    by (simp add: handle_def rig_request_def r serve_def split: prod.splits)
  then show ?thesis
    using refused_request_changes_nothing [of rig_server "rig_request ''PUT'' ''/v1/projects/q'' ''b=img''" declared_rig "fst ?h" "snd ?h"]
    by simp
qed

text \<open>
  Reading changes nothing. A request whose method is not \<open>PUT\<close>, \<open>POST\<close> or \<open>DELETE\<close>, whatever its path,
  query and body, leaves the declarations, the tracking, the store and the subscriptions as they are;
  only reading a log calls the engine.
\<close>

theorem reads_change_nothing:
  assumes "rqMethod rq \<notin> {''PUT'', ''POST'', ''DELETE''}"
  shows "\<exists>en. snd (handle S rq s) = s\<lparr>svEngine := en\<rparr>
    \<and> ((\<forall>v. route (rqMethod rq) (rqPath rq) \<noteq> Endpoint GetLogs v) \<longrightarrow> en = svEngine s)"
proof (cases "route (rqMethod rq) (rqPath rq)")
  case (Redirect p)
  then show ?thesis by (intro exI [of _ "svEngine s"]) (simp add: handle_def)
next
  case (Endpoint ep v)
  have w: "\<not> writes ep" using route_write [OF Endpoint] assms by blast
  have snd: "snd (handle S rq s) = snd (serve S ep v rq s)" by (simp add: handle_def Endpoint split: prod.split)
  show ?thesis
  proof (cases "ep = GetLogs")
    case True
    then show ?thesis using logs_read_only [of S rq v s] snd Endpoint by (auto simp: serve_def)
  next
    case False
    then have "snd (serve S ep v rq s) = s" using w
      by (cases ep) (simp_all add: serve_def h_events_def Let_def subscription_ends)
    then show ?thesis using snd by (intro exI [of _ "svEngine s"]) simp
  qed
qed

lemma reads_change_nothing_witness:
  "\<exists>en. snd (handle rig_server (rig_request ''HEAD'' ''/v1/containers/b'' []) declared_rig) = declared_rig\<lparr>svEngine := en\<rparr>"
  using reads_change_nothing [of "rig_request ''HEAD'' ''/v1/containers/b'' []" rig_server declared_rig]
  by (auto simp: rig_request_def)

section \<open>What an accepted request did\<close>

lemma after_call_accepted: "after_call S c k = (r, s') \<Longrightarrow> rsCode r < 400 \<Longrightarrow> c = (None, s')"
  by (auto simp: after_call_def fail_for_code split: prod.splits option.splits sup_error.splits)

lemma accepted:
  assumes "serve S ep v rq s = (r, s')" and "rsCode r < 400"
  shows "ep = PutProject \<Longrightarrow>
      put_project (srvEnv S) v \<lparr>prjCompose = rqBody rq, prjDir = query_get (rqQuery rq) ''projectDir''\<rparr> s = (None, s')"
    and "ep = DeleteProject \<Longrightarrow> delete_project (srvEnv S) v s = (None, s')"
    and "ep = StartContainer \<Longrightarrow> start_container (srvEnv S) v s = (None, s')"
    and "ep = StopContainer \<Longrightarrow> stop_container (srvEnv S) v s = (None, s')"
    and "ep = RestartContainer \<Longrightarrow> restart_container (srvEnv S) v s = (None, s')"
proof -
  show "ep = PutProject \<Longrightarrow>
      put_project (srvEnv S) v \<lparr>prjCompose = rqBody rq, prjDir = query_get (rqQuery rq) ''projectDir''\<rparr> s = (None, s')"
    using assms by (auto simp: serve_def h_put_project_def read_body_def fail_with_def reply_def
        split: if_splits dest: after_call_accepted)
qed (use assms in \<open>auto simp: serve_def h_delete_project_def h_verb_def dest: after_call_accepted\<close>)

end
