(* ===== verification/Flags.thy ===== *)
theory Flags
  imports Json Strconv
begin

text \<open>
  Go's package \<open>flag\<close> as the command line uses it: \<open>FlagSet.Parse\<close> of the arguments into a value, one
  setter for each flag, and the setters of text, numbers and switches (\<open>strconv.ParseInt\<close> in base 0 and
  \<open>ParseBool\<close>). The lemmas say which arguments are read as what.
\<close>

section \<open>Values\<close>

text \<open>A flag: whether it is a switch, and its \<open>Set\<close>, with \<open>None\<close> for a refused value.\<close>

type_synonym 'r setter = "string \<Rightarrow> 'r \<Rightarrow> 'r option"
type_synonym 'r flags = "(string \<times> bool \<times> 'r setter) list"

definition str_flag :: "((string \<Rightarrow> string) \<Rightarrow> 'r \<Rightarrow> 'r) \<Rightarrow> bool \<times> 'r setter" where
  "str_flag upd = (False, \<lambda>v r. Some (upd (\<lambda>_. v) r))"

definition parse_bool :: "string \<Rightarrow> bool option" where
  "parse_bool v =
     (if List.member [''1'', ''t'', ''T'', ''TRUE'', ''true'', ''True''] v then Some True
      else if List.member [''0'', ''f'', ''F'', ''FALSE'', ''false'', ''False''] v then Some False else None)"

definition bool_flag :: "((bool \<Rightarrow> bool) \<Rightarrow> 'r \<Rightarrow> 'r) \<Rightarrow> bool \<times> 'r setter" where
  "bool_flag upd = (True, \<lambda>v r. map_option (\<lambda>b. upd (\<lambda>_. b) r) (parse_bool v))"

subsection \<open>Numbers in base 0\<close>

definition lower_byte :: "char \<Rightarrow> nat" where
  "lower_byte c = (if 65 \<le> byte c \<and> byte c \<le> 90 then byte c + 32 else byte c)"

definition digit_of :: "char \<Rightarrow> nat option" where
  "digit_of c = (if is_digit c then Some (byte c - 48)
     else if 97 \<le> lower_byte c \<and> lower_byte c \<le> 122 then Some (lower_byte c - 87) else None)"

text \<open>The prefix of a base: 0b, 0o and 0x before a digit, and 0 alone for octal.\<close>

definition base_of :: "string \<Rightarrow> nat \<times> string" where
  "base_of s = (case s of [] \<Rightarrow> (10, [])
     | c # t \<Rightarrow> if c \<noteq> CHR ''0'' then (10, s)
         else case t of
           x # d # u \<Rightarrow> if lower_byte x = 98 then (2, d # u) else if lower_byte x = 111 then (8, d # u)
             else if lower_byte x = 120 then (16, d # u) else (8, t)
         | _ \<Rightarrow> (8, t))"

fun digits_value :: "nat \<Rightarrow> string \<Rightarrow> nat \<Rightarrow> nat option" where
  "digits_value base [] n = Some n"
| "digits_value base (c # s) n =
     (if c = CHR ''_'' then digits_value base s n
      else case digit_of c of None \<Rightarrow> None
        | Some d \<Rightarrow> if d < base then digits_value base s (base * n + d) else None)"

text \<open>\<open>underscoreOK\<close>: an underscore stands between digits, or after the prefix; \<open>saw\<close> is what came last.\<close>

datatype saw = SawStart | SawDigit | SawUnderscore | SawOther

fun underscores :: "bool \<Rightarrow> saw \<Rightarrow> string \<Rightarrow> bool" where
  "underscores hex saw [] \<longleftrightarrow> saw \<noteq> SawUnderscore"
| "underscores hex saw (c # s) \<longleftrightarrow>
     (if is_digit c \<or> hex \<and> 97 \<le> lower_byte c \<and> lower_byte c \<le> 102 then underscores hex SawDigit s
      else if c = CHR ''_'' then saw = SawDigit \<and> underscores hex SawUnderscore s
      else saw \<noteq> SawUnderscore \<and> underscores hex SawOther s)"

definition underscore_ok :: "string \<Rightarrow> bool" where
  "underscore_ok s = (case s of
     c # x # t \<Rightarrow> if c = CHR ''0'' \<and> List.member [98, 111, 120] (lower_byte x)
       then underscores (lower_byte x = 120) SawDigit t else underscores False SawStart s
   | _ \<Rightarrow> underscores False SawStart s)"

definition parse_int0 :: "string \<Rightarrow> int option" where
  "parse_int0 s =
     (case sign_of s of (negative, t) \<Rightarrow> case base_of t of (base, ds) \<Rightarrow>
        if t = [] \<or> List.member t (CHR ''_'') \<and> \<not> underscore_ok t then None
        else case digits_value base ds 0 of None \<Rightarrow> None
        | Some n \<Rightarrow> let i = (if negative then - int n else int n) in if in_int64 i then Some i else None)"

definition int_flag :: "((int \<Rightarrow> int) \<Rightarrow> 'r \<Rightarrow> 'r) \<Rightarrow> bool \<times> 'r setter" where
  "int_flag upd = (False, \<lambda>v r. map_option (\<lambda>i. upd (\<lambda>_. i) r) (parse_int0 v))"

section \<open>Parse\<close>

text \<open>What the first argument is: no flag, the end of the flags, bad, or a flag with its value when it has one.\<close>

datatype arg = NoFlag | EndFlags | BadFlag | Flag string "string option"

definition read_arg :: "string \<Rightarrow> arg" where
  "read_arg s =
     (if length s < 2 \<or> hd s \<noteq> CHR ''-'' then NoFlag
      else if s = ''--'' then EndFlags
      else let name = (if s ! 1 = CHR ''-'' then drop 2 s else drop 1 s) in
        case name of [] \<Rightarrow> BadFlag
        | c # rest \<Rightarrow> if c = CHR ''-'' \<or> c = CHR ''='' then BadFlag
            else case cut (CHR ''='') rest of (n, v) \<Rightarrow> Flag (c # n) v)"

text \<open>\<open>None\<close> is an error, which ends the program with its usage: a bad or unknown flag, help, a missing or refused value.\<close>

function parse_flags :: "'r flags \<Rightarrow> string list \<Rightarrow> 'r \<Rightarrow> ('r \<times> string list) option" where
  "parse_flags fs args r = (case args of [] \<Rightarrow> Some (r, [])
     | s # rest \<Rightarrow> (case read_arg s of
         NoFlag \<Rightarrow> Some (r, args)
       | EndFlags \<Rightarrow> Some (r, rest)
       | BadFlag \<Rightarrow> None
       | Flag n v \<Rightarrow> (case map_of fs n of
           None \<Rightarrow> None
         | Some (switch, assign) \<Rightarrow>
             (case (if switch then Some (case v of None \<Rightarrow> ''true'' | Some x \<Rightarrow> x, rest)
                    else case v of Some x \<Rightarrow> Some (x, rest)
                      | None \<Rightarrow> (case rest of [] \<Rightarrow> None | x # rest' \<Rightarrow> Some (x, rest'))) of
                None \<Rightarrow> None
              | Some (x, rest') \<Rightarrow> (case assign x r of None \<Rightarrow> None | Some r' \<Rightarrow> parse_flags fs rest' r')))))"
  by pat_completeness auto

termination
  by (relation "measure (\<lambda>(fs, args, r). length args)") (auto split: if_splits option.splits list.splits)

declare parse_flags.simps [simp del]

section \<open>Lemmas\<close>

text \<open>The name of a flag.\<close>

definition flag_name :: "string \<Rightarrow> bool" where
  "flag_name n \<longleftrightarrow> n \<noteq> [] \<and> hd n \<noteq> CHR ''-'' \<and> CHR ''='' \<notin> set n"

lemma read_flag [simp]:
  assumes "flag_name n"
  shows "read_arg (CHR ''-'' # n) = Flag n None" "read_arg (CHR ''-'' # CHR ''-'' # n) = Flag n None"
    "read_arg (CHR ''-'' # n @ CHR ''='' # v) = Flag n (Some v)" "read_arg (CHR ''-'' # CHR ''-'' # n @ CHR ''='' # v) = Flag n (Some v)"
proof -
  obtain c m where n: "n = c # m" "c \<noteq> CHR ''-''" "c \<noteq> CHR ''=''" "CHR ''='' \<notin> set m"
    using assms by (cases n) (auto simp: flag_name_def)
  then show "read_arg (CHR ''-'' # n) = Flag n None" "read_arg (CHR ''-'' # CHR ''-'' # n) = Flag n None"
    "read_arg (CHR ''-'' # n @ CHR ''='' # v) = Flag n (Some v)" "read_arg (CHR ''-'' # CHR ''-'' # n @ CHR ''='' # v) = Flag n (Some v)"
    using cut_no [of "CHR ''=''" m] cut_append [of "CHR ''=''" m v] by (simp_all add: read_arg_def)
qed

lemma parse_no_args [simp]: "parse_flags fs [] r = Some (r, [])"
  by (simp add: parse_flags.simps)

lemma parse_not_flag: "read_arg s = NoFlag \<Longrightarrow> parse_flags fs (s # rest) r = Some (r, s # rest)"
  by (simp add: parse_flags.simps)

text \<open>The four spellings of a flag with a value are read alike.\<close>

lemma parse_valued:
  assumes "flag_name n" and "map_of fs n = Some (False, f)"
  shows "parse_flags fs ((CHR ''-'' # n) # v # rest) r = (case f v r of None \<Rightarrow> None | Some r \<Rightarrow> parse_flags fs rest r)"
    "parse_flags fs ((CHR ''-'' # CHR ''-'' # n) # v # rest) r = (case f v r of None \<Rightarrow> None | Some r \<Rightarrow> parse_flags fs rest r)"
    "parse_flags fs ((CHR ''-'' # n @ CHR ''='' # v) # rest) r = (case f v r of None \<Rightarrow> None | Some r \<Rightarrow> parse_flags fs rest r)"
    "parse_flags fs ((CHR ''-'' # CHR ''-'' # n @ CHR ''='' # v) # rest) r = (case f v r of None \<Rightarrow> None | Some r \<Rightarrow> parse_flags fs rest r)"
  using assms by (simp_all add: parse_flags.simps [of fs "_ # _"])

lemma parse_switch:
  assumes "flag_name n" and "map_of fs n = Some (True, f)"
  shows "parse_flags fs ((CHR ''-'' # CHR ''-'' # n) # rest) r = (case f ''true'' r of None \<Rightarrow> None | Some r \<Rightarrow> parse_flags fs rest r)"
  using assms by (simp add: parse_flags.simps [of fs "_ # _"])

text \<open>A number of lines as \<open>fmt.Sprint\<close> writes it is read by \<open>Int\<close> as it was.\<close>

lemma digits_value_digits:
  "list_all is_digit s \<Longrightarrow> digits_value 10 s n = Some (foldl (\<lambda>n c. 10 * n + digit_val c) n s)"
proof (induction s arbitrary: n)
  case (Cons c s)
  then have c: "is_digit c" by simp
  then have "c \<noteq> CHR ''_''" "digit_val c < 10" "digit_of c = Some (digit_val c)"
    by (auto simp: digit_of_def digit_val_def is_digit_def)
  then show ?case using Cons by simp
qed simp

lemma parse_int0_show: "0 \<le> i \<Longrightarrow> i \<le> max_int64 \<Longrightarrow> parse_int0 (show_int i) = Some i"
proof -
  assume i: "0 \<le> i" "i \<le> max_int64"
  obtain c t where c: "show_nat (nat i) = c # t" by (metis list.exhaust show_nat_nonempty)
  have d: "list_all is_digit (show_nat (nat i))" using show_nat_digits by (simp add: list_all_iff)
  then have u: "CHR ''_'' \<notin> set (show_nat (nat i))" by (auto simp: list_all_iff is_digit_def)
  have v: "digits_value 10 (show_nat (nat i)) 0 = Some (nat i)"
    using digits_value_digits [OF d, of 0] read_show_nat [of "nat i"] by (simp add: read_nat_def)
  have z: "char_of (48 :: nat) = CHR ''0''"
    by (rule of_char_eq_iff [where 'a = nat, THEN iffD1]) simp
  have b: "base_of (show_nat (nat i)) = (if nat i = 0 then (8, []) else (10, show_nat (nat i)))"
    using show_nat_head [of "nat i" t] c z by (auto simp: base_of_def show_nat.simps [of 0] digit_char_def)
  show ?thesis
    using i u v b sign_of_show [of i] by (auto simp: parse_int0_def show_int_def Let_def min_int64_def max_int64_def)
qed

end
