(* ===== verification/Target.thy ===== *)
theory Target
  imports Flags GoPath Problem
begin

text \<open>
  \<open>project.go\<close> of the command line: the flags that name a project and the project they find, as docker
  compose finds one. The world is a parameter: the working directory, \<open>os.Stat\<close> (whether a path is a
  directory), \<open>os.ReadFile\<close>, standard input, the value of the top-level key \<open>name\<close> that the yaml package
  decodes of a file, and compose-go's \<open>NormalizeProjectName\<close>.
\<close>

record world =
  wdCwd :: "string + string"
  wdStat :: "string \<Rightarrow> string + bool"
  wdRead :: "string \<Rightarrow> string + string"
  wdStdin :: "string + string"
  wdName :: "string \<Rightarrow> yaml"
  wdNormalize :: "string \<Rightarrow> string"

record project_flags =
  pfProject :: string
  pfFile :: string
  pfDir :: string

record target =
  tgName :: string
  tgDir :: string
  tgFile :: string

definition composeFiles :: "string list" where
  "composeFiles = [''compose.yaml'', ''compose.yml'', ''docker-compose.yaml'', ''docker-compose.yml'']"

text \<open>\<open>projectFlags.add\<close>.\<close>

definition pf_flags :: "'a project_flags_scheme flags" where
  "pf_flags = [(''p'', str_flag pfProject_update), (''project'', str_flag pfProject_update),
     (''f'', str_flag pfFile_update), (''file'', str_flag pfFile_update), (''project-dir'', str_flag pfDir_update)]"

text \<open>\<open>filepath.Abs\<close>.\<close>

definition path_abs :: "string \<Rightarrow> string \<Rightarrow> string" where
  "path_abs cwd p = (if path_is_abs p then path_clean p else path_join [cwd, p])"

definition exists_at :: "world \<Rightarrow> string \<Rightarrow> bool" where
  "exists_at w p \<longleftrightarrow> (case wdStat w p of Inl _ \<Rightarrow> False | Inr _ \<Rightarrow> True)"

definition find_file :: "world \<Rightarrow> string \<Rightarrow> string" where
  "find_file w cwd = (case find (exists_at w) (map (\<lambda>n. path_join [cwd, n]) composeFiles) of None \<Rightarrow> [] | Some p \<Rightarrow> p)"

text \<open>The directory and the text of the file.\<close>

definition read_target :: "world \<Rightarrow> string \<Rightarrow> string \<Rightarrow> bool \<Rightarrow> string + string \<times> string" where
  "read_target w cwd file optional =
     (if file = [] then
        if optional then Inr (cwd, [])
        else Inl (''no Compose file: none of ['' @ join '' '' composeFiles @ ''] is in '' @ cwd @ ''; name one with -f'')
      else if file = ''-'' then (case wdStdin w of Inl e \<Rightarrow> Inl e | Inr text \<Rightarrow> Inr (cwd, text))
      else let p = path_abs cwd file in
        case wdRead w p of Inl e \<Rightarrow> Inl e | Inr text \<Rightarrow> Inr (path_dir p, text))"

definition target_dir :: "world \<Rightarrow> string \<Rightarrow> string \<Rightarrow> string \<Rightarrow> string + string" where
  "target_dir w cwd flag dir =
     (if flag = [] then Inr dir
      else let d = path_abs cwd flag in
        case wdStat w d of Inl e \<Rightarrow> Inl e
        | Inr folder \<Rightarrow> if folder then Inr d else Inl (d @ '' is not a directory''))"

definition target_name :: "world \<Rightarrow> string \<Rightarrow> string \<Rightarrow> string \<Rightarrow> string" where
  "target_name w flag text dir =
     (if flag \<noteq> [] then flag
      else case wdName w text of YStr n \<Rightarrow> n | _ \<Rightarrow> wdNormalize w (path_base dir))"

definition resolve_target :: "world \<Rightarrow> 'a project_flags_scheme \<Rightarrow> bool \<Rightarrow> string + target" where
  "resolve_target w f optional = (case wdCwd w of
     Inl e \<Rightarrow> Inl e
   | Inr cwd \<Rightarrow> (case read_target w cwd (if pfFile f = [] then find_file w cwd else pfFile f) optional of
       Inl e \<Rightarrow> Inl e
     | Inr (d0, text) \<Rightarrow> (case target_dir w cwd (pfDir f) d0 of
         Inl e \<Rightarrow> Inl e
       | Inr dir \<Rightarrow>
           let name = target_name w (pfProject f) text dir in
           if name = [] then Inl (dir @ '' names no project; name one with -p'')
           else Inr \<lparr>tgName = name, tgDir = dir, tgFile = text\<rparr>)))"

section \<open>What is found\<close>

lemma plain_compose_file: "n \<in> set composeFiles \<Longrightarrow> plain_elem n"
  by (auto simp: composeFiles_def plain_elem_def)

text \<open>A file in a clean absolute directory: its path, and the directory back.\<close>

lemma join_in_dir:
  assumes "clean_abs cwd" and "plain_elem n"
  shows "\<exists>es. list_all plain_elem es \<and> cwd = slash # join ''/'' es \<and> path_join [cwd, n] = slash # join ''/'' (es @ [n])"
proof -
  obtain es where es: "list_all plain_elem es" "cwd = slash # join ''/'' es" using assms(1) by (auto simp: clean_abs_iff)
  have "path_join [cwd, n] = path_clean (cwd @ ''/'' @ n)" using es assms(2) by (simp add: path_join_def plain_elem_def)
  also have "\<dots> = slash # join ''/'' (es @ [n])"
  proof -
    have "split_on slash (join ''/'' es @ slash # n) = split_on slash (join ''/'' es) @ [n]"
    proof -
      have "split_on slash (t @ slash # n) = split_on slash t @ [n]" for t
        using split_on_single [of slash n] assms(2)
        by (induction t) (auto simp: plain_elem_def split: list.splits)
      then show ?thesis .
    qed
    then have "fold (clean_step True) (split_on slash (join ''/'' es @ slash # n)) [] = rev (es @ [n])"
    proof (cases "es = []")
      case False
      then have "split_on slash (join ''/'' es) = es"
        using es(1) by (intro split_on_join) (auto simp: plain_elem_def list_all_iff)
      then show ?thesis using \<open>split_on slash (join ''/'' es @ slash # n) = split_on slash (join ''/'' es) @ [n]\<close>
          fold_clean_plain [of "es @ [n]" True "[]"] es(1) assms(2) by simp
    qed (use split_on_single [of slash n] assms(2) in \<open>auto simp: plain_elem_def clean_step_def\<close>)
    then show ?thesis using es(2) by (simp add: path_clean_rooted)
  qed
  finally show ?thesis using es by blast
qed

lemma clean_trailing:
  assumes "list_all plain_elem es" shows "path_clean (slash # join ''/'' es @ ''/'') = slash # join ''/'' es"
proof -
  have "split_on slash (t @ ''/'') = split_on slash t @ [[]]" for t
    by (induction t) (auto split: list.splits)
  then have "fold (clean_step True) (split_on slash (join ''/'' es @ ''/'')) [] = fold (clean_step True) (split_on slash (join ''/'' es)) []"
    by (simp add: clean_step_def)
  then show ?thesis using path_clean_plain [OF assms] by (simp add: path_clean_rooted)
qed

lemma dir_of_file:
  assumes "list_all plain_elem es" and "plain_elem n"
  shows "path_dir (slash # join ''/'' (es @ [n])) = slash # join ''/'' es"
proof -
  have n: "dropWhile (\<lambda>c. c \<noteq> slash) (rev n @ slash # t) = slash # t" for t
    using assms(2) by (subst dropWhile_append2) (auto simp: plain_elem_def)
  show ?thesis
  proof (cases "es = []")
    case True
    then show ?thesis using n [of "[]"] by (simp add: path_dir_def path_clean_def clean_step_def)
  next
    case False
    have "rev (slash # join ''/'' (es @ [n])) = rev n @ slash # rev (slash # join ''/'' es)"
      using False by (simp add: join_snoc)
    then have "path_dir (slash # join ''/'' (es @ [n])) = path_clean (slash # join ''/'' es @ ''/'')"
      using n by (simp add: path_dir_def)
    then show ?thesis using clean_trailing [OF assms(1)] by simp
  qed
qed

lemma file_in_dir:
  assumes "clean_abs cwd" and "plain_elem n"
  shows "path_dir (path_join [cwd, n]) = cwd" "path_abs cwd (path_join [cwd, n]) = path_join [cwd, n]" "path_join [cwd, n] \<noteq> []"
    "path_join [cwd, n] \<noteq> ''-''"
proof -
  obtain es where es: "list_all plain_elem es" "cwd = slash # join ''/'' es" "path_join [cwd, n] = slash # join ''/'' (es @ [n])"
    using join_in_dir [OF assms] by blast
  show "path_dir (path_join [cwd, n]) = cwd" "path_join [cwd, n] \<noteq> []" "path_join [cwd, n] \<noteq> ''-''"
    using dir_of_file [OF es(1) assms(2)] es by simp_all
  show "path_abs cwd (path_join [cwd, n]) = path_join [cwd, n]"
    using path_clean_plain [of "es @ [n]"] es assms(2) by (simp add: path_abs_def path_is_abs_def)
qed

text \<open>
  Without flags the project is found as docker compose finds one. The file is the first
  of the four names that exists in the working directory, read whole; the project directory is the working
  directory; the name is the file's own, or else made of the last
  element of the directory's path, and it is not empty.
\<close>

theorem found_in_working_directory:
  assumes "wdCwd w = Inr cwd" and "clean_abs cwd"
    and "resolve_target w \<lparr>pfProject = [], pfFile = [], pfDir = []\<rparr> False = Inr t"
  shows "tgDir t = cwd
    \<and> (\<exists>before n after. composeFiles = before @ n # after \<and> list_all (\<lambda>m. \<not> exists_at w (path_join [cwd, m])) before
        \<and> exists_at w (path_join [cwd, n]) \<and> wdRead w (path_join [cwd, n]) = Inr (tgFile t))
    \<and> tgName t = (case wdName w (tgFile t) of YStr n \<Rightarrow> n | _ \<Rightarrow> wdNormalize w (path_base cwd)) \<and> tgName t \<noteq> []"
proof -
  obtain p where p: "find (exists_at w) (map (\<lambda>n. path_join [cwd, n]) composeFiles) = Some p"
    using assms(1,3) by (cases "find (exists_at w) (map (\<lambda>n. path_join [cwd, n]) composeFiles)")
      (auto simp: resolve_target_def find_file_def read_target_def)
  then obtain i where i: "i < length composeFiles" "p = path_join [cwd, composeFiles ! i]" "exists_at w p"
    "\<forall>j < i. \<not> exists_at w (path_join [cwd, composeFiles ! j])"
    by (auto simp: find_Some_iff)
  let ?n = "composeFiles ! i"
  have n: "plain_elem ?n" using plain_compose_file i(1) by simp
  note f = file_in_dir [OF assms(2) n, folded i(2)]
  have found: "find_file w cwd = p" using p by (simp add: find_file_def)
  obtain body where r: "wdRead w p = Inr body"
    using assms(1,3) f by (cases "wdRead w p") (auto simp: resolve_target_def found read_target_def Let_def)
  have t: "t = \<lparr>tgName = target_name w [] body cwd, tgDir = cwd, tgFile = body\<rparr>" "target_name w [] body cwd \<noteq> []"
    using assms(1,3) f r by (auto simp: resolve_target_def found read_target_def target_dir_def Let_def split: if_splits)
  have "composeFiles = take i composeFiles @ ?n # drop (Suc i) composeFiles" using i(1) by (rule id_take_nth_drop)
  moreover have "list_all (\<lambda>m. \<not> exists_at w (path_join [cwd, m])) (take i composeFiles)"
    using i(1,4) by (auto simp: list_all_iff in_set_conv_nth)
  ultimately show ?thesis using t r i by (auto simp: target_name_def)
qed

definition rig_world :: world where
  "rig_world = \<lparr>wdCwd = Inr ''/srv/app'', wdStat = (\<lambda>p. if p = ''/srv/app/compose.yml'' then Inr False else Inl ''no such file or directory''),
     wdRead = (\<lambda>p. if p = ''/srv/app/compose.yml'' then Inr ''a=img'' else Inl ''no such file or directory''),
     wdStdin = Inr [], wdName = (\<lambda>t. YNull), wdNormalize = (\<lambda>n. n)\<rparr>"

lemma found_in_working_directory_witness:
  "resolve_target rig_world \<lparr>pfProject = [], pfFile = [], pfDir = []\<rparr> False
     = Inr \<lparr>tgName = ''app'', tgDir = ''/srv/app'', tgFile = ''a=img''\<rparr>
   \<and> (\<exists>before n after. composeFiles = before @ n # after \<and> wdRead rig_world (path_join [''/srv/app'', n]) = Inr ''a=img'')"
proof -
  have r: "resolve_target rig_world \<lparr>pfProject = [], pfFile = [], pfDir = []\<rparr> False
     = Inr \<lparr>tgName = ''app'', tgDir = ''/srv/app'', tgFile = ''a=img''\<rparr>" by code_simp
  have c: "clean_abs ''/srv/app''" by code_simp
  have w: "wdCwd rig_world = Inr ''/srv/app''" by (simp add: rig_world_def)
  show ?thesis using found_in_working_directory [OF w c r] r by fastforce
qed

end
