(* ===== verification/Tabwriter.thy ===== *)
theory Tabwriter
  imports Json
begin

text \<open>
  Go's \<open>text/tabwriter\<close>, with a padding of two spaces and no flags: what a text of lines is laid out as, and what that is when
  the cells are plain. The text is UTF-8, in which the byte the package escapes with does not occur.
\<close>

section \<open>The layout\<close>

text \<open>The width of a cell is its number of runes.\<close>

definition runes :: "string \<Rightarrow> nat" where
  "runes s = length (filter (\<lambda>c. \<not> (0x80 \<le> byte c \<and> byte c < 0xC0)) s)"

text \<open>A tab ends a cell, and so does a vertical tab; what is left at the end of a line is its last cell.\<close>

definition cells_of :: "string \<Rightarrow> string list" where
  "cells_of s = split_on (CHR 0x09) (map (\<lambda>c. if c = CHR 0x0B then CHR 0x09 else c) s)"

text \<open>
  A column is a block of adjacent lines that have a cell there, other than their last. It is as wide as its widest cell
  and two more. The last cell of a line is not padded.
\<close>

definition column :: "string list list \<Rightarrow> nat \<Rightarrow> nat \<Rightarrow> string list list" where
  "column ls i j = (let has = (\<lambda>l. Suc j < length l) in takeWhile has (rev (take i ls)) @ takeWhile has (drop i ls))"

definition width :: "string list list \<Rightarrow> nat \<Rightarrow> nat \<Rightarrow> nat" where
  "width ls i j = fold max (map (\<lambda>l. runes (l ! j)) (column ls i j)) 0 + 2"

definition pad :: "nat \<Rightarrow> string \<Rightarrow> string" where
  "pad w s = s @ replicate (w - runes s) (CHR '' '')"

definition laid_line :: "string list list \<Rightarrow> nat \<Rightarrow> string" where
  "laid_line ls i = (let l = ls ! i in
     concat (map (\<lambda>j. if Suc j = length l then l ! j else pad (width ls i j) (l ! j)) [0..<length l]) @ [CHR 0x0A])"

definition laid_out :: "string list \<Rightarrow> string" where
  "laid_out lines = (let ls = map cells_of lines in concat (map (laid_line ls) [0..<length ls]))"

text \<open>A newline ends a line; a form feed ends one too, and all columns with it. The text ends with a newline.\<close>

definition tabwriter :: "string \<Rightarrow> string" where
  "tabwriter s = (let parts = map (split_on (CHR 0x0A)) (split_on (CHR 0x0C) s) in
     concat (map laid_out (butlast parts)) @ laid_out (butlast (last parts)))"

section \<open>Plain cells\<close>

definition plain_cell :: "string \<Rightarrow> bool" where
  "plain_cell s \<longleftrightarrow> list_all (\<lambda>c. c \<notin> {CHR 0x09, CHR 0x0A, CHR 0x0B, CHR 0x0C}) s"

definition row_text :: "string list \<Rightarrow> string" where
  "row_text r = join [CHR 0x09] r @ [CHR 0x0A]"

text \<open>A table with one line for each row, and the columns of the rows.\<close>

definition col_width :: "string list list \<Rightarrow> nat \<Rightarrow> nat" where
  "col_width rows j = fold max (map (\<lambda>r. runes (r ! j)) rows) 0 + 2"

definition table_line :: "string list list \<Rightarrow> string list \<Rightarrow> string" where
  "table_line rows r =
     concat (map (\<lambda>j. if Suc j = length r then r ! j else pad (col_width rows j) (r ! j)) [0..<length r]) @ [CHR 0x0A]"

definition table_text :: "string list list \<Rightarrow> string" where
  "table_text rows = concat (map (table_line rows) rows)"

lemma plain_cell_not_in: "plain_cell s \<Longrightarrow> CHR 0x09 \<notin> set s" "plain_cell s \<Longrightarrow> CHR 0x0A \<notin> set s"
  "plain_cell s \<Longrightarrow> CHR 0x0B \<notin> set s" "plain_cell s \<Longrightarrow> CHR 0x0C \<notin> set s"
  by (auto simp: plain_cell_def list_all_iff)

lemma join_chars: "set (join [c] ps) \<subseteq> insert c (\<Union> (set (map set ps)))"
  by (induction "[c]" ps rule: join.induct) auto

lemma row_plain:
  assumes "list_all plain_cell r"
  shows "CHR 0x0A \<notin> set (join [CHR 0x09] r)" "CHR 0x0C \<notin> set (join [CHR 0x09] r)" "CHR 0x0B \<notin> set (join [CHR 0x09] r)"
  using assms join_chars [of "CHR 0x09" r] by (auto simp: list_all_iff dest: plain_cell_not_in)

lemma cells_of_row:
  assumes "list_all plain_cell r" and "r \<noteq> []"
  shows "cells_of (join [CHR 0x09] r) = r"
proof -
  have "map (\<lambda>c. if c = CHR 0x0B then CHR 0x09 else c) (join [CHR 0x09] r) = join [CHR 0x09] r"
    using row_plain(3) [OF assms(1)] by (intro map_idI) auto
  then show ?thesis
    using assms by (simp only: cells_of_def) (intro split_on_join, auto simp: list_all_iff dest: plain_cell_not_in)
qed

lemma lines_of_rows:
  "list_all (list_all plain_cell) rows \<Longrightarrow>
    split_on (CHR 0x0A) (concat (map row_text rows)) = map (join [CHR 0x09]) rows @ [[]]"
  by (induction rows) (simp_all add: row_text_def split_on_append row_plain)

lemma fold_max_set: "set xs = set ys \<Longrightarrow> fold max xs (0::nat) = fold max ys 0"
  using Max.set_eq_fold [of "0::nat" xs] Max.set_eq_fold [of "0::nat" ys] by simp

lemma width_rectangle:
  assumes "list_all (\<lambda>r. length r = k) rows" and "Suc j < k"
  shows "width rows i j = col_width rows j"
proof -
  have "\<forall>r \<in> set rows. Suc j < length r" using assms by (auto simp: list_all_iff)
  then have "\<forall>r \<in> set (rev (take i rows)). Suc j < length r" "\<forall>r \<in> set (drop i rows). Suc j < length r"
    by (auto dest: in_set_takeD in_set_dropD)
  then have "takeWhile (\<lambda>l. Suc j < length l) (rev (take i rows)) = rev (take i rows)"
    "takeWhile (\<lambda>l. Suc j < length l) (drop i rows) = drop i rows"
    unfolding takeWhile_eq_all_conv by blast+
  then have "column rows i j = rev (take i rows) @ drop i rows" by (simp only: column_def Let_def)
  moreover have "set (take i rows) \<union> set (drop i rows) = set rows" by (metis append_take_drop_id set_append)
  then have "set (map (\<lambda>l. runes (l ! j)) (rev (take i rows) @ drop i rows)) = set (map (\<lambda>l. runes (l ! j)) rows)"
    by (metis set_append set_map set_rev)
  ultimately show ?thesis unfolding width_def col_width_def using fold_max_set by metis
qed

text \<open>When no cell holds a tab, a vertical tab, a form feed or a newline, the text is one line for each row.\<close>

lemma tabwriter_rows:
  assumes "list_all (list_all plain_cell) rows" and "list_all (\<lambda>r. length r = Suc k) rows"
  shows "tabwriter (concat (map row_text rows)) = table_text rows"
proof -
  have "CHR 0x0C \<notin> set (concat (map row_text rows))"
    using assms(1) row_plain(2) by (auto simp: row_text_def list_all_iff)
  then have "tabwriter (concat (map row_text rows)) = laid_out (map (join [CHR 0x09]) rows)"
    using lines_of_rows [OF assms(1)] by (simp add: tabwriter_def split_on_single)
  moreover have "map cells_of (map (join [CHR 0x09]) rows) = rows"
    using assms by (force simp: list_all_iff intro!: map_idI cells_of_row)
  moreover have "laid_line rows i = table_line rows (rows ! i)" if "i < length rows" for i
  proof -
    have "length (rows ! i) = Suc k" using assms(2) that by (simp add: list_all_length)
    then show ?thesis using width_rectangle [OF assms(2)]
      unfolding laid_line_def table_line_def Let_def by (intro arg_cong2 [where f = append] arg_cong [where f = concat] map_cong) auto
  qed
  then have "map (laid_line rows) [0..<length rows] = map (table_line rows) rows" by (intro nth_equalityI) auto
  ultimately show ?thesis by (simp add: laid_out_def Let_def table_text_def)
qed

end
