(* ===== verification/Ctl.thy ===== *)
theory Ctl
  imports Api Target Tabwriter
begin

text \<open>
  \<open>ctl.go\<close>, the client of the API: \<open>ctl_plan\<close> is what the arguments ask for, a usage error, a failure or a
  request with the way its answer is shown; \<open>client_do\<close> is \<open>client.do\<close> over \<open>net\<close>, the connection to the
  server; \<open>ctl\<close> runs the one through the other. \<open>http.Client\<close> follows redirects. What \<open>flag\<close> prints of its
  own before the usage, and what the errors of \<open>net/http\<close> and \<open>net/url\<close> read like, is not modelled.
\<close>

section \<open>Arguments\<close>

datatype shown = Copied | Containers | Projects

text \<open>A request: method, path with its query, body, and whether the body can be sent again.\<close>

datatype plan =
    Usage
  | Failed string nat
  | Send string string string bool shown

text \<open>A raw string literal, by its lines.\<close>

definition raw_text :: "string list \<Rightarrow> string" where
  "raw_text ls = concat (map (\<lambda>l. l @ [CHR 0x0A]) ls)"

definition ctlUsage :: string where
  "ctlUsage = raw_text
   [''usage: mica-containerd ctl [--socket PATH] <command>'',
    '''',
    ''  status                      the daemon'',
    ''  projects                    every project, with its containers'',
    ''  project PROJECT             one, with its Compose file, as JSON'',
    ''  up [-p PROJECT] [-f FILE] [--project-dir DIR]'',
    ''                              declare a project from its Compose file, found and'',
    ''                              named as docker compose does (- is stdin)'',
    ''  down [-p PROJECT]           remove a project, its containers and its network'',
    ''  apply FILE                  declare exactly the projects of {\"projects\": {\"<name>\":'',
    ''                              \"<compose>\" or {\"compose\": ..., \"projectDir\": ...}}} (- is stdin)'',
    ''  list                        every container'',
    ''  get NAME                    one container, as JSON'',
    ''  start|stop|restart NAME     a container'',
    ''  logs [--tail N] [--follow] NAME'',
    ''  events                      phase changes as they happen'']"

definition defaultSocket :: string where "defaultSocket = ''/run/mica-containerd/api.sock''"

definition ctl_flags :: "string flags" where
  "ctl_flags = [(''socket'', str_flag (\<lambda>f. f))]"

record log_flags =
  lfTail :: int
  lfFollow :: bool

definition lf_flags :: "log_flags flags" where
  "lf_flags = [(''tail'', int_flag lfTail_update), (''follow'', bool_flag lfFollow_update)]"

definition no_pf :: project_flags where "no_pf = \<lparr>pfProject = [], pfFile = [], pfDir = []\<rparr>"

text \<open>A command with one name.\<close>

definition named :: "string list \<Rightarrow> (string \<Rightarrow> plan) \<Rightarrow> plan" where
  "named rest k = (case rest of [n] \<Rightarrow> k (PathEscape n) | _ \<Rightarrow> Usage)"

definition up_down :: "world \<Rightarrow> bool \<Rightarrow> string list \<Rightarrow> plan" where
  "up_down w down rest = (case parse_flags pf_flags rest no_pf of
     None \<Rightarrow> Usage
   | Some (pf, left) \<Rightarrow>
       if left \<noteq> [] \<or> down \<and> (pfFile pf \<noteq> [] \<or> pfDir pf \<noteq> []) then Usage
       else (case resolve_target w pf down of
           Inl e \<Rightarrow> Failed (''mica-containerd ctl: '' @ e @ [CHR 0x0A]) 2
         | Inr t \<Rightarrow>
             if down then Send ''DELETE'' (''/v1/projects/'' @ PathEscape (tgName t)) [] True Copied
             else Send ''PUT'' (''/v1/projects/'' @ PathEscape (tgName t) @ ''?'' @ encode_query [(''projectDir'', tgDir t)])
                    (tgFile t) True Copied))"

definition readFile :: "world \<Rightarrow> string \<Rightarrow> string + string" where
  "readFile w path = (if path = ''-'' then wdStdin w else wdRead w path)"

definition apply_file :: "world \<Rightarrow> string list \<Rightarrow> plan" where
  "apply_file w rest = (case rest of
     [p] \<Rightarrow> (case readFile w p of
         Inl e \<Rightarrow> Failed (e @ [CHR 0x0A]) 1 | Inr body \<Rightarrow> Send ''PUT'' ''/v1/projects'' body False Projects)
   | _ \<Rightarrow> Usage)"

definition log_query :: "log_flags \<Rightarrow> (string \<times> string) list" where
  "log_query lf = (if lfTail lf \<ge> 0 then [(''tail'', show_int (lfTail lf))] else [])
     @ (if lfFollow lf then [(''follow'', ''1'')] else [])"

definition logs_command :: "string list \<Rightarrow> plan" where
  "logs_command rest = (case parse_flags lf_flags rest \<lparr>lfTail = - 1, lfFollow = False\<rparr> of
     Some (lf, [n]) \<Rightarrow> Send ''GET'' (''/v1/containers/'' @ PathEscape n @ ''/logs?'' @ encode_query (log_query lf)) [] True Copied
   | _ \<Rightarrow> Usage)"

definition command :: "world \<Rightarrow> string list \<Rightarrow> plan" where
  "command w a = (case a of [] \<Rightarrow> Usage
     | c # rest \<Rightarrow>
       if c = ''status'' then Send ''GET'' ''/v1/status'' [] True Copied
       else if c = ''projects'' then Send ''GET'' ''/v1/projects'' [] True Projects
       else if c = ''project'' then named rest (\<lambda>n. Send ''GET'' (''/v1/projects/'' @ n) [] True Copied)
       else if c = ''list'' then Send ''GET'' ''/v1/containers'' [] True Containers
       else if c = ''get'' then named rest (\<lambda>n. Send ''GET'' (''/v1/containers/'' @ n) [] True Copied)
       else if c = ''up'' then up_down w False rest
       else if c = ''down'' then up_down w True rest
       else if c = ''start'' \<or> c = ''stop'' \<or> c = ''restart''
         then named rest (\<lambda>n. Send ''POST'' (''/v1/containers/'' @ n @ ''/'' @ c) [] True Copied)
       else if c = ''apply'' then apply_file w rest
       else if c = ''logs'' then logs_command rest
       else if c = ''events'' then Send ''GET'' ''/v1/events'' [] True Copied
       else Usage)"

text \<open>The socket to connect to, and the plan.\<close>

definition ctl_plan :: "world \<Rightarrow> string list \<Rightarrow> string \<times> plan" where
  "ctl_plan w args = (case parse_flags ctl_flags args defaultSocket of
     None \<Rightarrow> (defaultSocket, Usage) | Some (socket, a) \<Rightarrow> (socket, command w a))"

section \<open>The client\<close>

text \<open>\<open>http.NewRequest\<close> and the first line the server reads of it: the fragment is not sent.\<close>

definition control :: "char \<Rightarrow> bool" where
  "control c \<longleftrightarrow> byte c < 0x20 \<or> byte c = 0x7F"

definition request_of :: "string \<Rightarrow> string \<Rightarrow> string \<Rightarrow> request option" where
  "request_of method url body =
     (if list_ex control url then None
      else case cut (CHR ''?'') (fst (cut (CHR ''#'') url)) of (p, q) \<Rightarrow>
        map_option (\<lambda>p. \<lparr>rqMethod = method, rqPath = p, rqQuery = (case q of None \<Rightarrow> [] | Some q \<Rightarrow> q), rqBody = body, rqChanges = []\<rparr>)
          (escaped_path p))"

text \<open>
  \<open>http.Client.Do\<close>: at most ten requests. 301, 302 and 303 are followed with \<open>GET\<close> and no body,
  307 and 308 with the request again, when its body can be sent again.
\<close>

definition redirected :: "bool \<Rightarrow> request \<Rightarrow> response \<Rightarrow> (string \<times> string) option" where
  "redirected again rq r =
     (if rsLocation r = [] then None
      else if List.member [301, 302, 303] (rsCode r) then
        Some (if rqMethod rq = ''HEAD'' then ''HEAD'' else ''GET'', [])
      else if List.member [307, 308] (rsCode r) \<and> again then Some (rqMethod rq, rqBody rq)
      else None)"

fun fetch :: "(request \<Rightarrow> 's \<Rightarrow> (string + response) \<times> 's) \<Rightarrow> nat \<Rightarrow> bool \<Rightarrow> request \<Rightarrow> 's \<Rightarrow> (string + response) \<times> 's" where
  "fetch net n again rq s = (case net rq s of
     (Inl e, s) \<Rightarrow> (Inl e, s)
   | (Inr r, s) \<Rightarrow> (case redirected again rq r of
       None \<Rightarrow> (Inr r, s)
     | Some (m, body) \<Rightarrow> (case n of
         0 \<Rightarrow> (Inl ''stopped after 10 redirects'', s)
       | Suc n \<Rightarrow> (case request_of m (rsLocation r) body of
           None \<Rightarrow> (Inl ''failed to parse Location header'', s)
         | Some rq' \<Rightarrow> fetch net n again rq' s))))"

record cli =
  clCode :: nat
  clOut :: string
  clErr :: string

text \<open>\<open>show\<close> gives what is printed, or the error of decoding the answer.\<close>

definition client_do :: "(request \<Rightarrow> 's \<Rightarrow> (string + response) \<times> 's) \<Rightarrow> (shown \<Rightarrow> string \<Rightarrow> string + string)
    \<Rightarrow> string \<Rightarrow> string \<Rightarrow> string \<Rightarrow> bool \<Rightarrow> shown \<Rightarrow> 's \<Rightarrow> cli \<times> 's" where
  "client_do net show_as m url body again how s = (case request_of m url body of
     None \<Rightarrow> (\<lparr>clCode = 2, clOut = [], clErr = ''invalid URL'' @ [CHR 0x0A]\<rparr>, s)
   | Some rq \<Rightarrow> (case fetch net 9 again rq s of
       (Inl e, s) \<Rightarrow> (\<lparr>clCode = 1, clOut = [], clErr = ''mica-containerd ctl: '' @ e @ [CHR 0x0A]\<rparr>, s)
     | (Inr r, s) \<Rightarrow>
         (if rsCode r \<ge> 300 then \<lparr>clCode = 1, clOut = [], clErr = rsBody r\<rparr>
          else if rsCode r = 204 then \<lparr>clCode = 0, clOut = [], clErr = []\<rparr>
          else case show_as how (rsBody r) of
            Inl e \<Rightarrow> \<lparr>clCode = 1, clOut = [], clErr = e @ [CHR 0x0A]\<rparr>
          | Inr printed \<Rightarrow> \<lparr>clCode = 0, clOut = printed, clErr = []\<rparr>, s)))"

section \<open>Tables\<close>

text \<open>\<open>container\<close>: the part of an entry the tables show. Unknown keys are skipped.\<close>

record entry_spec =
  esName :: string
  esImage :: string

record entry =
  enProject :: string
  enSpec :: entry_spec
  enDesired :: string
  enPhase :: string
  enRestarts :: int
  enExitCode :: int
  enError :: string

definition zero_entry :: entry where
  "zero_entry = \<lparr>enProject = [], enSpec = \<lparr>esName = [], esImage = []\<rparr>, enDesired = [], enPhase = [], enRestarts = 0,
     enExitCode = 0, enError = []\<rparr>"

definition entry_spec_fields :: "entry_spec fields" where
  "entry_spec_fields = [(''name'', fld d_str esName esName_update), (''image'', fld d_str esImage esImage_update)]"

definition entry_fields :: "entry fields" where
  "entry_fields =
     [(''project'', fld d_str enProject enProject_update),
      (''spec'', fld (d_struct False entry_spec_fields) enSpec enSpec_update),
      (''desired'', fld d_str enDesired enDesired_update), (''phase'', fld d_str enPhase enPhase_update),
      (''restarts'', fld (d_int 64) enRestarts enRestarts_update),
      (''exit_code'', fld (d_int 64) enExitCode enExitCode_update), (''error'', fld d_str enError enError_update)]"

definition d_entries :: "entry list dec" where
  "d_entries = d_list (d_struct False entry_fields) zero_entry"

text \<open>A decoder of a stream takes its first value.\<close>

definition decode_first :: "'a dec \<Rightarrow> string \<Rightarrow> 'a \<Rightarrow> 'a option" where
  "decode_first d body x = (case parse_value (Suc (length body)) body of None \<Rightarrow> None | Some (j, _) \<Rightarrow> d j x)"

definition list_of :: "string \<Rightarrow> 'a list dec \<Rightarrow> 'a list dec" where
  "list_of k d = d_struct False [(k, fld d (\<lambda>m. m) (\<lambda>f m. f m))]"

definition d_services :: "entry list list dec" where
  "d_services = d_list (list_of ''services'' d_entries) []"

text \<open>The cells of the rows.\<close>

definition entry_row :: "entry \<Rightarrow> string list" where
  "entry_row e = [esName (enSpec e), enProject e, enDesired e, enPhase e, show_int (enRestarts e), show_int (enExitCode e),
     esImage (enSpec e), map (\<lambda>c. if c = CHR 0x0A then CHR '' '' else c) (enError e)]"

definition header_row :: "string list" where
  "header_row = [''NAME'', ''PROJECT'', ''DESIRED'', ''PHASE'', ''RESTARTS'', ''EXIT'', ''IMAGE'', ''ERROR'']"

text \<open>
  \<open>table\<close> writes the cells of a row with tabs between them, and a newline. \<open>tabwriter\<close> reads them back out of
  the text: a tab, a vertical tab or a form feed in a cell begins another.
\<close>

definition table :: "entry list \<Rightarrow> string" where
  "table es = tabwriter (concat (map row_text (header_row # map entry_row es)))"

definition decode_failed :: string where "decode_failed = ''json: cannot unmarshal''"

text \<open>\<open>copy\<close> and \<open>printJSON\<close>; the tables of \<open>printTable\<close> and \<open>printProjects\<close>.\<close>

definition copy :: "string \<Rightarrow> string + string" where
  "copy body = Inr body"

definition printTable :: "string \<Rightarrow> string + string" where
  "printTable body = (case decode_first (list_of ''containers'' d_entries) body [] of
     None \<Rightarrow> Inl decode_failed | Some es \<Rightarrow> Inr (table es))"

definition printProjects :: "string \<Rightarrow> string + string" where
  "printProjects body = (case decode_first (list_of ''projects'' d_services) body [] of
     None \<Rightarrow> Inl decode_failed | Some ess \<Rightarrow> Inr (table (concat ess)))"

definition print_as :: "shown \<Rightarrow> string \<Rightarrow> string + string" where
  "print_as how body = (case how of
     Copied \<Rightarrow> copy body | Containers \<Rightarrow> printTable body | Projects \<Rightarrow> printProjects body)"

lemmas print_defs = print_as_def copy_def printTable_def printProjects_def

section \<open>The command\<close>

definition ctl :: "(string \<Rightarrow> request \<Rightarrow> 's \<Rightarrow> (string + response) \<times> 's) \<Rightarrow> world \<Rightarrow> string list \<Rightarrow> 's \<Rightarrow> cli \<times> 's" where
  "ctl dial w args s = (case ctl_plan w args of
     (socket, Usage) \<Rightarrow> (\<lparr>clCode = 2, clOut = [], clErr = ctlUsage\<rparr>, s)
   | (socket, Failed e code) \<Rightarrow> (\<lparr>clCode = code, clOut = [], clErr = e\<rparr>, s)
   | (socket, Send m url body again how) \<Rightarrow> client_do (dial socket) print_as m url body again how s)"

text \<open>The connection to a server of this program.\<close>

definition to_server :: "('d, 'e) server \<Rightarrow> string \<Rightarrow> request \<Rightarrow> ('d, 'e) sup \<Rightarrow> (string + response) \<times> ('d, 'e) sup" where
  "to_server S socket rq s = (case handle S rq s of (r, s) \<Rightarrow> (Inr r, s))"

end
