(* ===== verification/Findings.thy ===== *)
theory Findings
  imports Policies ApiServe Ctl
begin

text \<open>
  Runs of the model in which the code does not do what it means to.
\<close>

text \<open>
  An explicit start of a stopped container that has to wait for a dependency is lost. \<open>reconcile\<close>
  resets the tracking before \<open>start\<close>, so the exit already decided on is forgotten; the next pass
  takes it for a new exit, and the policy leaves the container exited, even though the
  dependency runs by then.
\<close>

definition waiting_spec :: spec where
  "waiting_spec = (rig_spec ''p'' ''a'' ''img'')\<lparr>sDependsOn := [\<lparr>dName = ''b'', dReady = ReadyRunning\<rparr>]\<rparr>"

definition lost_rig :: "(mem, fake \<times> call list) sup" where
  "lost_rig = rig_sup [(''a'', \<lparr>recSpec = waiting_spec, recDesired = Running\<rparr>), rig_record ''b'']
     (fake0\<lparr>fkContainers := [(''a'', fake_exited (rig_boot + 5 * second) 0 (snd (rig_container ''a'' True))),
                            rig_container ''b'' True]\<rparr>)"

definition lost1 :: "(mem, fake \<times> call list) sup" where
  "lost1 = rig_pass (rig_boot + 10 * second) (snd (start_container rig_env ''a'' lost_rig))"

definition lost2 :: "(mem, fake \<times> call list) sup" where
  "lost2 = rig_pass (rig_boot + 20 * second) lost1"

lemma start_lost_while_waiting:
  "tPhase (get_t ''a'' lost1) = PhaseWaiting \<and> tPhase (get_t ''b'' lost1) = PhaseRunning
   \<and> tPhase (get_t ''a'' lost2) = PhaseExited \<and> log_of lost2 = []"
proof -
  have "tPhase (get_t ''a'' lost1) = PhaseWaiting" "tPhase (get_t ''b'' lost1) = PhaseRunning"
    "tPhase (get_t ''a'' lost2) = PhaseExited" "log_of lost2 = []"
    by code_simp+
  then show ?thesis by simp
qed

text \<open>
  A restart that races a deletion leaves tracking for a name nothing declares: \<open>Restart\<close> takes the
  mutex twice, and makes the tracking again after the deletion removed it.
\<close>

lemma restart_tracks_the_deleted:
  "map_of (svRecords s) n = None \<Longrightarrow> has_key (svTrack (mark_restart n s)) n \<and> map_of (svRecords (mark_restart n s)) n = None"
  by (simp add: mark_restart_def upd_t_def set_t_def touch_def poke_def Let_def)

text \<open>
  The number of starts of a container that never reached running is four, not the three attempts the
  documentation counts.
\<close>

lemma four_starts: "starts_of refused5 = 4 \<and> StartRetries = 3"
proof -
  have "starts_of refused5 = 4" by code_simp
  then show ?thesis by (simp add: StartRetries_def)
qed

text \<open>
  What follows the body of \<open>PUT /v1/projects\<close> is looked at with \<open>More\<close>, which takes a closing bracket
  for the end of an array the value is not in: the rest is dropped and the request is carried out.
\<close>

lemma trailing_bytes_accepted:
  "decode_body S d_projects None (''{'' @ dquote # ''projects'' @ dquote # '': {}}] and more'') = Inr (Some [])"
proof -
  let ?b = "''{'' @ dquote # ''projects'' @ dquote # '': {}}] and more''"
  have "take maxBody ?b = ?b" by (simp add: maxBody_def)
  moreover have "parse_value (Suc (length ?b)) ?b = Some (JObj [(''projects'', JObj [])], ''] and more'')"
    "d_projects (JObj [(''projects'', JObj [])]) None = Some (Some [])" "\<not> dec_more ''] and more''" by code_simp+
  ultimately show ?thesis unfolding decode_body_def Let_def by (simp del: parse_value.simps append_Cons)
qed

text \<open>
  \<open>PathEscape\<close> leaves a dot as it is: \<open>get .\<close> asks for \<open>/v1/containers/.\<close>, which the server cleans and
  redirects to the list of all containers.
\<close>

lemma dot_asks_for_all:
  "command w [''get'', ''.''] = Send ''GET'' ''/v1/containers/.'' [] True Copied"
  "route ''GET'' ''/v1/containers/.'' = Redirect ''/v1/containers''" "route ''GET'' ''/v1/containers'' = Endpoint GetContainers []"
proof -
  have "PathEscape ''.'' = ''.''" by (simp add: url_escape_def escape_byte_def should_escape_def unreserved_def)
  then show "command w [''get'', ''.''] = Send ''GET'' ''/v1/containers/.'' [] True Copied" by (simp add: command_def named_def)
  show "route ''GET'' ''/v1/containers/.'' = Redirect ''/v1/containers''" by code_simp
  show "route ''GET'' ''/v1/containers'' = Endpoint GetContainers []" by (rule route_fixed)
qed

end
