(* ===== verification/Podman.thy ===== *)
theory Podman
  imports SpecJson Engine
begin

text \<open>
  \<open>engine/podman.go\<close>: the engine over the podman command. \<open>RunArgs\<close> is the argument list of
  \<open>podman run\<close>; \<open>ParsePS\<close>, \<open>ParseNetworks\<close> and \<open>ParseEvent\<close> read podman's JSON; \<open>podman\<close> is the engine,
  over a world that runs commands, makes directories and resolves links. The streams are in \<open>Streams\<close>.
\<close>

record podman =
  pmBin :: string
  pmLogDir :: string
  pmLogMaxSize :: string

section \<open>The arguments of podman run\<close>

text \<open>An option with its value, and one for each element of a list.\<close>

definition opt :: "string \<Rightarrow> string \<Rightarrow> (string \<times> string) list" where
  "opt name v = [(name, v)]"

definition opt_if :: "bool \<Rightarrow> string \<Rightarrow> string \<Rightarrow> (string \<times> string) list" where
  "opt_if b name v = (if b then [(name, v)] else [])"

definition opts :: "string \<Rightarrow> ('a \<Rightarrow> string) \<Rightarrow> 'a list \<Rightarrow> (string \<times> string) list" where
  "opts name f xs = map (\<lambda>x. (name, f x)) xs"

definition publish_arg :: "port \<Rightarrow> string" where
  "publish_arg p = show_int (uint (pHost p)) @ '':'' @ show_int (uint (pContainer p)) @ ''/'' @ pProtocol p"

definition volume_arg :: "volume \<Rightarrow> string" where
  "volume_arg v = vHost v @ '':'' @ vContainer v @ (if vReadOnly v then '':ro'' else [])"

definition device_arg :: "device \<Rightarrow> string" where
  "device_arg d = dvHost d @ '':'' @ dvContainer d @ '':'' @ dvPermissions d"

definition health_opts :: "health option \<Rightarrow> (string \<times> string) list" where
  "health_opts h = (case h of None \<Rightarrow> [] | Some h \<Rightarrow>
     [(''--health-cmd'', marshal (strs (hCommand h))), (''--health-interval'', ''disable''),
      (''--health-timeout'', show_int (hTimeoutSeconds h) @ ''s''),
      (''--health-retries'', show_int (hRetries h)),
      (''--health-start-period'', show_int (hStartPeriodSeconds h) @ ''s'')])"

text \<open>The options of a normalized spec, in the order of the code; \<open>h\<close> is its hash.\<close>

definition run_opts :: "podman \<Rightarrow> string \<Rightarrow> spec \<Rightarrow> device list \<Rightarrow> (string \<times> string) list" where
  "run_opts p h s devices =
     [(''--name'', sName s),
      (''--label'', LabelManaged @ ''=1''), (''--label'', LabelSpec @ ''='' @ h), (''--label'', LabelProject @ ''='' @ sProject s),
      (''--restart'', ''no''), (''--log-driver'', ''k8s-file''),
      (''--log-opt'', ''path='' @ path_join [pmLogDir p, sName s @ ''.log'']), (''--log-opt'', ''max-size='' @ pmLogMaxSize p)]
     @ opt ''--network'' (if sNetworkMode s \<noteq> [] then sNetworkMode s else sNetwork s)
     @ opts ''--network-alias'' (\<lambda>a. a) (sAliases s)
     @ opts ''--cap-add'' (\<lambda>c. c) (sCapAdd s)
     @ opts ''--cap-drop'' (\<lambda>c. c) (sCapDrop s)
     @ opt_if (sUser s \<noteq> []) ''--user'' (sUser s)
     @ opt_if (sWorkingDir s \<noteq> []) ''--workdir'' (sWorkingDir s)
     @ opt_if (sEntrypoint s \<noteq> []) ''--entrypoint'' (marshal (strs (sEntrypoint s)))
     @ opts ''--env'' (\<lambda>k. k @ ''='' @ str_at (elems (sEnvironment s)) k) (sorted_keys (elems (sEnvironment s)))
     @ opts ''--publish'' publish_arg (sPublish s)
     @ opts ''--volume'' volume_arg (elems (sVolumes s))
     @ opts ''--device'' device_arg devices
     @ opts ''--device-cgroup-rule'' (\<lambda>r. r) (sDeviceCgroupRules s)
     @ opt_if (lPids (sLimits s) > 0) ''--pids-limit'' (show_int (lPids (sLimits s)))
     @ opt_if (lMemory (sLimits s) \<noteq> []) ''--memory'' (lMemory (sLimits s))
     @ opt_if (lCPU (sLimits s) \<noteq> []) ''--cpus'' (lCPU (sLimits s))
     @ health_opts (sHealth s)"

definition flatten :: "(string \<times> string) list \<Rightarrow> string list" where
  "flatten os = concat (map (\<lambda>(name, v). [name, v]) os)"

definition run_args :: "podman \<Rightarrow> (string \<Rightarrow> string) \<Rightarrow> spec \<Rightarrow> device list \<Rightarrow> string list" where
  "run_args p digest s0 devices =
     (let s = normalized s0 in
      [''run'', ''--detach'', ''--replace''] @ flatten (run_opts p (Hash digest s) s devices)
      @ sImage s # elems (sCommand s))"

definition RunArgs :: "podman \<Rightarrow> (string \<Rightarrow> string) \<Rightarrow> spec \<Rightarrow> string list" where
  "RunArgs p digest s = run_args p digest s (sDevices s)"

section \<open>Running podman\<close>

text \<open>
  What running a command comes to: its output when it exits 0; an exit code, the text of that error and
  what it wrote to stderr; or an error that is no exit at all. The world runs commands, makes
  directories, resolves links and looks devices up: it is a parameter, for none of it is the program's.
\<close>

datatype process =
    Finished string
  | Exited int string string
  | Unstarted string

record 'w world =
  wExec :: "string \<Rightarrow> string list \<Rightarrow> 'w \<Rightarrow> process \<times> 'w"
  wMkdirAll :: "string \<Rightarrow> 'w \<Rightarrow> string option \<times> 'w"
  wEvalSymlinks :: "string \<Rightarrow> 'w \<Rightarrow> string + string"

text \<open>\<open>p.run\<close>: the error carries the exit code when there is one.\<close>

datatype run_error = RunError "int option" string

fun error_text :: "run_error \<Rightarrow> string" where
  "error_text (RunError c t) = t"

definition wrap :: "string list \<Rightarrow> string \<Rightarrow> string \<Rightarrow> string" where
  "wrap args e stderr = ''podman '' @ args ! 0 @ '': '' @ e @ '': '' @ trim_space stderr"

definition podman_run :: "podman \<Rightarrow> 'w world \<Rightarrow> string list \<Rightarrow> 'w \<Rightarrow> (run_error + string) \<times> 'w" where
  "podman_run p W args w = (case wExec W (pmBin p) args w of
     (Finished out, w') \<Rightarrow> (Inr out, w')
   | (Exited code e stderr, w') \<Rightarrow> (Inl (RunError (Some code) (wrap args e stderr)), w')
   | (Unstarted e, w') \<Rightarrow> (Inl (RunError None (wrap args e [])), w'))"

text \<open>Only whether it worked.\<close>

definition podman_do :: "podman \<Rightarrow> 'w world \<Rightarrow> string list \<Rightarrow> 'w \<Rightarrow> string option \<times> 'w" where
  "podman_do p W args w = (case podman_run p W args w of
     (Inl e, w') \<Rightarrow> (Some (error_text e), w') | (Inr out, w') \<Rightarrow> (None, w'))"

section \<open>Reading podman's JSON\<close>

record ps_entry =
  psID :: string
  psNames :: "string list"
  psImage :: string
  psImageID :: string
  psLabels :: "(string \<times> string) list option"
  psState :: string
  psExitCode :: int
  psStartedAt :: int
  psExitedAt :: int

definition ps_fields :: "ps_entry fields" where
  "ps_fields = [(''Id'', fld d_str psID psID_update), (''Names'', fld (d_list d_str []) psNames psNames_update),
     (''Image'', fld d_str psImage psImage_update), (''ImageID'', fld d_str psImageID psImageID_update),
     (''Labels'', fld (d_map d_str []) psLabels psLabels_update), (''State'', fld d_str psState psState_update),
     (''ExitCode'', fld (d_int 32) psExitCode psExitCode_update), (''StartedAt'', fld (d_int 64) psStartedAt psStartedAt_update),
     (''ExitedAt'', fld (d_int 64) psExitedAt psExitedAt_update)]"

definition zero_ps :: ps_entry where
  "zero_ps = \<lparr>psID = [], psNames = [], psImage = [], psImageID = [], psLabels = None, psState = [], psExitCode = 0,
     psStartedAt = 0, psExitedAt = 0\<rparr>"

definition ps_container :: "ps_entry \<Rightarrow> container" where
  "ps_container e = \<lparr>cID = psID e, cName = hd (psNames e), cImage = psImage e, cImageID = psImageID e,
     cLabels = elems (psLabels e), cState = psState e, cExitCode = psExitCode e,
     cStartedAt = (if psStartedAt e > 0 then unix (psStartedAt e) else 0),
     cExitedAt = (if psExitedAt e > 0 then unix (psExitedAt e) else 0)\<rparr>"

definition ParsePS :: "string \<Rightarrow> string + container list" where
  "ParsePS b = (case unmarshal (d_list (d_struct False ps_fields) zero_ps) b [] of
     None \<Rightarrow> Inl ''podman ps''
   | Some entries \<Rightarrow> Inr (map ps_container (filter (\<lambda>e. psNames e \<noteq> []) entries)))"

record net_entry =
  neName :: string
  neLabels :: "(string \<times> string) list option"

definition net_fields :: "net_entry fields" where
  "net_fields = [(''name'', fld d_str neName neName_update), (''labels'', fld (d_map d_str []) neLabels neLabels_update)]"

definition ParseNetworks :: "string \<Rightarrow> string + network list" where
  "ParseNetworks b = (case unmarshal (d_list (d_struct False net_fields) \<lparr>neName = [], neLabels = None\<rparr>) b [] of
     None \<Rightarrow> Inl ''podman network ls''
   | Some entries \<Rightarrow> Inr (map (\<lambda>e. \<lparr>nName = neName e, nProject = str_at (elems (neLabels e)) LabelProject\<rparr>) entries))"

text \<open>An event of a container; a line that is none is skipped.\<close>

record event_entry =
  evName :: string
  evStatus :: string
  evType :: string
  evExitCode :: "int option"
  evTimeNano :: int

definition event_fields :: "event_entry fields" where
  "event_fields = [(''Name'', fld d_str evName evName_update), (''Status'', fld d_str evStatus evStatus_update),
     (''Type'', fld d_str evType evType_update), (''ContainerExitCode'', fld (d_ptr (d_int 64) 0) evExitCode evExitCode_update),
     (''timeNano'', fld (d_int 64) evTimeNano evTimeNano_update)]"

definition zero_event :: event_entry where
  "zero_event = \<lparr>evName = [], evStatus = [], evType = [], evExitCode = None, evTimeNano = 0\<rparr>"

record event =
  eName :: string
  eStatus :: string
  eExitCode :: "int option"
  eTime :: time

definition ParseEvent :: "string \<Rightarrow> string + event option" where
  "ParseEvent b = (case unmarshal (d_struct False event_fields) b zero_event of
     None \<Rightarrow> Inl ''podman events''
   | Some e \<Rightarrow> if evType e \<noteq> ''container'' \<or> evName e = [] then Inr None
       else Inr (Some \<lparr>eName = evName e, eStatus = evStatus e, eExitCode = evExitCode e, eTime = unix 0 + evTimeNano e\<rparr>))"

section \<open>The engine\<close>

definition podman_list :: "podman \<Rightarrow> 'w world \<Rightarrow> 'w \<Rightarrow> (string + container list) \<times> 'w" where
  "podman_list p W w = (case podman_run p W [''ps'', ''--all'', ''--format'', ''json''] w of
     (Inl e, w') \<Rightarrow> (Inl (error_text e), w') | (Inr out, w') \<Rightarrow> (ParsePS out, w'))"

text \<open>\<open>Run\<close>: the directories of the volumes to make, in order; then the devices as their links resolve now.\<close>

fun make_dirs :: "'w world \<Rightarrow> volume list \<Rightarrow> 'w \<Rightarrow> string option \<times> 'w" where
  "make_dirs W [] w = (None, w)"
| "make_dirs W (v # vs) w = (if vMake v then
     (case wMkdirAll W (vHost v) w of (Some e, w') \<Rightarrow> (Some e, w') | (None, w') \<Rightarrow> make_dirs W vs w')
     else make_dirs W vs w)"

fun resolve_devices :: "'w world \<Rightarrow> device list \<Rightarrow> 'w \<Rightarrow> string + device list" where
  "resolve_devices W [] w = Inr []"
| "resolve_devices W (d # ds) w = (case wEvalSymlinks W (dvHost d) w of
     Inl e \<Rightarrow> Inl (''device '' @ dvHost d @ '' is absent: '' @ e)
   | Inr node \<Rightarrow> (case resolve_devices W ds w of Inl e \<Rightarrow> Inl e | Inr rest \<Rightarrow> Inr (d\<lparr>dvHost := node\<rparr> # rest)))"

definition podman_Run :: "podman \<Rightarrow> (string \<Rightarrow> string) \<Rightarrow> 'w world \<Rightarrow> spec \<Rightarrow> 'w \<Rightarrow> string option \<times> 'w" where
  "podman_Run p digest W s w = (case make_dirs W (elems (sVolumes s)) w of
     (Some e, w') \<Rightarrow> (Some e, w')
   | (None, w') \<Rightarrow> (case resolve_devices W (sDevices s) w' of
       Inl e \<Rightarrow> (Some e, w')
     | Inr devices \<Rightarrow> podman_do p W (run_args p digest s devices) w'))"

definition podman_networks :: "podman \<Rightarrow> 'w world \<Rightarrow> 'w \<Rightarrow> (string + network list) \<times> 'w" where
  "podman_networks p W w =
     (case podman_run p W [''network'', ''ls'', ''--filter'', ''label='' @ LabelManaged @ ''=1'', ''--format'', ''json''] w of
       (Inl e, w') \<Rightarrow> (Inl (error_text e), w') | (Inr out, w') \<Rightarrow> (ParseNetworks out, w'))"

definition podman_create_network :: "podman \<Rightarrow> 'w world \<Rightarrow> string \<Rightarrow> string \<Rightarrow> 'w \<Rightarrow> string option \<times> 'w" where
  "podman_create_network p W name project w =
     podman_do p W [''network'', ''create'', ''--ignore'', ''--label'', LabelManaged @ ''=1'',
       ''--label'', LabelProject @ ''='' @ project, name] w"

definition podman_remove_network :: "podman \<Rightarrow> 'w world \<Rightarrow> string \<Rightarrow> 'w \<Rightarrow> string option \<times> 'w" where
  "podman_remove_network p W name w = (case podman_run p W [''network'', ''exists'', name] w of
     (Inl e, w') \<Rightarrow> (None, w') | (Inr out, w') \<Rightarrow> podman_do p W [''network'', ''rm'', name] w')"

definition podman_start :: "podman \<Rightarrow> 'w world \<Rightarrow> string \<Rightarrow> 'w \<Rightarrow> string option \<times> 'w" where
  "podman_start p W name = podman_do p W [''start'', name]"

text \<open>\<open>int(d.Seconds())\<close>: toward zero. The float64 in between is exact enough below \<open>2 ^ 22\<close> seconds.\<close>

definition whole_seconds :: "duration \<Rightarrow> int" where
  "whole_seconds d = (if d < 0 then - (- d div second) else d div second)"

definition podman_stop :: "podman \<Rightarrow> 'w world \<Rightarrow> string \<Rightarrow> duration \<Rightarrow> 'w \<Rightarrow> string option \<times> 'w" where
  "podman_stop p W name timeout = podman_do p W [''stop'', ''--time'', show_int (whole_seconds timeout), name]"

definition podman_remove :: "podman \<Rightarrow> 'w world \<Rightarrow> string \<Rightarrow> 'w \<Rightarrow> string option \<times> 'w" where
  "podman_remove p W name = podman_do p W [''rm'', ''--force'', ''--ignore'', name]"

text \<open>A health check passes at exit 0, fails at exit 1 and is an error otherwise. Its deadline is the caller's context.\<close>

definition podman_health :: "podman \<Rightarrow> 'w world \<Rightarrow> string \<Rightarrow> 'w \<Rightarrow> (bool \<times> string option) \<times> 'w" where
  "podman_health p W name w = (case podman_run p W [''healthcheck'', ''run'', name] w of
     (Inr out, w') \<Rightarrow> ((True, None), w')
   | (Inl (RunError code t), w') \<Rightarrow> if code = Some 1 then ((False, None), w') else ((False, Some t), w'))"

definition podman_engine :: "podman \<Rightarrow> (string \<Rightarrow> string) \<Rightarrow> 'w world \<Rightarrow> 'w engine" where
  "podman_engine p digest W = \<lparr>eList = podman_list p W, eRun = podman_Run p digest W, eStart = podman_start p W,
     eStop = podman_stop p W, eRemove = podman_remove p W, eHealthCheck = (\<lambda>n d. podman_health p W n),
     eNetworks = podman_networks p W, eCreateNetwork = podman_create_network p W, eRemoveNetwork = podman_remove_network p W\<rparr>"

end
