(* ===== verification/PodmanArgs.thy ===== *)
theory PodmanArgs
  imports Podman Converge
begin

text \<open>
  What the argument list of \<open>podman run\<close> says: read back as podman reads it, the arguments are the
  declaration and nothing else; the label on them stands for all of them; and a container
  that carries those labels is what the supervisor looks for.
\<close>

section \<open>Reading the arguments\<close>

text \<open>The values of an option, a mount, a variable and a published port, as podman splits them.\<close>

definition values_of :: "(string \<times> string) list \<Rightarrow> string \<Rightarrow> string list" where
  "values_of os name = map snd (filter (\<lambda>(n, v). n = name) os)"

definition read_volume :: "string \<Rightarrow> (string \<times> string \<times> bool) option" where
  "read_volume a = (case split_on CHR '':'' a of
     [h, c] \<Rightarrow> Some (h, c, False) | [h, c, m] \<Rightarrow> if m = ''ro'' then Some (h, c, True) else None | _ \<Rightarrow> None)"

definition read_env :: "string \<Rightarrow> string \<times> string option" where
  "read_env a = cut CHR ''='' a"

definition read_port :: "string \<Rightarrow> (nat \<times> nat \<times> string) option" where
  "read_port a = (case cut CHR '':'' a of (h, Some t) \<Rightarrow>
     (case cut CHR ''/'' t of (c, Some p) \<Rightarrow>
       (case (parse_uint 16 h, parse_uint 16 c) of (Some h, Some c) \<Rightarrow> Some (h, c, p) | _ \<Rightarrow> None)
     | _ \<Rightarrow> None) | _ \<Rightarrow> None)"

definition read_strings :: "string \<Rightarrow> string list option" where
  "read_strings a = unmarshal (d_list d_str []) a []"

lemma values_of_append [simp]: "values_of (xs @ ys) name = values_of xs name @ values_of ys name"
  by (simp add: values_of_def)

lemma values_of_simps [simp]:
  "values_of [] name = []"
  "values_of ((n, v) # os) name = (if n = name then v # values_of os name else values_of os name)"
  "values_of (opt n v) name = (if n = name then [v] else [])"
  "values_of (opt_if b n v) name = (if b \<and> n = name then [v] else [])"
  "values_of (opts n f xs) name = (if n = name then map f xs else [])"
  by (auto simp: values_of_def opt_def opt_if_def opts_def comp_def filter_map)

lemma values_of_health: "values_of (health_opts h) name =
   (case h of None \<Rightarrow> [] | Some h \<Rightarrow> if name = ''--health-cmd'' then [marshal (strs (hCommand h))]
      else if name = ''--health-interval'' then [''disable'']
      else if name = ''--health-timeout'' then [show_int (hTimeoutSeconds h) @ ''s'']
      else if name = ''--health-retries'' then [show_int (hRetries h)]
      else if name = ''--health-start-period'' then [show_int (hStartPeriodSeconds h) @ ''s''] else [])"
  by (auto simp: health_opts_def values_of_def split: option.splits)

lemma read_volume_arg: "plain_path (vHost v) \<Longrightarrow> plain_path (vContainer v) \<Longrightarrow>
   read_volume (volume_arg v) = Some (vHost v, vContainer v, vReadOnly v)"
  using split_on_append [of "CHR '':''" "vHost v" "vContainer v"] split_on_append [of "CHR '':''" "vContainer v" "''ro''"]
    split_on_append [of "CHR '':''" "vHost v" "vContainer v @ '':ro''"] split_on_single [of "CHR '':''" "vContainer v"]
  by (simp add: plain_path_def read_volume_def volume_arg_def)

lemma read_env_arg: "env_key k \<Longrightarrow> read_env (k @ CHR ''='' # v) = (k, Some v)"
  by (auto simp: read_env_def env_key_def byte_in_def intro!: cut_append)

lemma read_port_arg: "read_port (publish_arg p) = Some (unat (pHost p), unat (pContainer p), pProtocol p)"
proof -
  have s: "show_int (uint w) = show_nat (unat w)" for w :: "16 word" by (simp add: show_int_def)
  have u: "parse_uint 16 (show_nat (unat w)) = Some (unat w)" for w :: "16 word"
    using unsigned_less [of w] by (intro parse_uint_show) simp
  have "CHR '':'' \<notin> set (show_nat n)" "CHR ''/'' \<notin> set (show_nat n)" for n
    by (rule show_nat_not_in, simp add: is_digit_def)+
  then show ?thesis by (simp add: read_port_def publish_arg_def s u cut_append)
qed

lemma utf8_strs: "utf8_json (strs xs) \<longleftrightarrow> list_all utf8 xs"
  by (auto simp: strs_def list_all_iff)

lemma read_strings_arg: "list_all utf8 xs \<Longrightarrow> read_strings (marshal (strs xs)) = Some xs"
proof -
  assume "list_all utf8 xs"
  then have "parse (marshal (strs xs) @ []) = Some (strs xs)"
    by (subst parse_encode) (simp_all add: clean_json_id utf8_strs skip_def)
  then show ?thesis by (simp add: read_strings_def unmarshal_def d_strs_back)
qed

section \<open>No NUL byte\<close>

text \<open>An argument with a NUL byte cannot be passed to a command.\<close>

lemma show_nat_no_nul: "no_nul (show_nat n)"
  unfolding no_nul_def by (rule show_nat_not_in) (simp add: is_digit_def)

lemma show_int_no_nul: "no_nul (show_int i)"
  using show_nat_no_nul by (simp add: show_int_def no_nul_def)

lemma hex_char_no_nul: "d < 16 \<Longrightarrow> hex_char d \<noteq> nul"
  using hex_val_char [of d] by (auto simp: hex_val_def)

lemma escape_no_nul: "byte c < 0x80 \<Longrightarrow> no_nul (escape c)"
proof -
  assume "byte c < 0x80"
  then have h: "nul \<noteq> hex_char (byte c div 16)" "nul \<noteq> hex_char (byte c mod 16)"
    using not_sym [OF hex_char_no_nul] by simp_all
  have "nul \<noteq> c" if "\<not> byte c < 0x20" using that by auto
  with h show ?thesis unfolding escape_def no_nul_def by (simp split: if_split)
qed

lemma quoted_no_nul: "no_nul (quoted s)"
proof (induction s rule: quoted.induct)
  case (2 c s)
  show ?case
  proof (cases "byte c < 0x80")
    case True
    then show ?thesis using 2 escape_no_nul by (simp add: no_nul_def)
  next
    case False
    have "no_nul (escape_rune (c # take n s))" if "rune c s = Some n" for n
      using rune_high [OF that] False by (auto simp: escape_rune_def no_nul_def list_all_iff)
    then show ?thesis using 2 False by (auto simp: no_nul_def split: option.splits)
  qed
qed (simp add: no_nul_def)

lemma strs_no_nul: "no_nul (marshal (strs xs))"
proof -
  have "no_nul (encode_elems None (map JStr ys))" for ys
    using quoted_no_nul by (induction ys) (auto simp: no_nul_def quote_def line_def)
  then show ?thesis using quoted_no_nul by (cases xs) (auto simp: no_nul_def strs_def quote_def line_def)
qed

lemma join_set: "set (join sep xs) \<subseteq> set sep \<union> (\<Union>x \<in> set xs. set x)"
  by (induction sep xs rule: join.induct) auto

section \<open>The label stands for the arguments\<close>

lemma same_runtime_opts:
  "same_runtime n m \<Longrightarrow> sName n = sName m \<Longrightarrow> run_opts p h n (sDevices n) = run_opts p h m (sDevices m)"
  unfolding same_runtime_def run_opts_def by (simp add: opts_def del: set_sorted_keys)

lemma Hash_normalized [simp]: "Hash digest (normalized s) = Hash digest s"
  by (simp add: Hash_def runtime_text_def)

text \<open>
  C19: Two specs of one container with the same hash are the same to podman: unless the digest collides
  on these two texts, every argument of \<open>podman run\<close> is the same. So a declaration that changes
  any argument changes the label, which is what the supervisor recreates a container for.
\<close>

theorem same_label_same_args:
  assumes "Hash digest s = Hash digest t" and "sName s = sName t" and "utf8_spec s" "utf8_spec t"
    and "digest (runtime_text s) = digest (runtime_text t) \<longrightarrow> runtime_text s = runtime_text t"
  shows "RunArgs p digest s = RunArgs p digest t"
proof -
  have "runtime_text s = runtime_text t" using assms(1,5) by (simp add: Hash_def)
  then have "runtime_json (normalized s) = runtime_json (normalized t)"
    unfolding runtime_text_def
    by (rule marshal_inj) (simp_all add: integral_runtime utf8_runtime assms)
  then have "same_runtime (normalized s) (normalized t)" by (rule runtime_json_same)
  moreover from this have "run_opts p (Hash digest s) (normalized s) (sDevices (normalized s))
      = run_opts p (Hash digest t) (normalized t) (sDevices (normalized t))"
    using same_runtime_opts [of "normalized s" "normalized t"] assms(1,2) by simp
  ultimately show ?thesis by (simp add: RunArgs_def run_args_def Let_def same_runtime_def)
qed

definition arg_spec :: "string \<Rightarrow> spec" where
  "arg_spec policy = zero_spec\<lparr>sName := ''web-app-1'', sProject := ''web'', sService := ''app'', sImage := ''img'',
     sEntrypoint := [''/bin/run'', ''a b''], sCommand := Some [''-v'', ''--x''], sEnvironment := Some [(''B'', ''2''), (''A'', ''x=y'')],
     sPublish := [\<lparr>pHost = 8080, pContainer = 80, pProtocol = []\<rparr>],
     sVolumes := Some [\<lparr>vHost = ''/data/web'', vContainer = ''/srv'', vReadOnly = True, vMake = True\<rparr>], sNetwork := ''web_default'',
     sDevices := [\<lparr>dvHost = ''/dev/ttyS0'', dvContainer = ''/dev/ttyS0'', dvPermissions = ''rw''\<rparr>],
     sRestart := \<lparr>rPolicy = policy, rMaxRestarts = 0\<rparr>,
     sHealth := Some \<lparr>hCommand = [''/bin/true''], hIntervalSeconds = 0, hTimeoutSeconds = 0, hRetries = 0, hStartPeriodSeconds = 5\<rparr>\<rparr>"

definition rig_podman :: podman where
  "rig_podman = \<lparr>pmBin = ''podman'', pmLogDir = ''/run/logs'', pmLogMaxSize = ''1m''\<rparr>"

lemma same_label_same_args_witness:
  "RunArgs rig_podman (\<lambda>t. t) (arg_spec ''no'') = RunArgs rig_podman (\<lambda>t. t) (arg_spec ''always'')"
proof -
  have "runtime_json (normalized (arg_spec ''no'')) = runtime_json (normalized (arg_spec ''always''))"
    by (simp only: runtime_json_def normalized_sel) (simp add: arg_spec_def)
  then have t: "runtime_text (arg_spec ''no'') = runtime_text (arg_spec ''always'')" by (simp only: runtime_text_def)
  have u: "utf8_spec (arg_spec ''no'')" "utf8_spec (arg_spec ''always'')"
    by (simp_all add: arg_spec_def zero_spec_def utf8_spec_def spec_json_def strs_def str_map_def sorted_keys_def str_at_def
        port_json_def volume_json_def device_json_def limits_json_def restart_json_def health_json_def)
  show ?thesis by (rule same_label_same_args [OF _ _ u]) (simp_all add: Hash_def t, simp add: arg_spec_def)
qed

section \<open>The arguments are the declaration\<close>

text \<open>Reading options that each take the next argument, up to the first argument that is no option.\<close>

fun read_options :: "string list \<Rightarrow> (string \<times> string) list \<times> string list" where
  "read_options (a # v # as) = (if has_prefix a ''--'' then (let (os, rest) = read_options as in ((a, v) # os, rest))
     else ([], a # v # as))"
| "read_options as = ([], as)"

lemma read_options_flatten:
  "list_all (\<lambda>(n, v). has_prefix n ''--'') os \<Longrightarrow> \<not> has_prefix img ''--'' \<Longrightarrow>
   read_options (flatten os @ img # command) = (os, img # command)"
proof (induction os)
  case Nil
  then show ?case by (cases command) (simp_all add: flatten_def)
qed (auto simp: flatten_def)

lemma run_opts_options: "list_all (\<lambda>(n, v). has_prefix n ''--'') (run_opts p h s devices)"
  by (auto simp: run_opts_def opt_def opt_if_def opts_def health_opts_def list_all_iff split: option.splits)

text \<open>
  C20: The arguments of a valid spec say what was declared, and no text of the spec is taken for anything
  else: podman's reader finds the options of the code, then the image, then the command; and
  each mount, variable, published port, entrypoint and health command reads back as declared.
\<close>

theorem run_args_read_back:
  assumes "validate s = None" and "list_all utf8 (sEntrypoint s)" and "\<And>h. sHealth s = Some h \<Longrightarrow> list_all utf8 (hCommand h)"
  shows "\<exists>os. take 3 (RunArgs p digest s) = [''run'', ''--detach'', ''--replace'']
    \<and> read_options (drop 3 (RunArgs p digest s)) = (os, sImage s # elems (sCommand s))
    \<and> values_of os ''--name'' = [sName s]
    \<and> map read_volume (values_of os ''--volume'') = map (\<lambda>v. Some (vHost v, vContainer v, vReadOnly v)) (elems (sVolumes s))
    \<and> map read_env (values_of os ''--env'')
        = map (\<lambda>k. (k, Some (str_at (elems (sEnvironment s)) k))) (sorted_keys (elems (sEnvironment s)))
    \<and> map read_port (values_of os ''--publish'')
        = map (\<lambda>q. Some (unat (pHost q), unat (pContainer q), if pProtocol q = [] then ''tcp'' else pProtocol q)) (sPublish s)
    \<and> map read_strings (values_of os ''--entrypoint'') = (if sEntrypoint s = [] then [] else [Some (sEntrypoint s)])
    \<and> map read_strings (values_of os ''--health-cmd'') = (case sHealth s of None \<Rightarrow> [] | Some h \<Rightarrow> [Some (hCommand h)])"
proof -
  let ?os = "run_opts p (Hash digest s) (normalized s) (sDevices s)"
  have v: "valid_spec s" using assms(1) by (simp add: validate_valid_spec)
  then have "\<not> has_prefix (sImage s) ''--''" by (cases "sImage s") (auto simp: valid_spec_def image_ref_def)
  then have r: "read_options (drop 3 (RunArgs p digest s)) = (?os, sImage s # elems (sCommand s))"
    using read_options_flatten run_opts_options by (simp add: RunArgs_def run_args_def Let_def)
  have vols: "map read_volume (values_of ?os ''--volume'') = map (\<lambda>v. Some (vHost v, vContainer v, vReadOnly v)) (elems (sVolumes s))"
    using v by (auto simp: run_opts_def values_of_health valid_spec_def read_volume_arg split: option.splits)
  have env: "map read_env (values_of ?os ''--env'')
      = map (\<lambda>k. (k, Some (str_at (elems (sEnvironment s)) k))) (sorted_keys (elems (sEnvironment s)))"
    using v by (auto simp: run_opts_def values_of_health valid_spec_def read_env_arg split: option.splits)
  have ports: "map read_port (values_of ?os ''--publish'')
      = map (\<lambda>q. Some (unat (pHost q), unat (pContainer q), if pProtocol q = [] then ''tcp'' else pProtocol q)) (sPublish s)"
    by (auto simp: run_opts_def values_of_health read_port_arg normalized_port_def split: option.splits)
  have ent: "map read_strings (values_of ?os ''--entrypoint'') = (if sEntrypoint s = [] then [] else [Some (sEntrypoint s)])"
    using assms(2) by (auto simp: run_opts_def values_of_health read_strings_arg split: option.splits)
  have hc: "map read_strings (values_of ?os ''--health-cmd'') = (case sHealth s of None \<Rightarrow> [] | Some h \<Rightarrow> [Some (hCommand h)])"
    using assms(3) by (auto simp: run_opts_def values_of_health read_strings_arg split: option.splits)
  have n: "values_of ?os ''--name'' = [sName s]"
    by (auto simp: run_opts_def values_of_health split: option.splits)
  have "take 3 (RunArgs p digest s) = [''run'', ''--detach'', ''--replace'']"
    by (simp add: RunArgs_def run_args_def Let_def)
  with r vols env ports ent hc n show ?thesis by blast
qed

lemma run_args_read_back_witness:
  "\<exists>os. read_options (drop 3 (RunArgs rig_podman (\<lambda>t. ''h'') (arg_spec ''no''))) = (os, [''img'', ''-v'', ''--x''])
    \<and> map read_env (values_of os ''--env'') = [(''A'', Some ''x=y''), (''B'', Some ''2'')]
    \<and> map read_volume (values_of os ''--volume'') = [Some (''/data/web'', ''/srv'', True)]"
proof -
  have "path_clean ''/data/web'' = ''/data/web''" "path_clean ''/srv'' = ''/srv''" "path_clean ''/dev/ttyS0'' = ''/dev/ttyS0''"
    by code_simp+
  then have v: "validate (arg_spec ''no'') = None"
    unfolding validate_valid_spec
    by (simp add: valid_spec_def arg_spec_def zero_spec_def container_name_def image_ref_def no_nul_def valid_network_def
        env_key_def valid_publish_def plain_path_def clean_abs_def path_is_abs_def valid_device_def permissions_def
        valid_limits_def valid_health_def or_default_def valid_depends_on_def byte_in_def)
  have u: "list_all utf8 (sEntrypoint (arg_spec ''no''))" by code_simp
  have h: "sHealth (arg_spec ''no'') = Some h \<Longrightarrow> list_all utf8 (hCommand h)" for h by (auto simp: arg_spec_def)
  have e: "map (\<lambda>k. (k, Some (str_at (elems (sEnvironment (arg_spec ''no''))) k))) (sorted_keys (elems (sEnvironment (arg_spec ''no''))))
      = [(''A'', Some ''x=y''), (''B'', Some ''2'')]" by code_simp
  have s: "sImage (arg_spec ''no'') = ''img''" "elems (sCommand (arg_spec ''no'')) = [''-v'', ''--x'']"
    "elems (sVolumes (arg_spec ''no'')) = [\<lparr>vHost = ''/data/web'', vContainer = ''/srv'', vReadOnly = True, vMake = True\<rparr>]"
    by (simp_all add: arg_spec_def)
  from run_args_read_back [OF v u h, of rig_podman "\<lambda>t. ''h''", unfolded e s] show ?thesis by force
qed

section \<open>The container that comes of them\<close>

text \<open>
  A container podman lists as running under the name of a spec, with the labels its arguments gave, is
  one the supervisor takes for the declared one: managed, of that name, with the hash for its label.
\<close>

theorem labels_listed:
  assumes "psNames e = [sName s]" and "psState e = ''running''"
    and "list_all (\<lambda>v. case cut CHR ''='' v of (k, x) \<Rightarrow> map_of (elems (psLabels e)) k = x)
          (values_of (run_opts p (Hash digest s) (normalized s) devices) ''--label'')"
  shows "runs_as (sName s) (Hash digest s) (ps_container e)"
proof -
  have l: "values_of (run_opts p (Hash digest s) (normalized s) devices) ''--label''
      = [LabelManaged @ ''=1'', LabelSpec @ ''='' @ Hash digest s, LabelProject @ ''='' @ sProject s]"
    by (auto simp: run_opts_def values_of_health split: option.splits)
  have "cut CHR ''='' (LabelManaged @ ''=1'') = (LabelManaged, Some ''1'')"
    "cut CHR ''='' (LabelSpec @ CHR ''='' # h) = (LabelSpec, Some h)" for h
    using cut_append [of "CHR ''=''" LabelManaged "''1''"] cut_append [of "CHR ''=''" LabelSpec]
    by (simp_all add: LabelManaged_def LabelSpec_def)
  then show ?thesis using assms
    by (simp add: l runs_as_def ps_container_def running_def managed_def str_at_def)
qed

lemma labels_listed_witness:
  "runs_as ''web-app-1'' ''h'' (ps_container (zero_ps\<lparr>psNames := [''web-app-1''], psState := ''running'',
     psLabels := Some [(''mica.containerd'', ''1''), (''mica.containerd.spec'', ''h''), (''mica.containerd.project'', ''web'')]\<rparr>))"
proof -
  let ?e = "zero_ps\<lparr>psNames := [''web-app-1''], psState := ''running'',
     psLabels := Some [(''mica.containerd'', ''1''), (''mica.containerd.spec'', ''h''), (''mica.containerd.project'', ''web'')]\<rparr>"
  have "values_of (run_opts rig_podman (Hash (\<lambda>t. ''h'') (arg_spec ''no'')) (normalized (arg_spec ''no'')) []) ''--label''
      = [''mica.containerd=1'', ''mica.containerd.spec=h'', ''mica.containerd.project=web'']"
    by (simp add: run_opts_def values_of_health Hash_def arg_spec_def LabelManaged_def LabelSpec_def LabelProject_def)
  then have "list_all (\<lambda>v. case cut CHR ''='' v of (k, x) \<Rightarrow> map_of (elems (psLabels ?e)) k = x)
      (values_of (run_opts rig_podman (Hash (\<lambda>t. ''h'') (arg_spec ''no'')) (normalized (arg_spec ''no'')) []) ''--label'')"
    by (simp add: cut_def)
  with labels_listed [of ?e "arg_spec ''no''" rig_podman "\<lambda>t. ''h''" "[]"] show ?thesis
    by (simp add: arg_spec_def Hash_def)
qed

end
