(* ===== verification/ComposeTypes.thy ===== *)
theory ComposeTypes
  imports Problem Strconv Complex_Main
begin

text \<open>
  What package compose reads: the fields it uses of compose-go's \<open>types.ServiceConfig\<close>, and what it asks of the file
  system. compose-go and the yaml parser are third-party and parameters of the checker: \<open>lib\<close>
  is what is called of them.
\<close>

section \<open>A loaded service\<close>

record service_port =
  spHostIP :: string
  spMode :: string
  spTarget :: nat
  spPublished :: string
  spProtocol :: string

text \<open>\<open>Bind\<close> and \<open>Volume\<close> are pointers: \<open>CreateHostPath\<close> of the one, \<open>NoCopy\<close> and \<open>Subpath\<close> of the other.\<close>

record service_volume =
  mvType :: string
  mvSource :: string
  mvTarget :: string
  mvReadOnly :: bool
  mvBind :: "bool option"
  mvVolume :: "(bool \<times> string) option"

record service_dependency =
  sdCondition :: string
  sdRestart :: bool
  sdRequired :: bool

record health_config =
  hcTest :: "string list"
  hcTimeout :: "duration option"
  hcInterval :: "duration option"
  hcRetries :: "nat option"
  hcStartPeriod :: "duration option"
  hcStartInterval :: "duration option"
  hcDisable :: bool

text \<open>A number of CPUs is a \<open>float32\<close>: its value, a rational.\<close>

record resource =
  rsNanoCPUs :: rat
  rsMemoryBytes :: int
  rsPids :: int

record deploy_config =
  dcReplicas :: "int option"
  dcLimits :: "resource option"

record device_mapping =
  dmSource :: string
  dmTarget :: string
  dmPermissions :: string

record service_config =
  scName :: string
  scContainerName :: string
  scImage :: string
  scEntrypoint :: "string list"
  scCommand :: "string list option"
  scUser :: string
  scWorkingDir :: string
  scNetworkMode :: string
  scCapAdd :: "string list"
  scCapDrop :: "string list"
  scEnvironment :: "(string \<times> string option) list"
  scPorts :: "service_port list"
  scVolumes :: "service_volume list"
  scDevices :: "device_mapping list"
  scDeviceCgroupRules :: "string list"
  scRestart :: string
  scDependsOn :: "(string \<times> service_dependency) list"
  scHealthCheck :: "health_config option"
  scMemLimit :: int
  scCPUS :: rat
  scPidsLimit :: int
  scDeploy :: "deploy_config option"

section \<open>The outside\<close>

text \<open>What the checker asks of the file system; \<open>stat\<close> tells a directory, a device and anything else apart.\<close>

datatype file_kind = Directory | DeviceNode | OtherFile

record fs =
  fsEvalSymlinks :: "string \<Rightarrow> fs_error + string"
  fsExists :: "string \<Rightarrow> bool"
  fsStat :: "string \<Rightarrow> fs_error + file_kind"
  fsWritable :: "string \<Rightarrow> fs_error option"

text \<open>
  \<open>yaml.Unmarshal\<close> into \<open>map[string]any\<close>; compose-go's \<open>DefaultReplacementAppliedFunc\<close> where no variable is set, which
  gives a value and whether it applied, and \<open>SubstituteWithOptions\<close> over a replacement function; and
  \<open>loader.LoadWithContext\<close> with the options the code gives it: how to interpolate, the project's name, its directory
  and the file. \<open>Inl\<close> is the error's text; a project is its services by name, an active one with its
  configuration and a disabled one with the error \<open>GetService\<close> returns.
\<close>

record lib =
  lbYaml :: "string \<Rightarrow> string + (string \<times> yaml) list"
  lbApplied :: "string \<Rightarrow> string + string \<times> bool"
  lbSubstitute :: "(string \<Rightarrow> string + string) \<Rightarrow> string \<Rightarrow> string + string"
  lbLoad :: "(string \<Rightarrow> string + string) \<Rightarrow> string \<Rightarrow> string \<Rightarrow> string \<Rightarrow> string + (string \<times> (string + service_config)) list"

text \<open>The replacement function of \<open>substitute\<close>: a variable compose-go's does not apply to is refused.\<close>

definition replacement_of :: "(string \<Rightarrow> string + string \<times> bool) \<Rightarrow> string \<Rightarrow> string + string" where
  "replacement_of applied s = (case applied s of
     Inl e \<Rightarrow> Inl e
   | Inr (v, ok) \<Rightarrow> if ok then Inr v else Inl (''interpolation: '' @ s @ '' is not set and has no default''))"

definition substitute :: "lib \<Rightarrow> string \<Rightarrow> string + string" where
  "substitute L tmpl = lbSubstitute L (replacement_of (lbApplied L)) tmpl"

definition load_project :: "lib \<Rightarrow> string \<Rightarrow> string \<Rightarrow> string \<Rightarrow> string + (string \<times> (string + service_config)) list" where
  "load_project L = lbLoad L (substitute L)"

end
