(* ===== verification/Compose.thy ===== *)
theory Compose
  imports ComposeTypes Validate
begin

text \<open>
  \<open>compose/compose.go\<close>: a Compose file turned into the specs of its containers. A function of the
  checker gives the problems it adds, in the order it adds them; \<open>load\<close> is \<open>Load\<close>, over the yaml
  parser, compose-go and the file system.
\<close>

section \<open>Names\<close>

definition projectRE :: regex where
  "projectRE = Seq (Cls [(CHR ''a'', CHR ''z''), (CHR ''0'', CHR ''9'')])
     (UpTo (Cls [(CHR ''a'', CHR ''z''), (CHR ''0'', CHR ''9''), (CHR ''_'', CHR ''_''), (CHR ''-'', CHR ''-'')]) 39)"

definition serviceRE :: regex where
  "serviceRE = Seq (Cls [(CHR ''a'', CHR ''z''), (CHR ''0'', CHR ''9'')])
     (UpTo (Cls [(CHR ''a'', CHR ''z''), (CHR ''0'', CHR ''9''), (CHR ''_'', CHR ''_''), (CHR ''-'', CHR ''-'')]) 19)"

definition ValidProject :: "string \<Rightarrow> bool" where
  "ValidProject name = matches projectRE name"

definition ContainerName :: "string \<Rightarrow> string \<Rightarrow> string" where
  "ContainerName project service = project @ ''-'' @ service @ ''-1''"

definition NetworkName :: "string \<Rightarrow> string" where
  "NetworkName project = project @ ''_default''"

definition Dir :: "string \<Rightarrow> string \<Rightarrow> string" where
  "Dir volumes project = path_join [volumes, project]"

section \<open>The keys read\<close>

definition topKeys :: "string list" where
  "topKeys = [''name'', ''services'', ''volumes'', ''networks'', ''version'']"

definition serviceKeys :: "string list" where
  "serviceKeys = [''image'', ''command'', ''entrypoint'', ''environment'', ''env_file'', ''ports'', ''volumes'', ''restart'',
     ''depends_on'', ''healthcheck'', ''mem_limit'', ''cpus'', ''pids_limit'', ''deploy'', ''networks'', ''expose'', ''user'', ''working_dir'',
     ''container_name'', ''network_mode'', ''cap_add'', ''cap_drop'', ''devices'', ''device_cgroup_rules'']"

definition portKeys :: "string list" where "portKeys = [''target'', ''published'', ''protocol'', ''mode'']"
definition volumeKeys :: "string list" where "volumeKeys = [''type'', ''source'', ''target'', ''read_only'']"
definition envFileKeys :: "string list" where "envFileKeys = [''path'', ''required'']"
definition deviceKeys :: "string list" where "deviceKeys = [''source'', ''target'', ''permissions'']"
definition dependsKeys :: "string list" where "dependsKeys = [''condition'', ''required'', ''restart'']"
definition healthKeys :: "string list" where
  "healthKeys = [''test'', ''interval'', ''timeout'', ''retries'', ''start_period'', ''disable'']"
definition deployKeys :: "string list" where "deployKeys = [''resources'', ''replicas'']"
definition resourcesKeys :: "string list" where "resourcesKeys = [''limits'']"
definition limitsKeys :: "string list" where "limitsKeys = [''cpus'', ''memory'', ''pids'']"

section \<open>Problems\<close>

definition add :: "string \<Rightarrow> string \<Rightarrow> detail \<Rightarrow> problem list" where
  "add service field d = [\<lparr>pbProject = [], pbService = service, pbField = field, pbDetail = d\<rparr>]"

text \<open>\<open>checker.err\<close>: the problems, stably sorted by service.\<close>

definition err :: "problem list \<Rightarrow> problem list" where
  "err ps = sort_key pbService ps"

text \<open>\<open>only\<close> refuses every key of a map that is neither allowed nor an extension, by its path.\<close>

definition only :: "string \<Rightarrow> string \<Rightarrow> (string \<times> yaml) list \<Rightarrow> string list \<Rightarrow> problem list" where
  "only service path m allowed =
     concat (map (\<lambda>k. let field = (if path = [] then k else path @ ''.'' @ k) in
         if k \<notin> set allowed \<and> \<not> has_prefix k ''x-'' then add service field (NotSupported field) else [])
       (sorted_keys m))"

fun mapOf :: "yaml \<Rightarrow> (string \<times> yaml) list option" where
  "mapOf (YMap m) = Some m"
| "mapOf _ = None"

text \<open>\<open>m[k]\<close>, nil when there is none; and \<open>s, _ := v.(string)\<close>.\<close>

definition at_key :: "(string \<times> yaml) list \<Rightarrow> string \<Rightarrow> yaml" where
  "at_key m k = (case map_of m k of None \<Rightarrow> YNull | Some v \<Rightarrow> v)"

fun str_or_empty :: "yaml \<Rightarrow> string" where
  "str_or_empty (YStr s) = s"
| "str_or_empty _ = []"

text \<open>\<open>if m, ok := mapOf(v); ok { .. }\<close> and \<open>if xs, ok := v.([]any); ok { for .. }\<close>.\<close>

definition when_map :: "yaml \<Rightarrow> ((string \<times> yaml) list \<Rightarrow> problem list) \<Rightarrow> problem list" where
  "when_map v f = (case mapOf v of None \<Rightarrow> [] | Some m \<Rightarrow> f m)"

fun for_each :: "yaml \<Rightarrow> (yaml \<Rightarrow> problem list) \<Rightarrow> problem list" where
  "for_each (YSeq xs) f = concat (map f xs)"
| "for_each _ f = []"

section \<open>What is written\<close>

definition raw_port :: "string \<Rightarrow> yaml \<Rightarrow> problem list" where
  "raw_port name p = when_map p (\<lambda>m. only name ''ports'' m portKeys
     @ (case map_of m ''mode'' of Some mode \<Rightarrow> if mode \<noteq> YStr ''ingress'' then add name ''ports.mode'' (BadPortMode mode) else []
        | None \<Rightarrow> []))"

definition raw_volume :: "string \<Rightarrow> yaml \<Rightarrow> problem list" where
  "raw_volume name v =
     (let (ps, source) = (case mapOf v of
        None \<Rightarrow> ([], fst (cut CHR '':'' (str_or_empty v)))
      | Some m \<Rightarrow> (only name ''volumes'' m volumeKeys, str_or_empty (at_key m ''source'')))
      in ps @ (if has_prefix source ''~'' then add name ''volumes'' (HomePath source) else []))"

fun env_files :: "yaml \<Rightarrow> yaml list" where
  "env_files (YStr s) = [YStr s]"
| "env_files (YSeq xs) = xs"
| "env_files _ = []"

definition raw_env_file :: "string \<Rightarrow> yaml \<Rightarrow> problem list" where
  "raw_env_file name e =
     (let (ps, p) = (case mapOf e of
        None \<Rightarrow> ([], str_or_empty e)
      | Some m \<Rightarrow> (only name ''env_file'' m envFileKeys, str_or_empty (at_key m ''path'')))
      in ps @ (if has_prefix p ''~'' then add name ''env_file'' (HomePath p) else []))"

definition raw_deploy :: "string \<Rightarrow> (string \<times> yaml) list \<Rightarrow> problem list" where
  "raw_deploy name d = only name ''deploy'' d deployKeys
     @ when_map (at_key d ''resources'') (\<lambda>r. only name ''deploy.resources'' r resourcesKeys
       @ when_map (at_key r ''limits'') (\<lambda>l. only name ''deploy.resources.limits'' l limitsKeys))"

text \<open>A network map or nil: its length is 0 when it is no map.\<close>

definition has_options :: "yaml \<Rightarrow> bool" where
  "has_options v = (case mapOf v of None \<Rightarrow> False | Some m \<Rightarrow> m \<noteq> [])"

fun raw_networks :: "string \<Rightarrow> yaml \<Rightarrow> problem list" where
  "raw_networks name (YSeq n) = concat (map (\<lambda>v. if v \<noteq> YStr ''default'' then add name ''networks'' (OnlyDefaultNetwork v) else []) n)"
| "raw_networks name (YMap n) = concat (map (\<lambda>(k, v). if k \<noteq> ''default'' \<or> has_options v
     then add name ''networks'' (OnlyDefaultNetwork (YStr k)) else []) n)"
| "raw_networks name _ = []"

definition rawService :: "string \<Rightarrow> (string \<times> yaml) list \<Rightarrow> problem list" where
  "rawService name svc =
     for_each (at_key svc ''ports'') (raw_port name)
     @ for_each (at_key svc ''volumes'') (raw_volume name)
     @ concat (map (raw_env_file name) (env_files (at_key svc ''env_file'')))
     @ for_each (at_key svc ''devices'') (\<lambda>d. when_map d (\<lambda>m. only name ''devices'' m deviceKeys))
     @ when_map (at_key svc ''depends_on'') (\<lambda>deps. concat (map (\<lambda>(dep, v).
         when_map v (\<lambda>m. only name (''depends_on.'' @ dep) m dependsKeys)) deps))
     @ when_map (at_key svc ''healthcheck'') (\<lambda>h. only name ''healthcheck'' h healthKeys)
     @ when_map (at_key svc ''deploy'') (raw_deploy name)
     @ (if has_key svc ''network_mode'' \<and> at_key svc ''networks'' \<noteq> YNull then add name ''networks'' NetworksAndMode else [])
     @ raw_networks name (at_key svc ''networks'')"

definition raw_entry :: "string \<times> yaml \<Rightarrow> problem list" where
  "raw_entry = (\<lambda>(name, v). if \<not> matches serviceRE name then add name ''name'' (BadService name)
     else when_map v (\<lambda>svc. only name [] svc serviceKeys @ rawService name svc))"

definition raw :: "string \<Rightarrow> (string \<times> yaml) list \<Rightarrow> problem list" where
  "raw project file =
     only [] [] file topKeys
     @ (case map_of file ''name'' of Some n \<Rightarrow> if n \<noteq> YStr project then add [] ''name'' (OtherName n project) else [] | None \<Rightarrow> [])
     @ when_map (at_key file ''networks'') (\<lambda>nets. concat (map (\<lambda>(name, v). if name \<noteq> ''default'' \<or> has_options v
         then add [] ''networks'' (OnlyDefaultNetwork (YStr name)) else []) nets))
     @ when_map (at_key file ''volumes'') (\<lambda>vols. concat (map (\<lambda>(name, v). when_map v (\<lambda>m. only [] (''volumes.'' @ name) m [])) vols))
     @ (case mapOf (at_key file ''services'') of
          None \<Rightarrow> add [] ''services'' NoService
        | Some services \<Rightarrow> if services = [] then add [] ''services'' NoService else concat (map raw_entry services))"

section \<open>What is loaded\<close>

definition capability :: "string \<Rightarrow> string \<Rightarrow> string \<Rightarrow> problem list \<times> string list" where
  "capability service field n =
     (let up = to_upper n;
          cap = (if up \<noteq> CapAll \<and> \<not> has_prefix up ''CAP_'' then ''CAP_'' @ up else up)
      in if cap \<noteq> CapAll \<and> cap \<notin> set Capabilities then (add service field (UnknownCapability n), []) else ([], [cap]))"

text \<open>Run over a list: all the problems, then all the results.\<close>

definition collect :: "('a \<Rightarrow> problem list \<times> 'b list) \<Rightarrow> 'a list \<Rightarrow> problem list \<times> 'b list" where
  "collect f xs = (concat (map (\<lambda>x. fst (f x)) xs), concat (map (\<lambda>x. snd (f x)) xs))"

definition capabilities :: "string \<Rightarrow> string \<Rightarrow> string list \<Rightarrow> problem list \<times> string list" where
  "capabilities service field names = collect (capability service field) names"

definition environment_entry :: "string \<Rightarrow> string \<times> string option \<Rightarrow> problem list \<times> (string \<times> string) list" where
  "environment_entry name kv = (case kv of (k, None) \<Rightarrow> (add name ''environment'' (NoValue k), []) | (k, Some v) \<Rightarrow> ([], [(k, v)]))"

definition check_port :: "string \<Rightarrow> service_port \<Rightarrow> problem list \<times> port list" where
  "check_port service p =
     (if spHostIP p \<noteq> [] then (add service ''ports'' (HostAddress (spTarget p) (spHostIP p)), [])
      else if spMode p = ''host'' then (add service ''ports'' (HostModePort (spTarget p)), [])
      else if spPublished p = [] then (add service ''ports'' (NotPublished (spTarget p)), [])
      else case parse_uint 16 (spPublished p) of
        None \<Rightarrow> (add service ''ports'' (BadPortPair (spPublished p) (spTarget p)), [])
      | Some host \<Rightarrow> if spTarget p > 65535 then (add service ''ports'' (BadPortPair (spPublished p) (spTarget p)), [])
          else ([], [\<lparr>pHost = of_nat host, pContainer = of_nat (spTarget p), pProtocol = spProtocol p\<rparr>]))"

text \<open>
  \<open>resolve\<close>: the links of the longest part of a path that exists, resolved, and the rest of it. The loop goes up
  one element at a time; \<open>None\<close> would be a loop without end (\<open>resolve_ends\<close>).
\<close>

partial_function (option) resolve_from :: "fs \<Rightarrow> string \<Rightarrow> string \<Rightarrow> (detail + string \<times> string) option" where
  "resolve_from F q rest = (case fsEvalSymlinks F q of
     Inr r \<Rightarrow> Some (Inr (path_join [r, rest], r))
   | Inl e \<Rightarrow> if fsExists F q \<or> \<not> (e = NotExist \<or> e = NotDir) \<or> q = ''/'' then Some (Inl (Unresolved q e))
       else resolve_from F (path_dir q) (path_join [path_base q, rest]))"

definition resolve :: "fs \<Rightarrow> string \<Rightarrow> (detail + string \<times> string) option" where
  "resolve F p = resolve_from F p []"

definition creatable :: "fs \<Rightarrow> string \<Rightarrow> detail option" where
  "creatable F dir = (case fsStat F dir of
     Inl e \<Rightarrow> Some (Unresolved dir e)
   | Inr k \<Rightarrow> if k \<noteq> Directory then Some (NotADirectory dir)
       else (case fsWritable F dir of Some e \<Rightarrow> Some (Unresolved dir e) | None \<Rightarrow> None))"

definition bind_volume :: "fs \<Rightarrow> string \<Rightarrow> service_volume \<Rightarrow> (problem list \<times> volume list) option" where
  "bind_volume F service v = (case resolve F (path_clean (mvSource v)) of
     None \<Rightarrow> None
   | Some (Inl d) \<Rightarrow> Some (add service ''volumes'' d, [])
   | Some (Inr (host, existing)) \<Rightarrow> Some
       (let create = (mvBind v = Some True); vol = \<lparr>vHost = host, vContainer = mvTarget v, vReadOnly = mvReadOnly v, vMake = create\<rparr> in
        if host \<noteq> existing \<and> \<not> create then (add service ''volumes'' (VolumeMissing (mvSource v)), [])
        else if host \<noteq> existing \<and> creatable F existing \<noteq> None
          then (add service ''volumes'' (VolumeUnmakable (mvSource v) (the (creatable F existing))), [])
        else ([], [vol])))"

definition check_volume :: "fs \<Rightarrow> string \<Rightarrow> string \<Rightarrow> service_volume \<Rightarrow> (problem list \<times> volume list) option" where
  "check_volume F volumes service v =
     (if mvType v = ''bind'' then bind_volume F service v
      else Some (if mvType v = ''volume'' then
        (if mvSource v = [] then (add service ''volumes'' (AnonymousVolume (mvTarget v)), [])
         else if (case mvVolume v of None \<Rightarrow> False | Some (nocopy, subpath) \<Rightarrow> nocopy \<or> subpath \<noteq> [])
           then (add service ''volumes'' (VolumeOptions (mvTarget v)), [])
         else ([], [\<lparr>vHost = path_join [volumes, mvSource v], vContainer = mvTarget v, vReadOnly = mvReadOnly v, vMake = True\<rparr>]))
      else (add service ''volumes'' (VolumeType (mvTarget v) (mvType v)), [])))"

definition check_mapping :: "fs \<Rightarrow> string \<Rightarrow> device_mapping \<Rightarrow> problem list \<times> device list" where
  "check_mapping F service d =
     (let out = \<lparr>dvHost = dmSource d, dvContainer = (if dmTarget d = [] then dmSource d else dmTarget d),
                dvPermissions = (if dmPermissions d = [] then ''rwm'' else dmPermissions d)\<rparr> in
      if \<not> path_is_abs (dmSource d) then (add service ''devices'' (DeviceRelative (dmSource d)), [])
      else case fsStat F (dmSource d) of
        Inl e \<Rightarrow> if e = NotExist then (add service ''devices'' (DeviceAbsent (dmSource d)), [])
            else (add service ''devices'' (Unresolved (dmSource d) e), [])
      | Inr k \<Rightarrow> if k \<noteq> DeviceNode then (add service ''devices'' (NotADevice (dmSource d)), []) else ([], [out]))"

definition restart_of :: "string \<Rightarrow> string \<Rightarrow> restart \<Rightarrow> problem list \<times> restart" where
  "restart_of service policy r =
     (if policy = [] \<or> policy = ''no'' then ([], r\<lparr>rPolicy := PolicyNo\<rparr>)
      else if policy = ''always'' \<or> policy = ''unless-stopped'' then ([], r\<lparr>rPolicy := PolicyAlways\<rparr>)
      else if policy = ''on-failure'' then ([], r\<lparr>rPolicy := PolicyOnFailure\<rparr>)
      else if has_prefix policy ''on-failure:'' then
        (case atoi (trim_prefix policy ''on-failure:'') of
           None \<Rightarrow> (add service ''restart'' (BadRestartCount policy), r)
         | Some n \<Rightarrow> if n < 1 then (add service ''restart'' (BadRestartCount policy), r)
             else ([], r\<lparr>rPolicy := PolicyOnFailure, rMaxRestarts := n\<rparr>))
      else (add service ''restart'' (BadRestartPolicy policy), r))"

definition dependency_of :: "(string \<times> string) list \<Rightarrow> string \<Rightarrow> string \<times> service_dependency \<Rightarrow> problem list \<times> dependency list" where
  "dependency_of names service dd = (case dd of (d, dep) \<Rightarrow>
     (let known = sdCondition dep = [] \<or> sdCondition dep = ''service_started'';
          healthy = sdCondition dep = ''service_healthy'' in
      ((if known \<or> healthy then [] else add service ''depends_on'' (BadCondition d (sdCondition dep)))
       @ (if \<not> sdRequired dep then add service ''depends_on'' (OptionalDependency d) else [])
       @ (if sdRestart dep then add service ''depends_on'' (DependencyRestart d) else []),
       [\<lparr>dName = str_at names d, dReady = (if healthy then ReadyHealthy else ReadyRunning)\<rparr>])))"

definition seconds_of :: "string \<Rightarrow> string \<Rightarrow> duration option \<Rightarrow> problem list \<times> int" where
  "seconds_of service field d = (case d of None \<Rightarrow> ([], 0)
     | Some t \<Rightarrow> if t mod second \<noteq> 0 \<or> t < 0 then (add service ''healthcheck'' (NotWholeSeconds field t), 0)
         else ([], t div second))"

definition health_of :: "string \<Rightarrow> health_config option \<Rightarrow> problem list \<times> health option" where
  "health_of service hc = (case hc of None \<Rightarrow> ([], None) | Some h \<Rightarrow>
     (case hcTest h of [] \<Rightarrow> ([], None) | kind # args \<Rightarrow>
      if hcDisable h \<or> kind = ''NONE'' then ([], None) else
      let (p1, interval) = seconds_of service ''interval'' (hcInterval h);
          (p2, timeout) = seconds_of service ''timeout'' (hcTimeout h);
          (p3, start) = seconds_of service ''start_period'' (hcStartPeriod h);
          retries = (case hcRetries h of None \<Rightarrow> 0 | Some n \<Rightarrow> int (min n 1000)) in
      ((if hcStartInterval h \<noteq> None then add service ''healthcheck'' StartInterval else [])
       @ p1 @ p2 @ p3
       @ (if hcInterval h \<noteq> None \<and> interval = 0 \<or> hcTimeout h \<noteq> None \<and> timeout = 0 then add service ''healthcheck'' ZeroSeconds else [])
       @ (if hcRetries h \<noteq> None \<and> retries = 0 then add service ''healthcheck'' ZeroRetries else [])
       @ (if kind \<noteq> ''CMD'' \<and> kind \<noteq> ''CMD-SHELL'' then add service ''healthcheck'' (BadTest kind) else []),
       Some \<lparr>hCommand = (if kind = ''CMD'' then args else if kind = ''CMD-SHELL'' then [''/bin/sh'', ''-c'', join '' '' args] else []),
         hIntervalSeconds = interval, hTimeoutSeconds = timeout, hRetries = retries, hStartPeriodSeconds = start\<rparr>)))"

text \<open>\<open>FormatFloat(cpus, 'f', 3, 32)\<close>, exact halves to the even digit, without trailing zeros.\<close>

definition thousandths :: "rat \<Rightarrow> int" where
  "thousandths q = (let n = \<lfloor>q * 1000\<rfloor>; r = q * 1000 - of_int n in
     if r > 1 / 2 \<or> r = 1 / 2 \<and> odd n then n + 1 else n)"

definition pad3 :: "nat \<Rightarrow> string" where
  "pad3 n = [digit_char (n div 100), digit_char (n div 10 mod 10), digit_char (n mod 10)]"

definition format_cpus :: "rat \<Rightarrow> string" where
  "format_cpus q = (let n = nat (thousandths q) in
     trim_right CHR ''.'' (trim_right CHR ''0'' (show_nat (n div 1000) @ ''.'' @ pad3 (n mod 1000))))"

definition limits_of :: "string \<Rightarrow> service_config \<Rightarrow> problem list \<times> limits" where
  "limits_of service svc =
     (let lim = (case scDeploy svc of None \<Rightarrow> None | Some d \<Rightarrow> dcLimits d);
          memory = (case lim of None \<Rightarrow> scMemLimit svc | Some l \<Rightarrow> max (scMemLimit svc) (rsMemoryBytes l));
          cpus = (case lim of None \<Rightarrow> scCPUS svc | Some l \<Rightarrow> max (scCPUS svc) (rsNanoCPUs l));
          pids = (case lim of None \<Rightarrow> scPidsLimit svc | Some l \<Rightarrow> max (scPidsLimit svc) (rsPids l)) in
      ((case scDeploy svc of None \<Rightarrow> [] | Some d \<Rightarrow> (case dcReplicas d of None \<Rightarrow> []
          | Some n \<Rightarrow> if n \<noteq> 1 then add service ''deploy'' (BadReplicas n) else []))
       @ (if pids < 0 then add service ''pids_limit'' (BadPidsLimit pids) else [])
       @ (if memory > 0 \<and> memory mod 2 ^ 30 \<noteq> 0 \<and> memory mod 2 ^ 20 \<noteq> 0 \<and> memory mod 2 ^ 10 \<noteq> 0
          then add service ''mem_limit'' (NotWholeKiB memory) else []),
       \<lparr>lPids = max pids 0,
        lMemory = (if memory \<le> 0 then []
          else if memory mod 2 ^ 30 = 0 then show_int (memory div 2 ^ 30) @ ''g''
          else if memory mod 2 ^ 20 = 0 then show_int (memory div 2 ^ 20) @ ''m''
          else if memory mod 2 ^ 10 = 0 then show_int (memory div 2 ^ 10) @ ''k'' else []),
        lCPU = (if cpus > 0 then format_cpus cpus else [])\<rparr>))"

section \<open>A service\<close>

definition ports_of :: "string \<Rightarrow> service_config \<Rightarrow> problem list \<times> port list" where
  "ports_of name svc = collect (check_port name) (scPorts svc)"

text \<open>A list of fallible results, when every one of them ends.\<close>

fun collect_opt :: "('a \<Rightarrow> (problem list \<times> 'b list) option) \<Rightarrow> 'a list \<Rightarrow> (problem list \<times> 'b list) option" where
  "collect_opt f [] = Some ([], [])"
| "collect_opt f (x # xs) = (case (f x, collect_opt f xs) of
     (Some (ps, ys), Some (qs, zs)) \<Rightarrow> Some (ps @ qs, ys @ zs) | _ \<Rightarrow> None)"

definition network_of :: "string \<Rightarrow> service_config \<Rightarrow> problem list \<times> string \<times> string list \<times> string" where
  "network_of project svc =
     (let name = scName svc; mode = scNetworkMode svc in
      if mode = [] then ([], NetworkName project, [name], [])
      else if mode = NetworkHost \<or> mode = NetworkNone then
        (if mode = NetworkHost \<and> scPorts svc \<noteq> [] then add name ''ports'' HostPublishes else [], [], [], mode)
      else (add name ''network_mode'' (BadMode mode), [], [], []))"

record checker =
  ckProject :: string
  ckDir :: string
  ckVolumes :: string
  ckNames :: "(string \<times> string) list"

text \<open>\<open>nil_of\<close>: what \<open>append\<close> to a nil slice leaves, nil when nothing was appended.\<close>

definition nil_of :: "'a list \<Rightarrow> 'a list option" where
  "nil_of xs = (if xs = [] then None else Some xs)"

text \<open>The problems of a service in the order they are added, and its spec.\<close>

definition service_spec :: "fs \<Rightarrow> checker \<Rightarrow> service_config \<Rightarrow> (problem list \<times> spec) option" where
  "service_spec F c svc =
     (let name = scName svc;
          (netp, net, aliases, mode) = network_of (ckProject c) svc;
          (addp, cadd) = capabilities name ''cap_add'' (scCapAdd svc);
          (dropp, cdrop) = capabilities name ''cap_drop'' (scCapDrop svc);
          (envp, environment) = collect (environment_entry name) (scEnvironment svc);
          (portp, ports) = ports_of name svc;
          (devp, devs) = collect (check_mapping F name) (scDevices svc);
          (restp, rest) = restart_of name (scRestart svc) \<lparr>rPolicy = [], rMaxRestarts = 0\<rparr>;
          (depp, deps) = collect (dependency_of (ckNames c) name) (sorted_entries (scDependsOn svc));
          (healthp, h) = health_of name (scHealthCheck svc);
          (limp, lim) = limits_of name svc in
      case collect_opt (check_volume F (ckVolumes c) name) (scVolumes svc) of None \<Rightarrow> None
      | Some (volp, vols) \<Rightarrow>
        Some (netp @ addp @ dropp @ envp @ portp @ volp @ devp @ restp @ depp @ healthp @ limp,
          \<lparr>sName = str_at (ckNames c) name, sProject = ckProject c, sService = name, sImage = scImage svc,
           sEntrypoint = scEntrypoint svc, sUser = scUser svc, sWorkingDir = scWorkingDir svc, sCommand = scCommand svc,
           sEnvironment = nil_of environment, sPublish = ports, sVolumes = nil_of vols, sNetwork = net, sAliases = aliases,
           sNetworkMode = mode, sCapAdd = cadd, sCapDrop = cdrop, sDevices = devs,
           sDeviceCgroupRules = scDeviceCgroupRules svc, sLimits = lim, sRestart = rest, sHealth = h, sDependsOn = deps\<rparr>))"

text \<open>\<open>service\<close>: the spec only when nothing was added, and validation does not refuse it.\<close>

definition service :: "fs \<Rightarrow> checker \<Rightarrow> service_config \<Rightarrow> (problem list \<times> spec list) option" where
  "service F c svc = (case service_spec F c svc of None \<Rightarrow> None
     | Some (ps, s) \<Rightarrow> Some (if ps \<noteq> [] then (ps, []) else (case validate s of
         Some e \<Rightarrow> (add (scName svc) (rule_of e) (Refused e), []) | None \<Rightarrow> ([], [s]))))"

section \<open>Load\<close>

text \<open>The names of the containers: \<open>holders\<close> and \<open>c.names\<close>, service by service.\<close>

fun name_services :: "string \<Rightarrow> (string \<times> (string + service_config)) list \<Rightarrow> (string \<times> string) list \<Rightarrow> (string \<times> string) list
    \<Rightarrow> problem list \<times> (string \<times> string) list" where
  "name_services project [] holders names = ([], names)"
| "name_services project ((name, Inl e) # svcs) holders names = name_services project svcs holders names"
| "name_services project ((name, Inr svc) # svcs) holders names =
     (let n = (if scContainerName svc \<noteq> [] then scContainerName svc else ContainerName project name);
          badp = (if scContainerName svc \<noteq> [] \<and> \<not> ValidName n then add name ''container_name'' (BadContainerName n) else []);
          takenp = (case map_of holders n of Some other \<Rightarrow> add name ''container_name'' (ContainerTaken n other) | None \<Rightarrow> []);
          (ps, names') = name_services project svcs (mput n name holders) (mput name n names)
      in (badp @ takenp @ ps, names'))"

definition check_service :: "fs \<Rightarrow> checker \<Rightarrow> string \<times> (string + service_config) \<Rightarrow> (problem list \<times> spec list) option" where
  "check_service F c ns = (case ns of (name, Inl e) \<Rightarrow> Some (add name ''compose'' (ComposeError e), []) | (name, Inr svc) \<Rightarrow> service F c svc)"

text \<open>\<open>None\<close> is no result of \<open>Load\<close>: it would be a \<open>resolve\<close> that does not end.\<close>

definition load :: "lib \<Rightarrow> fs \<Rightarrow> string \<Rightarrow> string \<Rightarrow> string \<Rightarrow> string \<Rightarrow> (problem list + spec list) option" where
  "load L F project file dir volumes =
     (let vols = Dir volumes project; d = (if dir = [] then vols else dir) in
      if \<not> ValidProject project then Some (Inl (err (add [] ''name'' (ProjectName project))))
      else if \<not> path_is_abs d \<or> path_clean d \<noteq> d then Some (Inl (err (add [] ''projectDir'' (ProjectDir d))))
      else case lbYaml L file of
        Inl e \<Rightarrow> Some (Inl (err (add [] ''yaml'' (YamlError e))))
      | Inr written \<Rightarrow> if raw project written \<noteq> [] then Some (Inl (err (raw project written)))
      else case load_project L project d file of
        Inl e \<Rightarrow> Some (Inl (err (add [] ''compose'' (ComposeError e))))
      | Inr loaded \<Rightarrow>
        (let svcs = sorted_entries loaded;
             (namep, names) = name_services project svcs [] [];
             c = \<lparr>ckProject = project, ckDir = d, ckVolumes = vols, ckNames = names\<rparr> in
         case collect_opt (check_service F c) svcs of None \<Rightarrow> None
         | Some (svcp, specs) \<Rightarrow>
             Some (if namep @ svcp \<noteq> [] then Inl (err (namep @ svcp)) else Inr (sort_key sName specs))))"

end
