(* ===== verification/ComposePaths.thy ===== *)
theory ComposePaths
  imports Compose
begin

text \<open>
  The host paths of a Compose file: \<open>resolve\<close> ends, and finds the longest part of a path that exists; what a
  service that is taken mounts, for a bind and for a named volume.
\<close>

section \<open>Elements of a path\<close>

abbreviation abs_path :: "string list \<Rightarrow> string" where
  "abs_path es \<equiv> slash # join ''/'' es"

lemma split_on_elems: "es \<noteq> [] \<Longrightarrow> list_all plain_elem es \<Longrightarrow> split_on slash (join ''/'' es) = es"
  by (intro split_on_join) (auto simp: plain_elem_def list_all_iff)

lemma split_on_slash_end: "split_on slash (s @ ''/'') = split_on slash s @ [[]]"
  by (induction s) (auto split: list.splits)

lemma plain_no_slash: "plain_elem e \<Longrightarrow> slash \<notin> set e" by (simp add: plain_elem_def)

lemma dropWhile_rev_elem:
  "slash \<notin> set e \<Longrightarrow> dropWhile (\<lambda>c. c \<noteq> slash) (rev e @ slash # s) = slash # s"
  by (subst dropWhile_append3) (auto simp: dropWhile_append2)

lemma path_dir_abs:
  assumes "list_all plain_elem (es @ [e])"
  shows "path_dir (abs_path (es @ [e])) = abs_path es"
proof -
  have e: "slash \<notin> set e" and es: "list_all plain_elem es" using assms plain_no_slash by auto
  show ?thesis
  proof (cases "es = []")
    case True
    have "path_clean ''/'' = ''/''" by code_simp
    then show ?thesis using True e dropWhile_rev_elem [OF e, of "[]"] by (simp add: path_dir_def)
  next
    case False
    have "split_on slash (join ''/'' es @ ''/'') = es @ [[]]"
      using split_on_slash_end split_on_elems [OF False es] by metis
    then have "path_clean (slash # join ''/'' es @ ''/'') = abs_path es"
      using fold_clean_plain [OF es, of True "[]"] by (simp add: path_clean_rooted clean_step_def)
    then show ?thesis using False e dropWhile_rev_elem [OF e, of "rev (join ''/'' es) @ [slash]"]
      by (simp add: path_dir_def join_snoc)
  qed
qed

lemma path_base_abs:
  assumes "list_all plain_elem (es @ [e])"
  shows "path_base (abs_path (es @ [e])) = e"
proof -
  have e: "slash \<notin> set e" "e \<noteq> []" using assms by (auto simp: plain_elem_def)
  obtain f l where l: "e = f @ [l]" "l \<noteq> slash" using e by (cases e rule: rev_cases) auto
  have t: "takeWhile (\<lambda>c. c \<noteq> slash) (rev e @ slash # s) = rev e" for s
    using e(1) by (subst takeWhile_append2) auto
  have d: "rev (dropWhile (\<lambda>c. c = slash) (rev (p @ e))) = p @ e" for p using l by simp
  show ?thesis
  proof (cases "es = []")
    case True
    then show ?thesis using d [of "[slash]"] t [of "[]"] by (simp add: path_base_def)
  next
    case False
    then show ?thesis using d [of "slash # join ''/'' es @ [slash]"] t [of "rev (join ''/'' es) @ [slash]"]
      by (simp add: path_base_def join_snoc)
  qed
qed

lemma path_clean_rel:
  assumes "es \<noteq> []" and "list_all plain_elem es"
  shows "path_clean (join ''/'' es) = join ''/'' es"
proof -
  obtain e es' where e: "es = e # es'" using assms(1) by (cases es) auto
  then obtain c s where c: "e = c # s" "c \<noteq> slash" using assms(2) by (cases e) (auto simp: plain_elem_def)
  have "\<exists>t. join ''/'' es = c # t" using e c by (cases es') auto
  then obtain t where t: "join ''/'' es = c # t" by blast
  have "fold (clean_step False) (split_on slash (join ''/'' es)) [] = rev es"
    using fold_clean_plain [OF assms(2), of False "[]"] split_on_elems [OF assms] by simp
  then show ?thesis using t c by (simp add: path_clean_def Let_def)
qed

lemma path_join_base:
  assumes "list_all plain_elem (e # ds)"
  shows "path_join [e, join ''/'' ds] = join ''/'' (e # ds)"
proof (cases "ds = []")
  case True
  have "path_clean e = e" using path_clean_rel [of "[e]"] assms by simp
  then show ?thesis using True assms by (simp add: path_join_def plain_elem_def)
next
  case False
  then obtain d ds' where d: "ds = d # ds'" by (cases ds) auto
  then have "join ''/'' ds \<noteq> []" using assms by (cases ds') (auto simp: plain_elem_def)
  then show ?thesis using d assms path_clean_rel [of "e # ds"] by (simp add: path_join_def plain_elem_def)
qed

section \<open>resolve\<close>

text \<open>What a result of \<open>resolve\<close> says: \<open>existing\<close> is the first \<open>k\<close> elements with their links resolved, and nothing longer exists.\<close>

definition longest_existing :: "fs \<Rightarrow> string list \<Rightarrow> string list \<Rightarrow> string \<Rightarrow> string \<Rightarrow> bool" where
  "longest_existing F es ds host existing \<longleftrightarrow>
     (\<exists>k \<le> length es. fsEvalSymlinks F (abs_path (take k es)) = Inr existing
        \<and> host = path_join [existing, join ''/'' (drop k es @ ds)]
        \<and> (\<forall>j. k < j \<and> j \<le> length es \<longrightarrow> \<not> fsExists F (abs_path (take j es))))"

lemma longest_existing_snoc:
  assumes "longest_existing F es (e # ds) host existing" and "\<not> fsExists F (abs_path (es @ [e]))"
  shows "longest_existing F (es @ [e]) ds host existing"
proof -
  obtain k where k: "k \<le> length es" "fsEvalSymlinks F (abs_path (take k es)) = Inr existing"
    "host = path_join [existing, join ''/'' (drop k es @ e # ds)]"
    "\<forall>j. k < j \<and> j \<le> length es \<longrightarrow> \<not> fsExists F (abs_path (take j es))"
    using assms(1) by (auto simp: longest_existing_def)
  have "\<not> fsExists F (abs_path (take j (es @ [e])))" if "k < j" "j \<le> length (es @ [e])" for j
    using that k(4) assms(2) by (cases "j \<le> length es") (auto simp: not_le)
  then show ?thesis unfolding longest_existing_def using k by (intro exI [of _ k]) auto
qed

lemma resolve_from_ends:
  assumes "list_all plain_elem (es @ ds)"
  shows "\<exists>r. resolve_from F (abs_path es) (join ''/'' ds) = Some r
    \<and> (\<forall>host existing. r = Inr (host, existing) \<longrightarrow> longest_existing F es ds host existing)"
  using assms
proof (induction es arbitrary: ds rule: rev_induct)
  case Nil
  show ?case
    by (subst resolve_from.simps) (auto simp: longest_existing_def split: sum.splits)
next
  case (snoc e es)
  let ?q = "abs_path (es @ [e])"
  have p: "list_all plain_elem (es @ [e])" "list_all plain_elem (e # ds)" using snoc(2) by auto
  have q: "?q \<noteq> ''/''" using p(1) by (auto simp: join_snoc plain_elem_def)
  show ?case
  proof (cases "fsEvalSymlinks F ?q")
    case (Inr r)
    have "longest_existing F (es @ [e]) ds (path_join [r, join ''/'' ds]) r"
      unfolding longest_existing_def using Inr by (intro exI [of _ "length (es @ [e])"]) auto
    then show ?thesis using Inr by (subst resolve_from.simps) auto
  next
    case (Inl x)
    show ?thesis
    proof (cases "fsExists F ?q \<or> \<not> (x = NotExist \<or> x = NotDir)")
      case True
      then show ?thesis using Inl by (subst resolve_from.simps) auto
    next
      case False
      have "resolve_from F ?q (join ''/'' ds) = resolve_from F (abs_path es) (join ''/'' (e # ds))"
        using Inl False q path_dir_abs [OF p(1)] path_base_abs [OF p(1)] path_join_base [OF p(2)]
        by (subst resolve_from.simps) auto
      moreover obtain r where "resolve_from F (abs_path es) (join ''/'' (e # ds)) = Some r"
        "\<forall>host existing. r = Inr (host, existing) \<longrightarrow> longest_existing F es (e # ds) host existing"
        using snoc.IH [of "e # ds"] snoc(2) by auto
      ultimately show ?thesis using False longest_existing_snoc by auto
    qed
  qed
qed

text \<open>
  C21: \<open>resolve\<close> ends for every absolute path, whatever the file system answers; when it succeeds, what it calls
  existing is the longest part of the path that exists, with its links resolved, and the
  result is that with the rest of the path behind it.
\<close>

theorem resolve_ends:
  assumes "path_is_abs p"
  shows "\<exists>es r. list_all plain_elem es \<and> path_clean p = slash # join ''/'' es \<and> resolve F (path_clean p) = Some r
    \<and> (case r of Inl _ \<Rightarrow> True | Inr (host, existing) \<Rightarrow>
        \<exists>k \<le> length es. fsEvalSymlinks F (slash # join ''/'' (take k es)) = Inr existing
          \<and> host = path_join [existing, join ''/'' (drop k es)]
          \<and> (\<forall>j. k < j \<and> j \<le> length es \<longrightarrow> \<not> fsExists F (slash # join ''/'' (take j es))))"
proof -
  obtain es where es: "list_all plain_elem es" "path_clean p = abs_path es"
    using path_clean_clean_abs [OF assms] clean_abs_iff by blast
  from resolve_from_ends [of es "[]" F] es(1)
  obtain r where r: "resolve_from F (abs_path es) [] = Some r"
    "\<forall>host existing. r = Inr (host, existing) \<longrightarrow> longest_existing F es [] host existing" by auto
  then show ?thesis using es unfolding resolve_def longest_existing_def
    by (intro exI [of _ es] exI [of _ r]) (auto split: sum.splits)
qed

text \<open>A file system with one directory \<open>/data\<close>, a link to \<open>/mnt/disk\<close>.\<close>

definition link_fs :: fs where
  "link_fs = \<lparr>fsEvalSymlinks = (\<lambda>q. if q = ''/data'' then Inr ''/mnt/disk'' else if q = ''/'' then Inr ''/'' else Inl NotExist),
     fsExists = (\<lambda>q. q = ''/data'' \<or> q = ''/''), fsStat = (\<lambda>q. if q = ''/mnt/disk'' then Inr Directory else Inl NotExist),
     fsWritable = (\<lambda>q. None)\<rparr>"

lemma resolve_ends_witness:
  "\<exists>r. resolve link_fs (path_clean ''/data/a/../b'') = Some r"
  using resolve_ends [of "''/data/a/../b''" link_fs] by (auto simp: path_is_abs_def)

declare resolve_from.simps [code]

lemma resolve_link: "resolve link_fs ''/data/b/c'' = Some (Inr (''/mnt/disk/b/c'', ''/mnt/disk''))"
  by code_simp

section \<open>Volumes\<close>

text \<open>
  What one entry of \<open>volumes\<close> mounts. A bind: the longest part of its source that exists, with its links resolved, and the rest
  of the source behind it, which is made when the entry asks for that and the part that exists lets it.
\<close>

definition bound :: "fs \<Rightarrow> service_volume \<Rightarrow> volume \<Rightarrow> bool" where
  "bound F v vol \<longleftrightarrow> (\<exists>es existing. list_all plain_elem es \<and> path_clean (mvSource v) = abs_path es
     \<and> longest_existing F es [] (vHost vol) existing
     \<and> (vHost vol = existing \<or> (vMake vol \<and> creatable F existing = None)))
     \<and> (vMake vol \<longleftrightarrow> mvBind v = Some True)"

text \<open>A named volume: the directory of its name in the project's, but for the names \<open>.\<close> and \<open>..\<close>.\<close>

definition under :: "string \<Rightarrow> string \<Rightarrow> string" where
  "under d e = (if d = ''/'' then [] else d) @ ''/'' @ e"

definition named :: "string \<Rightarrow> string \<Rightarrow> service_volume \<Rightarrow> volume \<Rightarrow> bool" where
  "named volumes project v vol \<longleftrightarrow> mvType v = ''volume'' \<and> mvSource v \<noteq> [] \<and> vMake vol
     \<and> vHost vol = (if mvSource v = ''.'' then under volumes project
         else if mvSource v = ''..'' then volumes
         else under (under volumes project) (mvSource v))"

definition mounted :: "fs \<Rightarrow> string \<Rightarrow> string \<Rightarrow> service_volume \<Rightarrow> volume \<Rightarrow> bool" where
  "mounted F volumes project v vol \<longleftrightarrow> vContainer vol = mvTarget v \<and> vReadOnly vol = mvReadOnly v
     \<and> (if mvType v = ''bind'' then bound F v vol else named volumes project v vol)"

text \<open>What compose-go gives as the source: an absolute path for a bind, and no path for a name.\<close>

definition sourced :: "service_volume \<Rightarrow> bool" where
  "sourced v \<longleftrightarrow> (if mvType v = ''bind'' then path_is_abs (mvSource v) else slash \<notin> set (mvSource v))"

lemma join_abs:
  assumes "list_all plain_elem es" and "e \<noteq> []" and "slash \<notin> set e"
  shows "path_join [abs_path es, e] = abs_path (rev (clean_step True e (rev es)))"
proof -
  have "fold (clean_step True) (split_on slash (join ''/'' es @ ''/'' @ e)) [] = clean_step True e (rev es)"
  proof (cases "es = []")
    case True
    then show ?thesis using split_on_single [OF assms(3)] by (simp add: clean_step_def)
  next
    case False
    have "split_on slash (join ''/'' (es @ [e])) = es @ [e]"
      using assms by (intro split_on_join) (auto simp: plain_elem_def list_all_iff)
    then show ?thesis using False fold_clean_plain [OF assms(1), of True "[]"] by (simp add: join_snoc)
  qed
  then show ?thesis using assms(2) by (simp add: path_join_def path_clean_rooted)
qed

lemma under_abs: "list_all plain_elem es \<Longrightarrow> under (abs_path es) e = abs_path (es @ [e])"
proof (cases "es = []")
  case False
  assume "list_all plain_elem es"
  then have "join ''/'' es \<noteq> []" using False by (cases es rule: rev_cases) (auto simp: join_snoc plain_elem_def)
  then show ?thesis using False by (simp add: under_def join_snoc)
qed (simp add: under_def)

lemma named_volume:
  assumes "clean_abs volumes" and "plain_elem project" and "n \<noteq> []" and "slash \<notin> set n"
  shows "path_join [Dir volumes project, n] = (if n = ''.'' then under volumes project
     else if n = ''..'' then volumes else under (under volumes project) n)"
proof -
  obtain es where es: "list_all plain_elem es" "volumes = abs_path es" using assms(1) clean_abs_iff by blast
  have p: "list_all plain_elem (es @ [project])" "project \<noteq> []" "slash \<notin> set project" using es(1) assms(2) by (auto simp: plain_elem_def)
  have d: "Dir volumes project = abs_path (es @ [project])"
    using join_abs [OF es(1) p(2,3)] clean_step_plain [OF assms(2)] by (simp add: Dir_def es(2))
  have u: "under volumes project = abs_path (es @ [project])" using under_abs [OF es(1)] es(2) by simp
  have n: "n \<noteq> ''.'' \<Longrightarrow> n \<noteq> ''..'' \<Longrightarrow> plain_elem n" using assms(3,4) by (simp add: plain_elem_def)
  have pp: "project \<noteq> ''..''" using assms(2) by (simp add: plain_elem_def)
  show ?thesis
    unfolding d join_abs [OF p(1) assms(3,4)] u under_abs [OF p(1)]
    using n pp es(2) by (auto simp: clean_step_def plain_elem_def)
qed

lemma check_volume_mounts:
  assumes "check_volume F (Dir volumes project) svc v = Some ([], vols)" and "sourced v"
    and "clean_abs volumes" and "plain_elem project"
  shows "\<exists>vol. vols = [vol] \<and> mounted F volumes project v vol"
proof (cases "mvType v = ''bind''")
  case True
  then have s: "path_is_abs (mvSource v)" using assms(2) by (simp add: sourced_def)
  obtain es where es: "list_all plain_elem es" "path_clean (mvSource v) = abs_path es"
    using path_clean_clean_abs [OF s] clean_abs_iff by blast
  obtain host existing where r: "resolve F (path_clean (mvSource v)) = Some (Inr (host, existing))"
    and v: "vols = [\<lparr>vHost = host, vContainer = mvTarget v, vReadOnly = mvReadOnly v, vMake = (mvBind v = Some True)\<rparr>]"
    and c: "host = existing \<or> mvBind v = Some True \<and> creatable F existing = None"
    using assms(1) True by (auto simp: check_volume_def bind_volume_def add_def Let_def split: option.splits sum.splits if_splits)
  from r have "resolve_from F (abs_path es) [] = Some (Inr (host, existing))" by (simp add: resolve_def es(2))
  then have "longest_existing F es [] host existing" using resolve_from_ends [of es "[]" F] es(1) by auto
  then show ?thesis using es c unfolding v mounted_def bound_def by (auto simp: True)
next
  case False
  then have n: "slash \<notin> set (mvSource v)" using assms(2) by (simp add: sourced_def)
  have v: "mvType v = ''volume''" "mvSource v \<noteq> []"
    "vols = [\<lparr>vHost = path_join [Dir volumes project, mvSource v], vContainer = mvTarget v, vReadOnly = mvReadOnly v, vMake = True\<rparr>]"
    using assms(1) False by (auto simp: check_volume_def add_def split: if_splits)
  show ?thesis using v named_volume [OF assms(3,4) v(2) n] by (simp add: mounted_def named_def)
qed

lemma collect_volumes:
  "collect_opt (check_volume F (Dir volumes project) svc) vs = Some ([], vols) \<Longrightarrow> list_all sourced vs
     \<Longrightarrow> clean_abs volumes \<Longrightarrow> plain_elem project \<Longrightarrow> list_all2 (mounted F volumes project) vs vols"
proof (induction vs arbitrary: vols)
  case (Cons v vs)
  then obtain ys zs where "check_volume F (Dir volumes project) svc v = Some ([], ys)"
    "collect_opt (check_volume F (Dir volumes project) svc) vs = Some ([], zs)" "vols = ys @ zs"
    by (auto split: option.splits)
  then show ?case using check_volume_mounts Cons by fastforce
qed simp

lemma nil_of_elems: "(case nil_of xs of None \<Rightarrow> [] | Some ys \<Rightarrow> ys) = xs"
  by (simp add: nil_of_def)

text \<open>
  C22: What a service mounts. A service that is taken has one mount for each entry of its \<open>volumes\<close>, in their order, at
  the entry's target and read-only as it says. The host path of a bind is the longest part of the source that exists, with its links
  resolved, and the rest behind it; a part that does not exist is made, and only when the entry asks for it and the
  existing part is a directory that can be written. A named volume is made in the project's directory under its
  name, but for the two names that are no directory of their own: \<open>.\<close> is the project's directory itself and \<open>..\<close>
  the directory of the volumes of all projects.
\<close>

theorem volumes_mounted:
  assumes "service F c svc = Some ([], [s])" and "ckVolumes c = Dir volumes project"
    and "clean_abs volumes" and "plain_elem project" and "list_all sourced (scVolumes svc)"
  shows "list_all2 (mounted F volumes project) (scVolumes svc) (case sVolumes s of None \<Rightarrow> [] | Some vols \<Rightarrow> vols)"
proof -
  obtain ps where s: "service_spec F c svc = Some (ps, s)" and ps: "ps = []"
    using assms(1) by (auto simp: service_def add_def split: option.splits prod.splits if_splits)
  obtain volp vols where v: "collect_opt (check_volume F (ckVolumes c) (scName svc)) (scVolumes svc) = Some (volp, vols)"
    and e: "volp = []" "sVolumes s = nil_of vols"
    using s ps by (auto simp: service_spec_def Let_def split: option.splits prod.splits)
  show ?thesis using collect_volumes [OF v [unfolded e assms(2)] assms(5,3,4)] by (simp add: e(2) nil_of_elems)
qed

definition data_volume :: "string \<Rightarrow> service_volume" where
  "data_volume source = \<lparr>mvType = ''volume'', mvSource = source, mvTarget = ''/srv'', mvReadOnly = False, mvBind = None, mvVolume = None\<rparr>"

text \<open>The names \<open>.\<close> and \<open>..\<close>, which compose-go's pattern of a volume name allows, are the project's directory and that of all projects.\<close>

lemma dotted_volumes:
  "check_volume link_fs (Dir ''/volumes'' ''web'') ''app'' (data_volume ''..'')
     = Some ([], [\<lparr>vHost = ''/volumes'', vContainer = ''/srv'', vReadOnly = False, vMake = True\<rparr>])"
  by code_simp

end
