(* ===== verification/ComposeLoad.thy ===== *)
theory ComposeLoad
  imports ComposePaths ValidSpec "HOL-Library.Multiset"
begin

text \<open>
  What \<open>Load\<close> promises: nothing written is ignored, a loaded project is specs that are valid, of the
  project and named once, one for each service, and a refusal says why.
\<close>

section \<open>Lists of results\<close>

lemma collect_opt_Nil:
  "collect_opt f xs = Some ([], ys) \<Longrightarrow> \<exists>g. (\<forall>x \<in> set xs. f x = Some ([], g x)) \<and> ys = concat (map g xs)"
proof (induction xs arbitrary: ys)
  case (Cons x xs)
  then obtain zs zs' where z: "f x = Some ([], zs)" "collect_opt f xs = Some ([], zs')" "ys = zs @ zs'"
    by (auto split: option.splits)
  obtain g where g: "\<forall>x \<in> set xs. f x = Some ([], g x)" "zs' = concat (map g xs)" using Cons.IH [OF z(2)] by blast
  show ?case
  proof (intro exI conjI)
    let ?g = "\<lambda>y. snd (the (f y))"
    show "\<forall>y \<in> set (x # xs). f y = Some ([], ?g y)" using g z by auto
    have "map ?g xs = map g xs" using g(1) by simp
    then have "concat (map ?g xs) = zs'" using g(2) by metis
    then show "ys = concat (map ?g (x # xs))" using z by simp
  qed
qed simp

lemma collect_opt_None: "collect_opt f xs \<noteq> None \<longleftrightarrow> (\<forall>x \<in> set xs. f x \<noteq> None)"
  by (induction xs) (auto split: option.splits)

section \<open>Names of the containers\<close>

text \<open>\<open>holders\<close> is the inverse of \<open>names\<close>.\<close>

definition inverse_maps :: "(string \<times> string) list \<Rightarrow> (string \<times> string) list \<Rightarrow> bool" where
  "inverse_maps holders names \<longleftrightarrow> (\<forall>a n. map_of names a = Some n \<longrightarrow> map_of holders n = Some a)"

lemma name_services_inverse:
  "fst (name_services project svcs holders names) = [] \<Longrightarrow> inverse_maps holders names \<Longrightarrow>
   (\<exists>holders'. inverse_maps holders' (snd (name_services project svcs holders names)))
   \<and> (\<forall>a. (has_key names a \<or> (\<exists>svc. (a, Inr svc) \<in> set svcs)) \<longrightarrow> has_key (snd (name_services project svcs holders names)) a)"
proof (induction project svcs holders names rule: name_services.induct)
  case (3 project name svc svcs holders names)
  let ?n = "if scContainerName svc \<noteq> [] then scContainerName svc else ContainerName project name"
  let ?r = "name_services project svcs (mput ?n name holders) (mput name ?n names)"
  have p: "fst ?r = []" "map_of holders ?n = None" and s: "snd (name_services project ((name, Inr svc) # svcs) holders names) = snd ?r"
    using 3(2) by (auto simp: Let_def add_def split: prod.splits option.splits if_splits)
  have "inverse_maps (mput ?n name holders) (mput name ?n names)"
    using 3(3) p(2) by (auto simp: inverse_maps_def)
  with 3(1) [OF refl refl refl p(1)] show ?case unfolding s by fastforce
qed auto

section \<open>One spec for each service\<close>

lemma service_done:
  assumes "service F c svc = Some ([], ys)"
  shows "\<exists>s. ys = [s] \<and> validate s = None \<and> sProject s = ckProject c \<and> sService s = scName svc
    \<and> sName s = str_at (ckNames c) (scName svc)"
proof -
  obtain ps s where s: "service_spec F c svc = Some (ps, s)" using assms by (auto simp: service_def split: option.splits)
  have "sProject s = ckProject c \<and> sService s = scName svc \<and> sName s = str_at (ckNames c) (scName svc)"
    using s by (auto simp: service_spec_def Let_def split: prod.splits option.splits)
  moreover have "ys = [s] \<and> validate s = None"
    using assms s by (auto simp: service_def add_def split: if_splits option.splits)
  ultimately show ?thesis by blast
qed

text \<open>What the code relies on of compose-go: a project has each service once, under its own name.\<close>

definition named_services :: "lib \<Rightarrow> bool" where
  "named_services L \<longleftrightarrow> (\<forall>project d file loaded. load_project L project d file = Inr loaded \<longrightarrow>
     distinct (map fst loaded) \<and> (\<forall>name svc. (name, Inr svc) \<in> set loaded \<longrightarrow> scName svc = name))"

lemma load_Inr:
  assumes "load L F project file dir volumes = Some (Inr specs)"
  obtains written loaded names svcspecs d where
    "lbYaml L file = Inr written" "raw project written = []" "ValidProject project"
    "d = (if dir = [] then Dir volumes project else dir)" "load_project L project d file = Inr loaded"
    "name_services project (sorted_entries loaded) [] [] = ([], names)"
    "collect_opt (check_service F \<lparr>ckProject = project, ckDir = d, ckVolumes = Dir volumes project, ckNames = names\<rparr>) (sorted_entries loaded)
      = Some ([], svcspecs)" "specs = sort_key sName svcspecs"
  using assms by (auto simp: load_def Let_def split: if_splits sum.splits prod.splits option.splits)

lemma entry_done:
  assumes "check_service F c x = Some ([], ys)"
  shows "\<exists>v y. x = (fst x, Inr v) \<and> ys = [y] \<and> validate y = None \<and> sProject y = ckProject c \<and> sService y = scName v
    \<and> sName y = str_at (ckNames c) (scName v)"
proof -
  obtain name r where x: "x = (name, r)" by fastforce
  obtain v where v: "r = Inr v" using assms unfolding x by (cases r) (auto simp: check_service_def add_def)
  then have "service F c v = Some ([], ys)" using assms x by (simp add: check_service_def)
  from service_done [OF this] show ?thesis unfolding x v by simp
qed

lemma load_each:
  assumes "load L F project file dir volumes = Some (Inr specs)"
  obtains d loaded names s where "load_project L project d file = Inr loaded"
    "name_services project (sorted_entries loaded) [] [] = ([], names)" "specs = sort_key sName (map s (sorted_entries loaded))"
    "\<And>x. x \<in> set (sorted_entries loaded) \<Longrightarrow> \<exists>v. x = (fst x, Inr v) \<and> validate (s x) = None \<and> sProject (s x) = project
       \<and> sService (s x) = scName v \<and> sName (s x) = str_at names (scName v)"
proof -
  obtain loaded names svcspecs d where l: "load_project L project d file = Inr loaded"
    and n: "name_services project (sorted_entries loaded) [] [] = ([], names)"
    and c: "collect_opt (check_service F \<lparr>ckProject = project, ckDir = d, ckVolumes = Dir volumes project, ckNames = names\<rparr>)
      (sorted_entries loaded) = Some ([], svcspecs)" and specs: "specs = sort_key sName svcspecs"
    using load_Inr [OF assms] by metis
  obtain g where g: "\<forall>x \<in> set (sorted_entries loaded).
      check_service F \<lparr>ckProject = project, ckDir = d, ckVolumes = Dir volumes project, ckNames = names\<rparr> x = Some ([], g x)"
    "svcspecs = concat (map g (sorted_entries loaded))" using collect_opt_Nil [OF c] by blast
  have each: "\<exists>v. x = (fst x, Inr v) \<and> g x = [hd (g x)] \<and> validate (hd (g x)) = None \<and> sProject (hd (g x)) = project
      \<and> sService (hd (g x)) = scName v \<and> sName (hd (g x)) = str_at names (scName v)" if "x \<in> set (sorted_entries loaded)" for x
  proof -
    have "check_service F \<lparr>ckProject = project, ckDir = d, ckVolumes = Dir volumes project, ckNames = names\<rparr> x = Some ([], g x)"
      using g(1) that by blast
    from entry_done [OF this] show ?thesis by auto
  qed
  have "map g (sorted_entries loaded) = map (\<lambda>x. [hd (g x)]) (sorted_entries loaded)"
    by (rule map_cong [OF refl]) (use each in blast)
  then have "svcspecs = map (\<lambda>x. hd (g x)) (sorted_entries loaded)" using g(2) by (metis concat_map_singleton)
  with that [OF l n, of "\<lambda>x. hd (g x)"] specs each show thesis by blast
qed

text \<open>Services are named apart.\<close>

lemma names_apart:
  assumes "name_services project svcs [] [] = ([], names)" and "\<And>a. a \<in> A \<Longrightarrow> \<exists>v. (a, Inr v) \<in> set svcs"
  shows "inj_on (str_at names) A"
proof (rule inj_onI)
  have "(\<exists>holders. inverse_maps holders names) \<and> (\<forall>a. (\<exists>svc. (a, Inr svc) \<in> set svcs) \<longrightarrow> has_key names a)"
    using name_services_inverse [of project svcs "[]" "[]", unfolded assms(1)] by (simp add: inverse_maps_def)
  then obtain holders where inv: "inverse_maps holders names" and has: "\<And>a. a \<in> A \<Longrightarrow> has_key names a" using assms(2) by blast
  fix a b
  assume "a \<in> A" "b \<in> A" "str_at names a = str_at names b"
  then obtain k where "map_of names a = Some k" "map_of names b = Some k"
    using has [of a] has [of b] by (auto simp: str_at_def)
  then show "a = b" using inv by (metis inverse_maps_def option.inject)
qed

lemma loaded_valid: "load L F project file dir volumes = Some (Inr specs) \<Longrightarrow> list_all (\<lambda>sp. validate sp = None) specs"
  by (rule load_each) (fastforce simp: list_all_iff)+

text \<open>
  C23: A loaded project is specs that are all valid and of the project, one for each service, sorted by
  name, and no two containers have one name. This is what declaring a project relies on.
\<close>

theorem load_specs:
  assumes "load L F project file dir volumes = Some (Inr specs)" and "named_services L"
  shows "list_all (\<lambda>s. validate s = None \<and> sProject s = project) specs
    \<and> sorted (map sName specs) \<and> distinct (map sName specs)
    \<and> (\<exists>d loaded. load_project L project d file = Inr loaded \<and> mset (map sService specs) = mset (map fst loaded))"
proof -
  obtain d loaded names s where l: "load_project L project d file = Inr loaded"
    and n: "name_services project (sorted_entries loaded) [] [] = ([], names)" and specs: "specs = sort_key sName (map s (sorted_entries loaded))"
    and each: "\<And>x. x \<in> set (sorted_entries loaded) \<Longrightarrow> \<exists>v. x = (fst x, Inr v) \<and> validate (s x) = None \<and> sProject (s x) = project
       \<and> sService (s x) = scName v \<and> sName (s x) = str_at names (scName v)"
    by (rule load_each [OF assms(1)]) blast
  have keys: "distinct (map fst loaded)" and svc: "\<And>name svc. (name, Inr svc) \<in> set loaded \<Longrightarrow> scName svc = name"
    using assms(2) l unfolding named_services_def by blast+
  have one: "(\<exists>v. (fst x, Inr v) \<in> set (sorted_entries loaded)) \<and> sService (s x) = fst x \<and> sName (s x) = str_at names (fst x)"
    if x: "x \<in> set (sorted_entries loaded)" for x
  proof -
    obtain v where v: "x = (fst x, Inr v)" "sService (s x) = scName v" "sName (s x) = str_at names (scName v)" using each [OF x] by blast
    then have i: "(fst x, Inr v) \<in> set (sorted_entries loaded)" using x by metis
    then have "scName v = fst x" using svc [of "fst x" v] set_sorted_entries [of "fst x" "Inr v" loaded] by simp
    then show ?thesis using exI [of "\<lambda>v. (fst x, Inr v) \<in> set (sorted_entries loaded)", OF i] v(2,3) by simp
  qed
  have srv: "map sService (map s (sorted_entries loaded)) = sorted_keys loaded"
    and nam: "map sName (map s (sorted_entries loaded)) = map (str_at names) (sorted_keys loaded)"
    unfolding fst_sorted_entries [symmetric] map_map by (rule map_cong [OF refl], simp add: one)+
  have "\<exists>v. (a, Inr v) \<in> set (sorted_entries loaded)" if "a \<in> set (sorted_keys loaded)" for a
    using that one unfolding fst_sorted_entries [symmetric] by fastforce
  then have "inj_on (str_at names) (set (sorted_keys loaded))" by (rule names_apart [OF n])
  then have "distinct (map sName (map s (sorted_entries loaded)))" unfolding nam using keys by (simp add: distinct_map)
  moreover have "mset (map sName specs) = mset (map sName (map s (sorted_entries loaded)))" by (simp add: specs multiset.map_comp)
  ultimately have d: "distinct (map sName specs)" using mset_eq_imp_distinct_iff by blast
  have "mset (map sService specs) = mset (map sService (map s (sorted_entries loaded)))" by (simp add: specs multiset.map_comp)
  then have "mset (map sService specs) = mset (map fst loaded)" unfolding srv by (simp add: sorted_keys_def)
  moreover have "list_all (\<lambda>s. validate s = None \<and> sProject s = project) specs"
    using each by (fastforce simp: specs list_all_iff)
  moreover have "sorted (map sName specs)" by (simp add: specs)
  ultimately show ?thesis using d l by blast
qed

section \<open>Nothing is ignored\<close>

definition known :: "string list \<Rightarrow> (string \<times> yaml) list \<Rightarrow> bool" where
  "known allowed m \<longleftrightarrow> (\<forall>k. has_key m k \<longrightarrow> k \<in> set allowed \<or> has_prefix k ''x-'')"

lemma only_Nil: "only s p m allowed = [] \<longleftrightarrow> known allowed m"
proof -
  have "only s p m allowed = [] \<longleftrightarrow> (\<forall>k \<in> set (sorted_keys m). k \<in> set allowed \<or> has_prefix k ''x-'')"
    by (auto simp: only_def add_def Let_def)
  then show ?thesis by (auto simp: known_def map_of_eq_None_iff)
qed

text \<open>The elements of a list and the entries of a map, when the value is one.\<close>

fun items :: "yaml \<Rightarrow> yaml set" where
  "items (YSeq xs) = set xs"
| "items _ = {}"

fun entries :: "yaml \<Rightarrow> (string \<times> yaml) set" where
  "entries (YMap m) = set m"
| "entries _ = {}"

text \<open>The path a volume or an \<open>env_file\<close> entry names: the value of its key, or its own text, up to the colon for a volume.\<close>

definition no_home :: "string \<Rightarrow> bool" where
  "no_home p \<longleftrightarrow> \<not> has_prefix p ''~''"

definition supported_service :: "(string \<times> yaml) list \<Rightarrow> bool" where
  "supported_service svc \<longleftrightarrow>
     known serviceKeys svc
   \<and> (\<forall>m. YMap m \<in> items (at_key svc ''ports'') \<longrightarrow> known portKeys m \<and> (has_key m ''mode'' \<longrightarrow> at_key m ''mode'' = YStr ''ingress''))
   \<and> (\<forall>m. YMap m \<in> items (at_key svc ''volumes'') \<longrightarrow> known volumeKeys m \<and> no_home (str_or_empty (at_key m ''source'')))
   \<and> (\<forall>t. YStr t \<in> items (at_key svc ''volumes'') \<longrightarrow> no_home (fst (cut CHR '':'' t)))
   \<and> (\<forall>m. YMap m \<in> items (at_key svc ''env_file'') \<longrightarrow> known envFileKeys m \<and> no_home (str_or_empty (at_key m ''path'')))
   \<and> (\<forall>t. at_key svc ''env_file'' = YStr t \<or> YStr t \<in> items (at_key svc ''env_file'') \<longrightarrow> no_home t)
   \<and> (\<forall>m. YMap m \<in> items (at_key svc ''devices'') \<longrightarrow> known deviceKeys m)
   \<and> (\<forall>d m. (d, YMap m) \<in> entries (at_key svc ''depends_on'') \<longrightarrow> known dependsKeys m)
   \<and> (\<forall>m. at_key svc ''healthcheck'' = YMap m \<longrightarrow> known healthKeys m)
   \<and> (\<forall>m. at_key svc ''deploy'' = YMap m \<longrightarrow> known deployKeys m
        \<and> (\<forall>r. at_key m ''resources'' = YMap r \<longrightarrow> known resourcesKeys r
             \<and> (\<forall>l. at_key r ''limits'' = YMap l \<longrightarrow> known limitsKeys l)))
   \<and> (has_key svc ''network_mode'' \<longrightarrow> at_key svc ''networks'' = YNull)
   \<and> items (at_key svc ''networks'') \<subseteq> {YStr ''default''}
   \<and> (\<forall>(n, v) \<in> entries (at_key svc ''networks''). n = ''default'' \<and> entries v = {})"

definition supported :: "string \<Rightarrow> (string \<times> yaml) list \<Rightarrow> bool" where
  "supported project file \<longleftrightarrow>
     known topKeys file
   \<and> (has_key file ''name'' \<longrightarrow> at_key file ''name'' = YStr project)
   \<and> (\<forall>(n, v) \<in> entries (at_key file ''networks''). n = ''default'' \<and> entries v = {})
   \<and> (\<forall>n m. (n, YMap m) \<in> entries (at_key file ''volumes'') \<longrightarrow> known [] m)
   \<and> entries (at_key file ''services'') \<noteq> {}
   \<and> (\<forall>(n, v) \<in> entries (at_key file ''services''). matches serviceRE n \<and> (\<forall>svc. v = YMap svc \<longrightarrow> supported_service svc))"

lemma when_map_Nil: "when_map v f = [] \<longleftrightarrow> (\<forall>m. v = YMap m \<longrightarrow> f m = [])"
  by (cases v) (simp_all add: when_map_def)

lemma for_each_Nil: "for_each v f = [] \<longleftrightarrow> (\<forall>x \<in> items v. f x = [])"
  by (cases v) simp_all

lemma has_options_iff: "has_options v \<longleftrightarrow> entries v \<noteq> {}"
  by (cases v) (simp_all add: has_options_def)

lemma add_not_Nil [simp]: "add s f d \<noteq> []"
  by (simp add: add_def)

lemma concat_map_Nil: "concat (map f xs) = [] \<longleftrightarrow> (\<forall>x \<in> set xs. f x = [])"
  by auto

lemma raw_port_Nil: "raw_port name p = [] \<longleftrightarrow> (\<forall>m. p = YMap m \<longrightarrow> known portKeys m \<and> (has_key m ''mode'' \<longrightarrow> at_key m ''mode'' = YStr ''ingress''))"
proof (cases p)
  case (YMap m)
  then show ?thesis by (cases "map_of m ''mode''") (auto simp: raw_port_def when_map_def only_Nil at_key_def)
qed (auto simp: raw_port_def when_map_def)

lemma raw_volume_Nil: "raw_volume name v = [] \<longleftrightarrow>
   (\<forall>m. v = YMap m \<longrightarrow> known volumeKeys m \<and> no_home (str_or_empty (at_key m ''source'')))
   \<and> (\<forall>t. v = YStr t \<longrightarrow> no_home (fst (cut CHR '':'' t)))"
  by (cases v) (auto simp: raw_volume_def only_Nil no_home_def cut_def)

lemma raw_env_file_Nil: "raw_env_file name v = [] \<longleftrightarrow>
   (\<forall>m. v = YMap m \<longrightarrow> known envFileKeys m \<and> no_home (str_or_empty (at_key m ''path''))) \<and> (\<forall>t. v = YStr t \<longrightarrow> no_home t)"
  by (cases v) (auto simp: raw_env_file_def only_Nil no_home_def)

lemma env_files_Nil: "(\<forall>x \<in> set (env_files v). raw_env_file name x = []) \<longleftrightarrow>
   (\<forall>m. YMap m \<in> items v \<longrightarrow> known envFileKeys m \<and> no_home (str_or_empty (at_key m ''path'')))
   \<and> (\<forall>t. v = YStr t \<or> YStr t \<in> items v \<longrightarrow> no_home t)"
  by (cases v) (auto simp: raw_env_file_Nil)

lemma raw_networks_Nil: "raw_networks name v = [] \<longleftrightarrow>
   items v \<subseteq> {YStr ''default''} \<and> (\<forall>(n, x) \<in> entries v. n = ''default'' \<and> entries x = {})"
  by (cases v) (auto simp: has_options_iff concat_map_Nil simp del: concat_eq_Nil_conv split: if_splits prod.splits)

lemma entries_Nil: "when_map v (\<lambda>ms. concat (map (\<lambda>(k, w). when_map w (f k)) ms)) = [] \<longleftrightarrow> (\<forall>k m. (k, YMap m) \<in> entries v \<longrightarrow> f k m = [])"
proof (cases v)
  case (YMap ms)
  then show ?thesis unfolding when_map_def [of v] by (fastforce simp: concat_map_Nil when_map_Nil simp del: concat_eq_Nil_conv)
qed (auto simp: when_map_def)

lemma raw_deploy_Nil: "raw_deploy name d = [] \<longleftrightarrow> known deployKeys d
     \<and> (\<forall>r. at_key d ''resources'' = YMap r \<longrightarrow> known resourcesKeys r \<and> (\<forall>l. at_key r ''limits'' = YMap l \<longrightarrow> known limitsKeys l))"
  unfolding raw_deploy_def append_is_Nil_conv only_Nil when_map_Nil by (rule refl)

lemma if_add_Nil: "(if c then add s f d else []) = [] \<longleftrightarrow> \<not> c"
  by simp

lemma each_map_Nil: "(\<forall>x \<in> S. \<forall>m. x = YMap m \<longrightarrow> P m) \<longleftrightarrow> (\<forall>m. YMap m \<in> S \<longrightarrow> P m)"
  by blast

lemma each_str_Nil: "(\<forall>x \<in> S. Q x \<and> (\<forall>t. x = YStr t \<longrightarrow> P t)) \<longleftrightarrow> (\<forall>x \<in> S. Q x) \<and> (\<forall>t. YStr t \<in> S \<longrightarrow> P t)"
  by blast

lemma rawService_Nil: "only name [] svc serviceKeys @ rawService name svc = [] \<longleftrightarrow> supported_service svc"
  unfolding rawService_def append_is_Nil_conv only_Nil for_each_Nil entries_Nil raw_port_Nil raw_volume_Nil
    concat_map_Nil raw_networks_Nil supported_service_def env_files_Nil when_map_Nil raw_deploy_Nil if_add_Nil
    each_str_Nil each_map_Nil
  unfolding de_Morgan_conj not_not imp_conv_disj conj_assoc ..

text \<open>
  C24: What is written is supported, or refused: \<open>raw\<close> adds no problem exactly when every key at every
  level the checker knows is one it reads or an extension, and every value it looks at is one it carries out.
\<close>

theorem raw_supported: "raw project file = [] \<longleftrightarrow> supported project file"
proof -
  have e: "raw_entry (n, v) = [] \<longleftrightarrow> matches serviceRE n \<and> (\<forall>svc. v = YMap svc \<longrightarrow> supported_service svc)" for n v
    using rawService_Nil [of n] by (auto simp: raw_entry_def when_map_Nil)
  have services: "(case mapOf v of None \<Rightarrow> add [] ''services'' NoService
        | Some services \<Rightarrow> if services = [] then add [] ''services'' NoService else concat (map raw_entry services)) = []
      \<longleftrightarrow> entries v \<noteq> {} \<and> (\<forall>(n, v) \<in> entries v. matches serviceRE n \<and> (\<forall>svc. v = YMap svc \<longrightarrow> supported_service svc))" for v
    using e by (cases v) auto
  show ?thesis
    unfolding raw_def append_is_Nil_conv only_Nil services entries_Nil supported_def
    by (cases "at_key file ''networks''")
       (auto simp: at_key_def has_options_iff when_map_def concat_map_Nil simp del: concat_eq_Nil_conv split: option.splits if_splits prod.splits)
qed

section \<open>Refusals\<close>

text \<open>The ways \<open>load\<close> answers.\<close>

lemma load_answers:
  assumes "\<And>ps. ps \<noteq> [] \<Longrightarrow> P (Some (Inl (err ps)))" and "\<And>specs. P (Some (Inr specs))"
    and "\<And>c d loaded. load_project L project d file = Inr loaded \<Longrightarrow> collect_opt (check_service F c) (sorted_entries loaded) = None \<Longrightarrow> P None"
  shows "P (load L F project file dir volumes)"
proof -
  define d where "d = (if dir = [] then Dir volumes project else dir)"
  define bad where "bad \<longleftrightarrow> \<not> path_is_abs d \<or> path_clean d \<noteq> d"
  have l: "load L F project file dir volumes =
     (if \<not> ValidProject project then Some (Inl (err (add [] ''name'' (ProjectName project))))
      else if bad then Some (Inl (err (add [] ''projectDir'' (ProjectDir d))))
      else case lbYaml L file of Inl e \<Rightarrow> Some (Inl (err (add [] ''yaml'' (YamlError e))))
      | Inr written \<Rightarrow> if raw project written \<noteq> [] then Some (Inl (err (raw project written)))
      else case load_project L project d file of Inl e \<Rightarrow> Some (Inl (err (add [] ''compose'' (ComposeError e))))
      | Inr loaded \<Rightarrow> (case name_services project (sorted_entries loaded) [] [] of (namep, names) \<Rightarrow>
         case collect_opt (check_service F \<lparr>ckProject = project, ckDir = d, ckVolumes = Dir volumes project, ckNames = names\<rparr>)
           (sorted_entries loaded) of None \<Rightarrow> None
         | Some (svcp, specs) \<Rightarrow> Some (if namep @ svcp \<noteq> [] then Inl (err (namep @ svcp)) else Inr (sort_key sName specs))))"
    unfolding load_def Let_def d_def bad_def ..
  show ?thesis
  proof (cases "ValidProject project \<and> \<not> bad")
    case False
    then show ?thesis unfolding l using assms(1) [OF add_not_Nil] by (cases "ValidProject project") simp_all
  next
    case True
    then have v: "(\<not> ValidProject project) = False" "bad = False" by simp_all
    show ?thesis
    proof (cases "lbYaml L file")
      case (Inr written)
      show ?thesis
      proof (cases "raw project written = []")
        case raw: True
        show ?thesis
        proof (cases "load_project L project d file")
          case l': (Inr loaded)
          let ?n = "name_services project (sorted_entries loaded) [] []"
          let ?c = "\<lparr>ckProject = project, ckDir = d, ckVolumes = Dir volumes project, ckNames = snd ?n\<rparr>"
          have l2: "load L F project file dir volumes = (case collect_opt (check_service F ?c) (sorted_entries loaded) of None \<Rightarrow> None
             | Some (svcp, specs) \<Rightarrow> Some (if fst ?n @ svcp \<noteq> [] then Inl (err (fst ?n @ svcp)) else Inr (sort_key sName specs)))"
            unfolding l v Inr raw l' by (simp add: raw split_beta cong: if_cong)
          show ?thesis
          proof (cases "collect_opt (check_service F ?c) (sorted_entries loaded)")
            case None
            then show ?thesis unfolding l2 using assms(3) [OF l' None] by simp
          next
            case (Some r)
            then show ?thesis unfolding l2 using assms(1) [of "fst ?n @ fst r"] assms(2) by (cases r) simp
          qed
        qed (use True assms(1) [OF add_not_Nil] in \<open>simp add: l v Inr raw\<close>)
      qed (use assms(1) in \<open>simp add: l v Inr\<close>)
    qed (use assms(1) [OF add_not_Nil] in \<open>simp add: l v\<close>)
  qed
qed

text \<open>
  A refused file comes with its reasons: there is at least one problem, and they are in the order of the services.
\<close>

theorem refusal_has_problems:
  assumes "load L F project file dir volumes = Some (Inl ps)"
  shows "ps \<noteq> [] \<and> sorted (map pbService ps)"
proof -
  have e: "err qs \<noteq> [] \<and> sorted (map pbService (err qs))" if "qs \<noteq> []" for qs
  proof
    have "set (err qs) = set qs" by (simp add: err_def)
    then show "err qs \<noteq> []" using that by (metis set_empty)
    show "sorted (map pbService (err qs))" by (simp add: err_def)
  qed
  have "load L F project file dir volumes = Some (Inl ps) \<longrightarrow> ps \<noteq> [] \<and> sorted (map pbService ps)"
    by (rule load_answers [where P = "\<lambda>r. r = Some (Inl ps) \<longrightarrow> ps \<noteq> [] \<and> sorted (map pbService ps)"]) (use e in auto)
  then show ?thesis using assms by blast
qed

lemma refusal_has_problems_witness:
  "\<exists>ps. load \<lparr>lbYaml = (\<lambda>_. Inl ''bad''), lbApplied = (\<lambda>s. Inr (s, False)), lbSubstitute = (\<lambda>r. r), lbLoad = (\<lambda>_ _ _ _. Inr [])\<rparr> link_fs ''..'' ''x'' [] ''/v'' = Some (Inl ps) \<and> ps \<noteq> []"
proof -
  have "\<not> ValidProject ''..''" by code_simp
  then have "load \<lparr>lbYaml = (\<lambda>_. Inl ''bad''), lbApplied = (\<lambda>s. Inr (s, False)), lbSubstitute = (\<lambda>r. r), lbLoad = (\<lambda>_ _ _ _. Inr [])\<rparr> link_fs ''..'' ''x'' [] ''/v''
      = Some (Inl (add [] ''name'' (ProjectName ''..'')))"
    by (simp add: load_def err_def add_def)
  from this refusal_has_problems [OF this] show ?thesis by blast
qed

section \<open>Load ends\<close>

lemma check_volume_ends: "mvType v = ''bind'' \<longrightarrow> path_is_abs (mvSource v) \<Longrightarrow> check_volume F volumes svc v \<noteq> None"
proof -
  assume a: "mvType v = ''bind'' \<longrightarrow> path_is_abs (mvSource v)"
  have "\<exists>r. resolve F (path_clean (mvSource v)) = Some r" if abs: "path_is_abs (mvSource v)"
  proof -
    obtain es where es: "list_all plain_elem es" "path_clean (mvSource v) = abs_path es"
      using path_clean_clean_abs [OF abs] clean_abs_iff by blast
    then show ?thesis using resolve_from_ends [of es "[]" F] by (auto simp: resolve_def)
  qed
  then show ?thesis using a
    by (auto simp: check_volume_def bind_volume_def split: sum.splits option.splits)
qed

lemma service_ends:
  assumes "list_all (\<lambda>v. mvType v = ''bind'' \<longrightarrow> path_is_abs (mvSource v)) (scVolumes svc)"
  shows "service F c svc \<noteq> None"
proof -
  have "collect_opt (check_volume F (ckVolumes c) (scName svc)) (scVolumes svc) \<noteq> None"
    unfolding collect_opt_None using assms check_volume_ends by (simp add: list_all_iff)
  then show ?thesis
    by (auto simp: service_def service_spec_def Let_def split: option.splits prod.splits)
qed

text \<open>
  What \<open>ResolvePaths\<close> promises of compose-go: a bind mount is of an absolute path.
\<close>

definition absolute_binds :: "(string + service_config) \<Rightarrow> bool" where
  "absolute_binds r = (case r of Inl e \<Rightarrow> True
     | Inr svc \<Rightarrow> list_all (\<lambda>v. mvType v = ''bind'' \<longrightarrow> path_is_abs (mvSource v)) (scVolumes svc))"

text \<open>
  C26: \<open>Load\<close> ends for every file and every state of the file system, when compose-go gives bind
  mounts an absolute source: the checker's one loop without a bound in its text is that of \<open>resolve\<close>.
\<close>

theorem load_ends:
  assumes "\<And>d loaded. load_project L project d file = Inr loaded \<Longrightarrow> list_all (absolute_binds \<circ> snd) loaded"
  shows "\<exists>r. load L F project file dir volumes = Some r"
proof -
  have "collect_opt (check_service F c) (sorted_entries loaded) \<noteq> None" if l: "load_project L project d file = Inr loaded" for c d loaded
    unfolding collect_opt_None
  proof
    fix x
    assume x: "x \<in> set (sorted_entries loaded)"
    obtain name r where r: "x = (name, r)" by fastforce
    then have "(name, r) \<in> set loaded" using x set_sorted_entries by simp
    then have "absolute_binds r" using assms [OF l] by (force simp: list_all_iff)
    then show "check_service F c x \<noteq> None"
      using service_ends by (cases r) (simp_all add: r check_service_def absolute_binds_def)
  qed
  then have "load L F project file dir volumes \<noteq> None"
    by (intro load_answers [where P = "\<lambda>r. r \<noteq> None"]) (rule option.simps, rule option.simps, blast)
  then show ?thesis by blast
qed

section \<open>A file with one service\<close>

definition one_service :: service_config where
  "one_service = \<lparr>scName = ''app'', scContainerName = [], scImage = ''localhost/app'', scEntrypoint = [], scCommand = None,
     scUser = [], scWorkingDir = [], scNetworkMode = [], scCapAdd = [], scCapDrop = [], scEnvironment = [], scPorts = [],
     scVolumes = [data_volume ''data''], scDevices = [], scDeviceCgroupRules = [], scRestart = ''always'', scDependsOn = [],
     scHealthCheck = None, scMemLimit = 2 ^ 29, scCPUS = 1 / 2, scPidsLimit = 0, scDeploy = None\<rparr>"

definition one_lib :: lib where
  "one_lib = \<lparr>lbYaml = (\<lambda>_. Inr [(''services'', YMap [(''app'', YMap [])])]), lbApplied = (\<lambda>s. Inr (s, False)), lbSubstitute = (\<lambda>r. r), lbLoad = (\<lambda>_ _ _ _. Inr [(''app'', Inr one_service)])\<rparr>"

definition one_spec :: spec where
  "one_spec = \<lparr>sName = ''web-app-1'', sProject = ''web'', sService = ''app'', sImage = ''localhost/app'', sEntrypoint = [], sUser = [],
     sWorkingDir = [], sCommand = None, sEnvironment = None, sPublish = [],
     sVolumes = Some [\<lparr>vHost = ''/volumes/web/data'', vContainer = ''/srv'', vReadOnly = False, vMake = True\<rparr>],
     sNetwork = ''web_default'', sAliases = [''app''], sNetworkMode = [], sCapAdd = [], sCapDrop = [], sDevices = [],
     sDeviceCgroupRules = [], sLimits = \<lparr>lPids = 0, lMemory = ''512m'', lCPU = ''0.5''\<rparr>,
     sRestart = \<lparr>rPolicy = PolicyAlways, rMaxRestarts = 0\<rparr>, sHealth = None, sDependsOn = []\<rparr>"

lemma one_service_spec:
  "service_spec link_fs \<lparr>ckProject = ''web'', ckDir = d, ckVolumes = Dir ''/volumes'' ''web'', ckNames = [(''app'', ''web-app-1'')]\<rparr> one_service
   = Some ([], one_spec)"
  by code_simp

lemma one_spec_valid: "validate one_spec = None"
proof -
  have "clean_abs ''/volumes/web/data''" "clean_abs ''/srv''" by code_simp+
  moreover have "cpu_number ''0.5''"
    unfolding cpu_number_def by (intro disjI2 exI [of _ "''0''"] exI [of _ "''5''"]) code_simp
  moreover have "decimal ''512''" by code_simp
  ultimately show ?thesis
  unfolding validate_valid_spec
  by (simp add: valid_spec_def one_spec_def container_name_def image_ref_def no_nul_def valid_network_def
        env_key_def valid_publish_def plain_path_def valid_device_def permissions_def
        valid_limits_def valid_health_def or_default_def valid_depends_on_def byte_in_def spec_consts memory_size_def)
qed

text \<open>A service with a named volume and a bind, whose source goes through the link \<open>/data\<close> and does not exist yet.\<close>

definition mount_service :: service_config where
  "mount_service = one_service\<lparr>scVolumes := [data_volume ''data'', \<lparr>mvType = ''bind'', mvSource = ''/data/cfg'', mvTarget = ''/etc/app'',
     mvReadOnly = True, mvBind = Some True, mvVolume = None\<rparr>]\<rparr>"

definition mount_spec :: spec where
  "mount_spec = one_spec\<lparr>sVolumes := Some [\<lparr>vHost = ''/volumes/web/data'', vContainer = ''/srv'', vReadOnly = False, vMake = True\<rparr>,
     \<lparr>vHost = ''/mnt/disk/cfg'', vContainer = ''/etc/app'', vReadOnly = True, vMake = True\<rparr>]\<rparr>"

lemma volumes_mounted_witness:
  "list_all2 (mounted link_fs ''/volumes'' ''web'') (scVolumes mount_service)
     [\<lparr>vHost = ''/volumes/web/data'', vContainer = ''/srv'', vReadOnly = False, vMake = True\<rparr>,
      \<lparr>vHost = ''/mnt/disk/cfg'', vContainer = ''/etc/app'', vReadOnly = True, vMake = True\<rparr>]"
proof -
  let ?c = "\<lparr>ckProject = ''web'', ckDir = ''/volumes/web'', ckVolumes = Dir ''/volumes'' ''web'', ckNames = [(''app'', ''web-app-1'')]\<rparr>"
  have s: "service_spec link_fs ?c mount_service = Some ([], mount_spec)" by code_simp
  have c: "clean_abs ''/volumes/web/data''" "clean_abs ''/srv''" "clean_abs ''/mnt/disk/cfg''" "clean_abs ''/etc/app''" by code_simp+
  have "valid_spec one_spec" using one_spec_valid validate_valid_spec by blast
  then have "valid_spec mount_spec" using c
    by (simp add: valid_spec_def mount_spec_def one_spec_def plain_path_def or_default_def no_nul_def valid_network_def)
  then have "validate mount_spec = None" using validate_valid_spec by blast
  then have t: "service link_fs ?c mount_service = Some ([], [mount_spec])" by (simp add: service_def s)
  have "clean_abs ''/volumes''" "plain_elem ''web''" "list_all sourced (scVolumes mount_service)" by code_simp+
  from volumes_mounted [OF t _ this] show ?thesis by (simp add: mount_spec_def)
qed

lemma one_load: "load one_lib link_fs ''web'' file [] ''/volumes'' = Some (Inr [one_spec])"
proof -
  have re: "ValidProject ''web''" "matches serviceRE ''app''"
    by (simp_all add: ValidProject_def projectRE_def serviceRE_def matches_head_UpTo byte_in_def)
  have c: "path_is_abs ''/volumes/web''" "path_clean ''/volumes/web'' = ''/volumes/web''" "Dir ''/volumes'' ''web'' = ''/volumes/web''"
    "only [] [] [(''services'', YMap [(''app'', YMap [])])] topKeys = []" "only ''app'' [] [] serviceKeys = []" "rawService ''app'' [] = []"
    "only [] [] [(''services'', YMap [])] topKeys = []"
    "sorted_entries [(''app'', Inr one_service)] = [(''app'', Inr one_service :: string + service_config)]"
    "name_services ''web'' [(''app'', Inr one_service)] [] [] = ([], [(''app'', ''web-app-1'')])"
    by code_simp+
  have s: "service link_fs \<lparr>ckProject = ''web'', ckDir = ''/volumes/web'', ckVolumes = ''/volumes/web'', ckNames = [(''app'', ''web-app-1'')]\<rparr>
      one_service = Some ([], [one_spec])"
    using one_service_spec [of "''/volumes/web''"] one_spec_valid by (simp add: service_def c)
  have r: "raw ''web'' [(''services'', YMap [(''app'', YMap [])])] = []"
    using re c by (simp add: raw_def raw_entry_def at_key_def when_map_def)
  show ?thesis
    by (simp add: load_def one_lib_def load_project_def re r c s check_service_def Let_def del: name_services.simps)
qed

lemma load_specs_witness: "distinct (map sName [one_spec]) \<and> validate one_spec = None"
proof -
  have "named_services one_lib" by (simp add: named_services_def one_lib_def load_project_def one_service_def)
  from load_specs [OF one_load this] show ?thesis by simp
qed

lemma load_ends_witness: "\<exists>r. load one_lib link_fs ''web'' ''services: {}'' [] ''/volumes'' = Some r"
proof (rule load_ends)
  fix d loaded
  assume "load_project one_lib ''web'' d ''services: {}'' = Inr loaded"
  then show "list_all (absolute_binds \<circ> snd) loaded"
    by (auto simp: one_lib_def load_project_def absolute_binds_def one_service_def data_volume_def)
qed

end
