(* ===== verification/ComposeNumbers.thy ===== *)
theory ComposeNumbers
  imports ComposeLoad
begin

text \<open>
  The numbers the checker writes: the limits of a service as podman reads them.
\<close>

section \<open>Reading the text of a limit\<close>

text \<open>A memory limit is a number and its unit; a number of CPUs has at most one point.\<close>

definition unit_bytes :: "char \<Rightarrow> nat" where
  "unit_bytes u = (if u = CHR ''g'' then 2 ^ 30 else if u = CHR ''m'' then 2 ^ 20 else if u = CHR ''k'' then 2 ^ 10 else 1)"

definition memory_bytes :: "string \<Rightarrow> nat" where
  "memory_bytes m = read_nat (butlast m) * unit_bytes (last m)"

definition cpu_value :: "string \<Rightarrow> rat" where
  "cpu_value s = (let i = takeWhile (\<lambda>c. c \<noteq> CHR ''.'') s; f = drop (Suc (length i)) s in
     of_nat (read_nat i) + of_nat (read_nat f) / 10 ^ length f)"

lemma memory_bytes_show: "memory_bytes (show_nat n @ [u]) = n * unit_bytes u"
  by (simp add: memory_bytes_def read_show_nat)

section \<open>Thousandths\<close>

lemma thousandths_near: "\<bar>of_int (thousandths q) / 1000 - q\<bar> \<le> 1 / 2000"
proof -
  define n where "n = \<lfloor>q * 1000\<rfloor>"
  define r where "r = q * 1000 - of_int n"
  have r: "0 \<le> r" "r < 1" "q = (of_int n + r) / 1000"
    unfolding r_def n_def by (linarith, linarith, simp)
  have t: "thousandths q = (if r > 1 / 2 \<or> r = 1 / 2 \<and> odd n then n + 1 else n)"
    by (simp add: thousandths_def n_def r_def Let_def)
  show ?thesis unfolding t unfolding r(3) using r(1,2) by (auto simp: field_simps abs_if)
qed

lemma thousandths_nonneg: "0 \<le> q \<Longrightarrow> 0 \<le> thousandths q"
  by (simp add: thousandths_def Let_def)

lemma read_nat_append: "read_nat (s @ t) = read_nat s * 10 ^ length t + read_nat t"
proof (induction t rule: rev_induct)
  case (snoc c t)
  then show ?case by (simp add: read_nat_def algebra_simps flip: append_assoc)
qed (simp add: read_nat_def)

lemma read_nat_zeros: "read_nat (replicate k CHR ''0'') = 0"
  by (induction k) (simp_all add: read_nat_def digit_val_def)

lemma trim_right_split: "\<exists>k. s = trim_right c s @ replicate k c"
proof
  let ?n = "length (takeWhile (\<lambda>x. x = c) (rev s))"
  have "rev s = takeWhile (\<lambda>x. x = c) (rev s) @ dropWhile (\<lambda>x. x = c) (rev s)" by simp
  then have "s = trim_right c s @ rev (takeWhile (\<lambda>x. x = c) (rev s))"
    unfolding trim_right_def rev_append [symmetric] by simp
  moreover have "takeWhile (\<lambda>x. x = c) (rev s) = replicate ?n c"
    by (rule replicate_eqI) (auto dest: set_takeWhileD)
  ultimately show "s = trim_right c s @ replicate ?n c" by (metis rev_replicate)
qed

lemma trim_right_after: "d \<noteq> c \<Longrightarrow> trim_right c (s @ d # t) = s @ d # trim_right c t"
  unfolding trim_right_def by (simp add: dropWhile_append)

lemma trim_right_last: "trim_right c (s @ [d]) = (if d = c then trim_right c s else s @ [d])"
  by (simp add: trim_right_def)

lemma pad3_digits: "n < 1000 \<Longrightarrow> c \<in> set (pad3 n) \<Longrightarrow> is_digit c"
  by (auto simp: pad3_def)

lemma read_pad3: "n < 1000 \<Longrightarrow> read_nat (pad3 n) = n"
proof -
  assume n: "n < 1000"
  have "100 * (n div 100) + 10 * (n div 10 mod 10) + n mod 10 = n"
  proof -
    have "n div 100 = n div 10 div 10" by (simp flip: div_mult2_eq)
    then show ?thesis using mult_div_mod_eq [of 10 "n div 10"] mult_div_mod_eq [of 10 n] by linarith
  qed
  then show ?thesis using n by (simp add: pad3_def read_nat_def)
qed

text \<open>What \<open>FormatFloat\<close> writes is that many thousandths, whichever zeros are trimmed.\<close>

lemma cpu_value_format:
  assumes "0 \<le> q"
  shows "cpu_value (format_cpus q) = of_int (thousandths q) / 1000"
proof -
  define n where "n = nat (thousandths q)"
  define i where "i = show_nat (n div 1000)"
  obtain k where k: "pad3 (n mod 1000) = trim_right CHR ''0'' (pad3 (n mod 1000)) @ replicate k CHR ''0''"
    using trim_right_split by blast
  define f where "f = trim_right CHR ''0'' (pad3 (n mod 1000))"
  have dot: "CHR ''.'' \<notin> set i" unfolding i_def by (rule show_nat_not_in) (simp add: is_digit_def)
  have "length (f @ replicate k CHR ''0'') = 3" unfolding f_def k [symmetric] by (simp add: pad3_def)
  then have len: "(10::rat) ^ length f * 10 ^ k = 1000" by (simp flip: power_add)
  have "read_nat (f @ replicate k CHR ''0'') = n mod 1000" unfolding f_def k [symmetric] by (simp add: read_pad3)
  then have frac: "read_nat f * 10 ^ k = n mod 1000" by (simp add: read_nat_append read_nat_zeros)
  have "of_nat (n mod 1000) / (1000::rat) = of_nat (read_nat f) / 10 ^ length f"
    unfolding frac [symmetric] len [symmetric] by simp
  moreover have "(of_nat n :: rat) = of_nat (n div 1000 * 1000 + n mod 1000)" by simp
  then have "(of_nat n :: rat) = of_nat (n div 1000) * 1000 + of_nat (n mod 1000)"
    by (simp only: of_nat_add of_nat_mult of_nat_numeral)
  ultimately have val: "of_nat (n div 1000) + of_nat (read_nat f) / 10 ^ length f = (of_nat n / 1000 :: rat)"
    by simp
  have "format_cpus q = trim_right CHR ''.'' (i @ CHR ''.'' # f)"
    by (simp add: format_cpus_def Let_def n_def i_def f_def trim_right_after)
  moreover have "trim_right CHR ''.'' (i @ CHR ''.'' # f) = (if f = [] then i else i @ CHR ''.'' # f)"
  proof (cases f rule: rev_cases)
    case Nil
    have "last i \<noteq> CHR ''.''" using dot last_in_set [of i] show_nat_nonempty unfolding i_def by metis
    then have "trim_right CHR ''.'' i = i" by (cases i rule: rev_cases) (simp_all add: trim_right_last i_def)
    then show ?thesis using Nil by (simp add: trim_right_last)
  next
    case (snoc f' d)
    have "d \<in> set (f @ replicate k CHR ''0'')" using snoc by simp
    then have "is_digit d" unfolding f_def k [symmetric] by (intro pad3_digits) simp_all
    then have "d \<noteq> CHR ''.''" by (auto simp: is_digit_def)
    then show ?thesis using snoc trim_right_last [of "CHR ''.''" "i @ CHR ''.'' # f'" d] by simp
  qed
  ultimately have t: "format_cpus q = (if f = [] then i else i @ CHR ''.'' # f)" by simp
  have nodot: "\<forall>c \<in> set i. c \<noteq> CHR ''.''" using dot by blast
  then have tw: "takeWhile (\<lambda>c. c \<noteq> CHR ''.'') i = i" unfolding takeWhile_eq_all_conv .
  have tw_dot: "takeWhile (\<lambda>c. c \<noteq> CHR ''.'') (i @ CHR ''.'' # f) = i"
    by (subst takeWhile_append2) (use nodot in blast, simp)
  have "read_nat i = n div 1000" "read_nat [] = 0" by (simp_all add: i_def read_show_nat) (simp add: read_nat_def)
  then have "cpu_value (format_cpus q) = of_nat (n div 1000) + of_nat (read_nat f) / 10 ^ length f"
    unfolding t cpu_value_def Let_def by (cases "f = []") (simp_all add: tw tw_dot)
  also have "\<dots> = of_int (thousandths q) / 1000"
    unfolding val unfolding n_def using thousandths_nonneg [OF assms] by simp
  finally show ?thesis .
qed

section \<open>Limits\<close>

text \<open>What a service declares: the larger of its own value and the value under \<open>deploy\<close>.\<close>

definition declared :: "('a::linorder) \<Rightarrow> (resource \<Rightarrow> 'a) \<Rightarrow> service_config \<Rightarrow> 'a" where
  "declared own get svc = (case scDeploy svc of None \<Rightarrow> own
     | Some d \<Rightarrow> (case dcLimits d of None \<Rightarrow> own | Some l \<Rightarrow> max own (get l)))"

abbreviation declared_memory :: "service_config \<Rightarrow> int" where
  "declared_memory svc \<equiv> declared (scMemLimit svc) rsMemoryBytes svc"

abbreviation declared_cpus :: "service_config \<Rightarrow> rat" where
  "declared_cpus svc \<equiv> declared (scCPUS svc) rsNanoCPUs svc"

abbreviation declared_pids :: "service_config \<Rightarrow> int" where
  "declared_pids svc \<equiv> declared (scPidsLimit svc) rsPids svc"

text \<open>
  C27: The limits of an accepted service are what it declares: the memory text denotes its bytes exactly, the number of CPUs
  is within half a thousandth, the processes are its own, and nothing is written where nothing is declared.
\<close>

theorem limits_read_back:
  assumes "limits_of name svc = ([], l)"
  shows "(if declared_memory svc \<le> 0 then lMemory l = [] else int (memory_bytes (lMemory l)) = declared_memory svc)
    \<and> (if declared_cpus svc \<le> 0 then lCPU l = [] else \<bar>cpu_value (lCPU l) - declared_cpus svc\<bar> \<le> 1 / 2000)
    \<and> lPids l = declared_pids svc"
proof -
  define m where "m = declared_memory svc"
  define q where "q = declared_cpus svc"
  define p where "p = declared_pids svc"
  have m: "(case (case scDeploy svc of None \<Rightarrow> None | Some d \<Rightarrow> dcLimits d) of None \<Rightarrow> scMemLimit svc
      | Some l \<Rightarrow> max (scMemLimit svc) (rsMemoryBytes l)) = m"
    and q: "(case (case scDeploy svc of None \<Rightarrow> None | Some d \<Rightarrow> dcLimits d) of None \<Rightarrow> scCPUS svc
      | Some l \<Rightarrow> max (scCPUS svc) (rsNanoCPUs l)) = q"
    and p: "(case (case scDeploy svc of None \<Rightarrow> None | Some d \<Rightarrow> dcLimits d) of None \<Rightarrow> scPidsLimit svc
      | Some l \<Rightarrow> max (scPidsLimit svc) (rsPids l)) = p"
    by (simp_all add: m_def q_def p_def declared_def split: option.splits)
  have l: "\<not> p < 0" "\<not> (m > 0 \<and> m mod 2 ^ 30 \<noteq> 0 \<and> m mod 2 ^ 20 \<noteq> 0 \<and> m mod 2 ^ 10 \<noteq> 0)"
    "l = \<lparr>lPids = max p 0, lMemory = (if m \<le> 0 then [] else if m mod 2 ^ 30 = 0 then show_int (m div 2 ^ 30) @ ''g''
          else if m mod 2 ^ 20 = 0 then show_int (m div 2 ^ 20) @ ''m''
          else if m mod 2 ^ 10 = 0 then show_int (m div 2 ^ 10) @ ''k'' else []), lCPU = (if q > 0 then format_cpus q else [])\<rparr>"
    using assms unfolding limits_of_def Let_def m q p by (auto simp: add_def split: if_splits)
  have bytes: "int (memory_bytes (show_int (m div u) @ [c])) = m" if "0 < m" "m mod u = 0" "u = int (unit_bytes c)" for u c
  proof -
    have "0 \<le> m div u" using that(1,3) by (simp add: pos_imp_zdiv_nonneg_iff unit_bytes_def)
    then have "int (memory_bytes (show_int (m div u) @ [c])) = m div u * u"
      using that(3) by (simp add: show_int_def memory_bytes_show)
    then show ?thesis using that(2) by (metis div_mult_mod_eq add.right_neutral)
  qed
  have "int (memory_bytes (lMemory l)) = m" if "0 < m"
    using bytes [OF that, of "2 ^ 30" "CHR ''g''"] bytes [OF that, of "2 ^ 20" "CHR ''m''"] bytes [OF that, of "2 ^ 10" "CHR ''k''"]
      l(2) that unfolding l(3) by (auto simp: unit_bytes_def)
  moreover have "\<bar>cpu_value (lCPU l) - q\<bar> \<le> 1 / 2000" if "0 < q"
    using that thousandths_near [of q] unfolding l(3) by (simp add: cpu_value_format)
  ultimately show ?thesis unfolding m_def [symmetric] q_def [symmetric] p_def [symmetric] using l(1,3) by auto
qed

text \<open>A memory limit of 512 MiB and half a CPU.\<close>

lemma limits_read_back_witness:
  "limits_of ''app'' one_service = ([], \<lparr>lPids = 0, lMemory = ''512m'', lCPU = ''0.5''\<rparr>)
   \<and> int (memory_bytes ''512m'') = 2 ^ 29"
proof -
  have l: "limits_of ''app'' one_service = ([], \<lparr>lPids = 0, lMemory = ''512m'', lCPU = ''0.5''\<rparr>)" by code_simp
  have d: "declared_memory one_service = 2 ^ 29" by (simp add: declared_def one_service_def)
  show ?thesis using l limits_read_back [OF l] by (simp add: d)
qed

end
