(* ===== verification/Kept.thy ===== *)
theory Kept
  imports ApiServe
begin

text \<open>
  What keeps a property of the supervisor's state. The locale \<open>kept\<close> is the contract between the whole program
  and an invariant \<open>P\<close>: the few ways any operation changes the state, with what is known of a record and a
  spec there. What keeps \<open>P\<close> across those keeps it across every call of the API, every request, every pass
  and whatever runs inside one.
\<close>

definition admissible :: "(spec \<Rightarrow> bool) \<Rightarrow> (string \<Rightarrow> bool) \<Rightarrow> api_op \<Rightarrow> bool" where
  "admissible V D p = (case p of
     OpPutProject n q specs \<Rightarrow> list_all V specs
   | OpPutProjects files loaded \<Rightarrow> list_all V (concat (map snd loaded))
   | OpSetDesired n d \<Rightarrow> D d
   | _ \<Rightarrow> True)"

definition loads :: "(spec \<Rightarrow> bool) \<Rightarrow> ('d, 'e) env \<Rightarrow> bool" where
  "loads V E \<longleftrightarrow> (\<forall>n p specs. envLoad E n p = Inr specs \<longrightarrow> list_all V specs)"

lemma load_all_loads:
  "loads V E \<Longrightarrow> load_all E files ns owners = Inr loaded \<Longrightarrow> list_all V (concat (map snd loaded))"
proof (induction ns arbitrary: owners loaded)
  case (Cons n ns)
  then show ?case by (fastforce simp: loads_def split: sum.splits)
qed simp

locale kept =
  fixes P :: "('d, 'e) sup \<Rightarrow> bool" and R :: "string \<times> store_record \<Rightarrow> bool" and V :: "spec \<Rightarrow> bool" and D :: "string \<Rightarrow> bool"
  assumes stored: "P s \<Longrightarrow> P (s\<lparr>svStore := d\<rparr>)"
    and engine: "P s \<Longrightarrow> P (s\<lparr>svEngine := en\<rparr>)"
    and tracked: "P s \<Longrightarrow> P (set_t n t s)"
    and touched: "P s \<Longrightarrow> P (touch n s)"
    and marked: "P (touch n s) \<Longrightarrow> P (touch n (set_t n t s))"
    and recorded: "P s \<Longrightarrow> R (n, r) \<Longrightarrow> P (touch n (s\<lparr>svStore := d, svRecords := mput n r (svRecords s)\<rparr>))"
    and deleted: "P s \<Longrightarrow> P (touch n (s\<lparr>svStore := d, svRecords := mdel n (svRecords s), svTrack := mdel n (svTrack s)\<rparr>))"
    and project: "P s \<Longrightarrow> P (s\<lparr>svStore := d, svProjects := mput n p (svProjects s)\<rparr>)"
    and no_project: "P s \<Longrightarrow> P (s\<lparr>svStore := d, svProjects := mdel n (svProjects s)\<rparr>)"
    and relisted: "P s \<Longrightarrow> P (s\<lparr>svObserved := [], svForeign := []\<rparr>)"
    and observed: "P s \<Longrightarrow> P (s\<lparr>svObserved := mput n c (svObserved s)\<rparr>)"
    and foreign: "P s \<Longrightarrow> P (s\<lparr>svForeign := mput n c (svForeign s)\<rparr>)"
    and forgotten: "P s \<Longrightarrow> P (s\<lparr>svObserved := mdel n (svObserved s)\<rparr>)"
    and taken: "P s \<Longrightarrow> svSched s = ops # rest \<Longrightarrow> P (s\<lparr>svSched := rest\<rparr>) \<and> list_all (admissible V D) ops"
    and published: "P s \<Longrightarrow> P (publish now s)"
    and followed: "P s \<Longrightarrow> P (subscribe i s)"
    and left: "P s \<Longrightarrow> P (unsubscribe i s)"
    and known: "P s \<Longrightarrow> map_of (svRecords s) n = Some r \<Longrightarrow> R (n, r)"
    and fresh: "V sp \<Longrightarrow> R (sName sp, \<lparr>recSpec = sp, recDesired = Running\<rparr>)"
    and respecified: "R (sName sp, r) \<Longrightarrow> V sp \<Longrightarrow> R (sName sp, r\<lparr>recSpec := sp\<rparr>)"
    and redesired: "R (n, r) \<Longrightarrow> D st \<Longrightarrow> R (n, r\<lparr>recDesired := st\<rparr>)"
    and states: "D Running" "D Stopped"
begin

lemma put_kept:
  assumes "P s" and "V sp" shows "P (snd (put E sp s))"
proof -
  let ?r = "(case map_of (svRecords s) (sName sp) of None \<Rightarrow> \<lparr>recSpec = zero_spec, recDesired = Running\<rparr> | Some r \<Rightarrow> r)\<lparr>recSpec := sp\<rparr>"
  have r: "R (sName sp, ?r)"
    using fresh [OF assms(2)] respecified [OF known [OF assms(1)] assms(2)] by (simp split: option.split)
  note p = recorded [OF assms(1) r] stored [OF assms(1)]
  show ?thesis using p(1) marked [OF p(1)] p(2)
    unfolding put_def Let_def by (auto split: prod.split option.split simp del: mput_def)
qed

lemma delete_kept: "P s \<Longrightarrow> P (snd (delete E n s))"
  by (auto simp: delete_def deleted stored split: prod.split option.split)

lemma projects_kept: "P s \<Longrightarrow> P (snd (store_project E n p s))" "P s \<Longrightarrow> P (snd (drop_project E n s))"
  by (auto simp: store_project_def drop_project_def project no_project stored split: prod.split option.split)

lemma delete_where_kept: "P s \<Longrightarrow> P (snd (delete_where E gone s))"
  unfolding delete_where_def by (rule foreach_inv) (auto simp: delete_kept)

lemma declare_kept:
  assumes "P s" and "list_all V specs" shows "P (snd (declare_project E n p specs s))"
  unfolding declare_project_def
proof (intro and_then_inv [where P = P] projects_kept(1) delete_where_kept assms(1))
  show "P (snd (foreach (put E) specs t))" if "P t" for t
    by (rule foreach_inv) (use assms(2) that put_kept in \<open>auto simp: list_all_iff\<close>)
qed

lemma put_project_locked_kept: "P s \<Longrightarrow> list_all V specs \<Longrightarrow> P (snd (put_project_locked E n p specs s))"
  by (auto simp: put_project_locked_def declare_kept split: option.split)

lemma put_projects_locked_kept:
  assumes "P s" and "list_all V (concat (map snd loaded))" shows "P (snd (put_projects_locked E files loaded s))"
  unfolding put_projects_locked_def
proof (intro and_then_inv [where P = P] delete_where_kept assms(1))
  show "P (snd (foreach (\<lambda>(n, _) s. if has_key files n then (None, s) else drop_project E n s) (svProjects u) t))" if "P t" for t u
    by (rule foreach_inv) (use that projects_kept in auto)
  show "P (snd (foreach (\<lambda>(n, specs) s. declare_project E n (case map_of files n of
      Some p \<Rightarrow> p | None \<Rightarrow> \<lparr>prjCompose = [], prjDir = []\<rparr>) specs s) loaded t))" if "P t" for t
  proof (rule foreach_inv)
    fix x u
    assume x: "x \<in> set loaded" "P u"
    obtain n specs where ns: "x = (n, specs)" by fastforce
    have "list_all V specs" using assms(2) x(1) unfolding ns by (fastforce simp: list_all_iff)
    then show "P (snd ((case x of (n, specs) \<Rightarrow> \<lambda>s. declare_project E n (case map_of files n of
        Some p \<Rightarrow> p | None \<Rightarrow> \<lparr>prjCompose = [], prjDir = []\<rparr>) specs s) u))"
      using declare_kept [OF x(2)] by (simp add: ns)
  qed (rule that)
qed

lemma delete_project_kept: "P s \<Longrightarrow> P (snd (delete_project E n s))"
  unfolding delete_project_def Let_def
  by (rule and_then_inv [where P = P]) (auto simp: delete_where_kept projects_kept)

lemma set_desired_kept:
  assumes "P s" and "D d" shows "P (snd (set_desired E n d s))"
proof (cases "map_of (svRecords s) n")
  case (Some r)
  note p = recorded [OF assms(1) redesired [OF known [OF assms(1) Some] assms(2)]]
  show ?thesis using Some assms(1) p marked [OF p] marked [OF touched [OF assms(1)]] touched [OF assms(1)] stored [OF assms(1)]
    by (auto simp: set_desired_def Let_def and_then_def split: prod.split option.split)
qed (use assms(1) in \<open>simp add: set_desired_def\<close>)

lemma mark_restart_kept: "P s \<Longrightarrow> P (mark_restart n s)"
  unfolding mark_restart_def upd_t_def by (intro touched tracked)

lemma api_step_kept: "P s \<Longrightarrow> admissible V D p \<Longrightarrow> P (api_step E p s)"
  by (cases p) (simp_all add: admissible_def put_project_locked_kept put_projects_locked_kept delete_project_kept set_desired_kept mark_restart_kept)

lemma interfere_kept: "P s \<Longrightarrow> P (interfere E s)"
proof (cases "svSched s")
  case (Cons ops rest)
  assume t: "P s"
  have "list_all (admissible V D) ops \<Longrightarrow> P u \<Longrightarrow> P (fold (api_step E) ops u)" for u
    by (induction ops arbitrary: u) (auto simp: api_step_kept)
  then show ?thesis using taken [OF t Cons] Cons by (simp add: interfere_def)
qed (simp add: interfere_def)

lemma unlocked_kept: "P s \<Longrightarrow> P (snd (unlocked E n call s))"
  by (simp add: unlocked_def Let_def interfere_kept engine split: prod.split)

end

sublocale kept \<subseteq> steps: reconcile_steps E r P for E r
  by unfold_locales (simp_all add: tracked forgotten unlocked_kept)

context kept
begin

lemma scan_kept: "P s \<Longrightarrow> P (scan E listed s)"
proof -
  have "P u \<Longrightarrow> P (fold (scan_one E) cs u)" for cs u
    by (induction cs arbitrary: u) (simp_all add: scan_one_def foreign observed unlocked_kept)
  then show "P s \<Longrightarrow> P (scan E listed s)" by (simp add: scan_def relisted)
qed

lemma visit_all_kept: "P (snd ns) \<Longrightarrow> P (snd (visit_all E clk names ns))"
proof (induction names arbitrary: ns)
  case (Cons n names)
  have "P (snd (visit E clk n ns))"
  proof (cases "map_of (svRecords (snd ns)) n")
    case (Some r)
    then show ?thesis using steps.reconcile_kept [OF Cons.prems, of E "clk n" r]
      by (auto simp: visit_def split: prod.split)
  qed (simp add: visit_def Cons.prems)
  then show ?case using Cons.IH by (simp add: visit_all_def)
qed (simp add: visit_all_def)

theorem pass_kept: "P s \<Longrightarrow> P (snd (pass E clk pub s))"
proof -
  assume t: "P s"
  obtain x en where l: "eList (envEngine E) (svEngine s) = (x, en)" by fastforce
  have i: "P (interfere E (s\<lparr>svEngine := en\<rparr>))" using t by (simp add: interfere_kept engine)
  show ?thesis
  proof (cases x)
    case (Inr listed)
    let ?s1 = "scan E listed (interfere E (s\<lparr>svEngine := en\<rparr>))"
    have "P (snd (visit_all E clk (sorted_keys (svRecords ?s1)) (0, ?s1)))"
      by (rule visit_all_kept) (simp add: scan_kept i)
    then show ?thesis
      by (auto simp: pass_def l Inr Let_def remove_networks_def intro!: published interfere_kept engine split: prod.split)
  qed (simp add: pass_def l i)
qed

lemma unmanaged_kept: "P s \<Longrightarrow> P (snd (unmanaged E specs s))"
  by (auto simp: unmanaged_def engine split: prod.split sum.split)

lemma put_project_kept: "loads V E \<Longrightarrow> P s \<Longrightarrow> P (snd (put_project E n p s))"
  unfolding put_project_def
  by (auto simp: loads_def unmanaged_kept put_project_locked_kept intro!: and_then_inv [where P = P] split: sum.split)

lemma put_projects_kept: "loads V E \<Longrightarrow> P s \<Longrightarrow> P (snd (put_projects E files s))"
  unfolding put_projects_def
  by (auto simp: unmanaged_kept put_projects_locked_kept load_all_loads intro!: and_then_inv [where P = P] split: sum.split)

lemma restart_kept: "P s \<Longrightarrow> P (snd (restart_container E n s))"
  unfolding restart_container_def
  by (rule and_then_inv [where P = P]) (simp_all add: set_desired_kept states mark_restart_kept)

lemma after_call_kept: "P (snd c) \<Longrightarrow> P (snd (after_call S c k))"
  by (cases c) (simp add: after_call_def split: option.split)

theorem handle_kept:
  assumes "loads V (srvEnv S)" and "P s" shows "P (snd (handle S rq s))"
proof (cases "route (rqMethod rq) (rqPath rq)")
  case (Endpoint ep v)
  have "P (snd (serve S ep v rq s))"
  proof (cases ep)
    case GetLogs
    then show ?thesis using logs_read_only [of S rq v s] assms(2) by (auto simp: serve_def engine)
  qed (use assms in \<open>auto simp: serve_def h_put_project_def h_put_projects_def h_delete_project_def h_verb_def h_events_def Let_def
      subscription_ends start_container_def stop_container_def
      intro!: after_call_kept put_project_kept put_projects_kept delete_project_kept set_desired_kept restart_kept states
      split: option.split sum.split\<close>)
  then show ?thesis by (cases "serve S ep v rq s") (simp add: handle_def Endpoint)
qed (simp add: handle_def assms(2))

end

end
