(* ===== verification/Typed.thy ===== *)
theory Typed
  imports Kept
begin

text \<open>
  Well-formed states: every map has a key once, each record is kept under its own container's name, holds a
  spec that validates and one of the two desired states, and no subscription holds more than its channel.
  Every operation keeps a state well-formed.
\<close>

definition record_ok :: "string \<times> store_record \<Rightarrow> bool" where
  "record_ok nr \<longleftrightarrow> sName (recSpec (snd nr)) = fst nr \<and> validate (recSpec (snd nr)) = None
     \<and> (recDesired (snd nr) = Running \<or> recDesired (snd nr) = Stopped)"

abbreviation validates :: "spec \<Rightarrow> bool" where "validates sp \<equiv> validate sp = None"

abbreviation desirable :: "string \<Rightarrow> bool" where "desirable d \<equiv> d = Running \<or> d = Stopped"

definition typed :: "('d, 'e) sup \<Rightarrow> bool" where
  "typed s \<longleftrightarrow> distinct (map fst (svRecords s)) \<and> list_all record_ok (svRecords s)
     \<and> distinct (map fst (svTrack s)) \<and> distinct (map fst (svObserved s)) \<and> distinct (map fst (svForeign s))
     \<and> distinct (map fst (svProjects s)) \<and> distinct (map fst (svChanged s)) \<and> distinct (map fst (svLastPhase s))
     \<and> distinct (map fst (svSubs s)) \<and> list_all (\<lambda>(i, buf). length buf \<le> 64) (svSubs s)
     \<and> list_all (list_all (admissible validates desirable)) (svSched s)"

lemma list_all_mput: "list_all Q m \<Longrightarrow> Q (k, v) \<Longrightarrow> list_all Q (mput k v m)"
  by (induction m) (auto simp: mput_def)

lemma list_all_mdel: "list_all Q m \<Longrightarrow> list_all Q (mdel k m)"
  by (induction m) (auto simp: mdel_def AList.delete_eq)

lemma record_at: "list_all record_ok m \<Longrightarrow> map_of m n = Some r \<Longrightarrow> record_ok (n, r)"
  by (auto simp: list_all_iff dest: map_of_SomeD)

lemma map_fst_with: "map fst (map (\<lambda>(k, v). (k, f v)) m) = map fst m" by (induction m) auto

lemma send_bounded: "length buf \<le> 64 \<Longrightarrow> length (fold send chs buf) \<le> 64"
  by (induction chs arbitrary: buf) (simp_all add: send_def)

lemma list_all_buffers: "list_all (\<lambda>(i, buf). length buf \<le> 64) m \<Longrightarrow>
    list_all (\<lambda>(i, buf). length buf \<le> 64) (map (\<lambda>(i, buf). (i, fold send chs buf)) m)"
  by (induction m) (auto simp: send_bounded)

lemmas typed_unfolds = typed_def touch_def poke_def set_t_def subscribe_def unsubscribe_def publish_def Let_def
  distinct_mput distinct_mdel list_all_mput list_all_mdel map_fst_with list_all_buffers

interpretation well_formed: kept typed record_ok validates desirable
proof
  fix s :: "('d, 'e) sup" and n r
  assume "typed s" "map_of (svRecords s) n = Some r"
  then show "record_ok (n, r)" using record_at [of "svRecords s" n r] unfolding typed_def by blast
qed (simp_all add: typed_unfolds record_ok_def del: map_map)

end
