(* ===== verification/CtlPromises.thy ===== *)
theory CtlPromises
  imports Ctl ApiServe
begin

text \<open>
  The client and the server together: what a command of \<open>ctl\<close> does to the supervisor behind the
  socket, and what its exit code says.
\<close>

section \<open>From a command to its handler\<close>

text \<open>A part of a path that is sent as it is.\<close>

definition sent :: "string \<Rightarrow> bool" where
  "sent p \<longleftrightarrow> list_all (\<lambda>c. unreserved c \<or> c = slash) p"

lemma unescape_sent: "sent p \<Longrightarrow> url_unescape EncSegment p = Some p"
proof (induction p)
  case (Cons c p)
  have "\<not> (unreserved (CHR ''%'') \<or> CHR ''%'' = slash)" by (simp add: unreserved_def alnum_byte_def is_digit_def)
  then have "c \<noteq> CHR ''%''" using Cons.prems unfolding sent_def by auto
  then show ?case using Cons by (simp add: sent_def)
qed simp

lemma sent_bytes:
  assumes "sent p" and "c \<in> set p"
  shows "\<not> should_escape EncPath c" "\<not> control c" "c \<noteq> CHR ''#''" "c \<noteq> CHR ''?''"
proof -
  have u: "unreserved c \<or> c = slash" using assms by (auto simp: sent_def list_all_iff)
  moreover have "\<not> should_escape EncPath slash"
    by (simp add: should_escape_def reserved_def)
  ultimately show "\<not> should_escape EncPath c"
    by (elim disjE) (simp add: should_escape_def, simp only: not_False_eq_True)
  show "\<not> control c"
  proof
    assume "control c"
    then have "byte c < 0x20 \<or> byte c = 0x7F" by (simp add: control_def)
    then show False using u by (auto simp: unreserved_def alnum_byte_def is_digit_def)
  qed
  have "\<not> (unreserved (CHR ''#'') \<or> CHR ''#'' = slash)" "\<not> (unreserved (CHR ''?'') \<or> CHR ''?'' = slash)"
    by (simp_all add: unreserved_def alnum_byte_def is_digit_def)
  then show "c \<noteq> CHR ''#''" "c \<noteq> CHR ''?''" using u by auto
qed

lemma escaped_not_control: "c \<in> set (url_escape m s) \<Longrightarrow> \<not> control c"
proof
  assume c: "c \<in> set (url_escape m s)" "control c"
  then have b: "byte c < 0x20 \<or> byte c = 0x7F" by (simp add: control_def)
  then have "\<not> unreserved c" "\<not> reserved c" "c \<noteq> CHR ''+''" "c \<noteq> CHR ''%''"
    by (auto simp: unreserved_def reserved_def alnum_byte_def is_digit_def)
  then show False using escaped_bytes [OF c(1)] by (simp add: should_escape_def)
qed

lemma escaped_path_sent:
  assumes "sent p" and "sent t"
  shows "escaped_path (p @ PathEscape n @ t) = Some (p @ PathEscape n @ t)"
proof -
  have "url_unescape EncSegment (p @ PathEscape n @ t) = Some (p @ n @ t)"
    using unescape_append [OF unescape_sent [OF assms(1)], of "PathEscape n @ t"]
      unescape_append [of EncSegment "PathEscape n" n t] unescape_sent [OF assms(2)] by simp
  moreover have "valid_encoded p" "valid_encoded t"
    using sent_bytes(1) assms(1,2) by (auto simp: valid_encoded_def list_all_iff)
  ultimately show ?thesis by (simp add: escaped_path_def)
qed

lemma query_bytes: "c \<in> set (encode_query m) \<Longrightarrow> c = CHR ''&'' \<or> c = CHR ''='' \<or> (\<exists>s. c \<in> set (QueryEscape s))"
  using set_join [of c "''&''" "map encode_pair (sorted_entries m)"] by (auto simp: encode_query_def encode_pair_def)

lemma query_not_control: "c \<in> set (encode_query m) \<Longrightarrow> \<not> control c"
  using query_bytes [of c m] escaped_not_control by (auto simp: control_def)

text \<open>A URL of the client, and the request the server gets of it.\<close>

lemma request_of_sent:
  assumes "sent p" and "sent t"
  shows "request_of m (p @ PathEscape n @ t) body
      = Some \<lparr>rqMethod = m, rqPath = p @ PathEscape n @ t, rqQuery = [], rqBody = body, rqChanges = []\<rparr>" (is ?path)
    and "request_of m (p @ PathEscape n @ t @ ''?'' @ encode_query q) body
      = Some \<lparr>rqMethod = m, rqPath = p @ PathEscape n @ t, rqQuery = encode_query q, rqBody = body, rqChanges = []\<rparr>" (is ?query)
proof -
  let ?p = "p @ PathEscape n @ t"
  have b: "\<not> control c \<and> c \<noteq> CHR ''#'' \<and> c \<noteq> CHR ''?''" if "c \<in> set ?p" for c
    using that sent_bytes [OF assms(1), of c] sent_bytes [OF assms(2), of c] escaped_not_control [of c EncSegment n]
      escape_no_hash [of EncSegment n] escape_no_question [of EncSegment n] by auto
  then have p: "\<not> list_ex control ?p" "CHR ''#'' \<notin> set ?p" "CHR ''?'' \<notin> set ?p" by (auto simp: list_ex_iff)
  have c: "\<not> control (CHR ''?'')" by (simp add: control_def)
  have q: "\<not> list_ex control (encode_query q)" "CHR ''#'' \<notin> set (encode_query q)"
    using query_not_control valid_query_bytes by (auto simp: list_ex_iff)
  show ?path using p escaped_path_sent [OF assms] by (simp add: request_of_def cut_no)
  have "CHR ''#'' \<notin> set (?p @ CHR ''?'' # encode_query q)" using p q by auto
  then have "fst (cut (CHR ''#'') (?p @ CHR ''?'' # encode_query q)) = ?p @ CHR ''?'' # encode_query q" by (simp add: cut_no)
  moreover have "cut (CHR ''?'') (?p @ CHR ''?'' # encode_query q) = (?p, Some (encode_query q))" by (rule cut_append [OF p(3)])
  moreover have "\<not> list_ex control (?p @ CHR ''?'' # encode_query q)" using p q c by simp
  ultimately show ?query using escaped_path_sent [OF assms] by (simp add: request_of_def)
qed

section \<open>One exchange\<close>

lemma reply_location [simp]: "rsLocation (reply code j) = []" "rsLocation (fail_with code rule words) = []"
  "rsLocation (fail_for S e) = []"
  by (simp_all add: reply_def fail_with_def fail_for_def split: sup_error.split)

lemma answers_location [simp]: "rsLocation (h_get S n s) = []" "rsLocation (h_project S n s) = []" "rsLocation (h_projects S s) = []"
  "rsLocation (h_list S s) = []" "rsLocation (h_status S s) = []"
  by (simp_all add: h_get_def h_project_def h_projects_def h_list_def h_status_def Let_def split: sum.split)

lemma after_call_location:
  "after_call S c k = (r, s') \<Longrightarrow> (\<And>t. rsLocation (k t) = []) \<Longrightarrow> rsLocation r = []"
  by (auto simp: after_call_def split: prod.splits option.splits)

text \<open>What a call did and what its caller was told agree: a failure is told as the server words it.\<close>

definition tells :: "('d, 'e) server \<Rightarrow> sup_error option \<times> 's \<Rightarrow> cli \<times> 's \<Rightarrow> bool" where
  "tells S c r \<longleftrightarrow> snd r = snd c \<and> (case fst c of
     None \<Rightarrow> clCode (fst r) = 0 \<and> clErr (fst r) = []
   | Some e \<Rightarrow> fst r = \<lparr>clCode = 1, clOut = [], clErr = rsBody (fail_for S e)\<rparr>)"

lemma exchange:
  assumes "ctl_plan w args = (socket, Send m url body again Copied)" and "request_of m url body = Some rq"
    and "route m (rqPath rq) = Endpoint ep v" and "m \<noteq> ''HEAD''" and "serve S ep v rq s = after_call S c k"
    and "rqMethod rq = m"
    and "\<And>t. rsLocation (k t) = []" and "fst c = None \<Longrightarrow> rsCode (k (snd c)) < 300"
  shows "tells S c (ctl (to_server S) w args s)"
proof -
  obtain r s' where r: "after_call S c k = (r, s')" by fastforce
  have h: "to_server S socket rq s = (Inr r, s')" using assms(3-6) r by (simp add: to_server_def handle_def)
  have loc: "rsLocation r = []" by (rule after_call_location [OF r assms(7)])
  then have f: "fetch (to_server S socket) 9 again rq s = (Inr r, s')"
    by (subst fetch.simps) (simp add: h redirected_def)
  have c: "s' = snd c" "rsCode r < 300 \<longleftrightarrow> fst c = None" "fst c = Some e \<Longrightarrow> r = fail_for S e" for e
    using r assms(8) by (cases c; cases "fst c"; auto simp: after_call_def fail_for_code split: sup_error.splits)+
  show ?thesis using assms(1,2) f c(1,2) c(3) [of "the (fst c)"]
    by (cases "fst c") (auto simp: tells_def ctl_def client_do_def print_defs simp del: fetch.simps split: option.splits)
qed

lemma parse_command: "read_arg c = NoFlag \<Longrightarrow> ctl_plan w (c # rest) = (defaultSocket, command w (c # rest))"
  by (simp add: ctl_plan_def parse_not_flag)

lemma command_words [simp]: "read_arg ''start'' = NoFlag" "read_arg ''stop'' = NoFlag" "read_arg ''restart'' = NoFlag"
  "read_arg ''up'' = NoFlag" "read_arg ''down'' = NoFlag" "read_arg ''list'' = NoFlag"
  by (simp_all add: read_arg_def)

lemma pf_lookup: "map_of pf_flags ''p'' = Some (str_flag pfProject_update)" "map_of pf_flags ''f'' = Some (str_flag pfFile_update)"
  by (simp_all add: pf_flags_def)

lemma parse_p: "parse_flags pf_flags (''-p'' # n # rest) r = parse_flags pf_flags rest (r\<lparr>pfProject := n\<rparr>)"
  using parse_valued(1) [of "''p''" pf_flags "\<lambda>v r. Some (r\<lparr>pfProject := v\<rparr>)" n rest r] pf_lookup(1) by (simp add: flag_name_def str_flag_def)

lemma parse_f: "parse_flags pf_flags (''-f'' # n # rest) r = parse_flags pf_flags rest (r\<lparr>pfFile := n\<rparr>)"
  using parse_valued(1) [of "''f''" pf_flags "\<lambda>v r. Some (r\<lparr>pfFile := v\<rparr>)" n rest r] pf_lookup(2) by (simp add: flag_name_def str_flag_def)

lemma resolved_name: "resolve_target w f b = Inr t \<Longrightarrow> pfProject f \<noteq> [] \<Longrightarrow> tgName t = pfProject f"
  by (auto simp: resolve_target_def target_name_def Let_def split: sum.splits)

lemma sent_words: "sent ''/v1/containers/''" "sent ''/v1/projects/''" "sent ''/start''" "sent ''/stop''" "sent ''/restart''" "sent []"
  by (simp_all add: sent_def unreserved_def alnum_byte_def is_digit_def)

text \<open>\<open>up\<close>, with the name and the file given.\<close>

lemma up_told:
  assumes "path_name n" and t: "resolve_target w (no_pf\<lparr>pfProject := n, pfFile := f\<rparr>) False = Inr t" "length (tgFile t) \<le> maxBody"
  shows "tells S (put_project (srvEnv S) n \<lparr>prjCompose = tgFile t, prjDir = tgDir t\<rparr> s)
      (ctl (to_server S) w [''up'', ''-p'', n, ''-f'', f] s)"
proof (rule exchange [where m = "''PUT''" and ep = PutProject and v = n and k = "h_project S n"])
  have "tgName t = n" using resolved_name [OF t(1)] assms(1) by (simp add: path_name_def no_pf_def)
  then show "ctl_plan w [''up'', ''-p'', n, ''-f'', f] = (defaultSocket,
      Send ''PUT'' (''/v1/projects/'' @ PathEscape n @ [] @ ''?'' @ encode_query [(''projectDir'', tgDir t)]) (tgFile t) True Copied)"
    using t(1) by (simp add: parse_command command_def up_down_def parse_p parse_f)
  show "request_of ''PUT'' (''/v1/projects/'' @ PathEscape n @ [] @ ''?'' @ encode_query [(''projectDir'', tgDir t)]) (tgFile t)
      = Some \<lparr>rqMethod = ''PUT'', rqPath = ''/v1/projects/'' @ PathEscape n @ [], rqQuery = encode_query [(''projectDir'', tgDir t)],
          rqBody = tgFile t, rqChanges = []\<rparr>"
    by (rule request_of_sent(2) [OF sent_words(2,6)])
  have "query_get (encode_query [(''projectDir'', d)]) ''projectDir'' = d" for d
    by (simp add: query_get_def parse_encoded_query sorted_entries_def sorted_keys_def str_at_def)
  then show "serve S PutProject n \<lparr>rqMethod = ''PUT'', rqPath = ''/v1/projects/'' @ PathEscape n @ [],
      rqQuery = encode_query [(''projectDir'', tgDir t)], rqBody = tgFile t, rqChanges = []\<rparr> s
    = after_call S (put_project (srvEnv S) n \<lparr>prjCompose = tgFile t, prjDir = tgDir t\<rparr> s) (h_project S n)"
    using t(2) by (simp add: serve_def h_put_project_def read_body_def)
  show "rsCode (h_project S n (snd (put_project (srvEnv S) n \<lparr>prjCompose = tgFile t, prjDir = tgDir t\<rparr> s))) < 300"
    if "fst (put_project (srvEnv S) n \<lparr>prjCompose = tgFile t, prjDir = tgDir t\<rparr> s) = None"
  proof -
    have "has_key (svProjects (snd (put_project (srvEnv S) n \<lparr>prjCompose = tgFile t, prjDir = tgDir t\<rparr> s))) n"
      using put_project_keeps [of "srvEnv S" n "\<lparr>prjCompose = tgFile t, prjDir = tgDir t\<rparr>" s] that by (simp add: prod_eq_iff)
    from project_answer [OF this, of S] show ?thesis by simp
  qed
qed (use route_named(2) [OF assms(1)] in simp_all)

text \<open>
  C35: A command does what it says, to the container or project it names, and its exit code says
  whether it was done. For every name the shell can pass but \<open>.\<close>, \<open>..\<close>, \<open>/\<close> and the empty one,
  whatever bytes it has, \<open>start\<close>, \<open>stop\<close> and \<open>restart\<close> make exactly that call of the supervisor, \<open>down -p\<close> deletes
  that project, and \<open>up -p -f\<close> declares that project with the bytes of that file and the project
  directory that was found; the exit code is 0 when the call succeeded, and 1 when it was refused or failed,
  with the answer of the server on standard error.
\<close>

theorem ctl_does:
  assumes "path_name n"
  shows "tells S (start_container (srvEnv S) n s) (ctl (to_server S) w [''start'', n] s)
    \<and> tells S (stop_container (srvEnv S) n s) (ctl (to_server S) w [''stop'', n] s)
    \<and> tells S (restart_container (srvEnv S) n s) (ctl (to_server S) w [''restart'', n] s)
    \<and> (resolve_target w (no_pf\<lparr>pfProject := n\<rparr>) True = Inr t \<longrightarrow>
        tells S (delete_project (srvEnv S) n s) (ctl (to_server S) w [''down'', ''-p'', n] s))
    \<and> (resolve_target w (no_pf\<lparr>pfProject := n, pfFile := f\<rparr>) False = Inr t \<and> length (tgFile t) \<le> maxBody \<longrightarrow>
        tells S (put_project (srvEnv S) n \<lparr>prjCompose = tgFile t, prjDir = tgDir t\<rparr> s)
          (ctl (to_server S) w [''up'', ''-p'', n, ''-f'', f] s))"
proof -
  have verb: "tells S (act n s) (ctl (to_server S) w [c, n] s)"
    if c: "read_arg c = NoFlag" "c = ''start'' \<or> c = ''stop'' \<or> c = ''restart''" "sent (CHR ''/'' # c)"
      and r: "route ''POST'' (''/v1/containers/'' @ PathEscape n @ CHR ''/'' # c) = Endpoint ep n"
      and act: "\<And>rq. serve S ep n rq s = after_call S (act n s) (h_get S n)" "fst (act n s) = None \<Longrightarrow> has_key (svRecords (snd (act n s))) n"
    for c ep and act :: "string \<Rightarrow> ('a, 'b) sup \<Rightarrow> sup_error option \<times> ('a, 'b) sup"
  proof (rule exchange [where m = "''POST''" and ep = ep and v = n and k = "h_get S n"])
    show "ctl_plan w [c, n] = (defaultSocket, Send ''POST'' (''/v1/containers/'' @ PathEscape n @ CHR ''/'' # c) [] True Copied)"
      using c(2) parse_command [OF c(1)] by (auto simp: command_def named_def)
    show "request_of ''POST'' (''/v1/containers/'' @ PathEscape n @ CHR ''/'' # c) [] = Some \<lparr>rqMethod = ''POST'',
        rqPath = ''/v1/containers/'' @ PathEscape n @ CHR ''/'' # c, rqQuery = [], rqBody = [], rqChanges = []\<rparr>"
      by (rule request_of_sent(1) [OF sent_words(1) c(3)])
    show "rsCode (h_get S n (snd (act n s))) < 300" if "fst (act n s) = None"
      using get_answer [of "snd (act n s)" n S] act(2) [OF that] by simp
    show "rsLocation (h_get S n t) = []" for t by (rule answers_location)
  qed (use r act(1) in simp_all)
  note routes = route_named [OF assms]
  have keeps: "fst (start_container (srvEnv S) n s) = None \<Longrightarrow> has_key (svRecords (snd (start_container (srvEnv S) n s))) n"
    "fst (stop_container (srvEnv S) n s) = None \<Longrightarrow> has_key (svRecords (snd (stop_container (srvEnv S) n s))) n"
    "fst (restart_container (srvEnv S) n s) = None \<Longrightarrow> has_key (svRecords (snd (restart_container (srvEnv S) n s))) n"
    using set_desired_keeps [of "srvEnv S" n Running s "snd (start_container (srvEnv S) n s)"]
      set_desired_keeps [of "srvEnv S" n Stopped s "snd (stop_container (srvEnv S) n s)"]
      restart_keeps [of "srvEnv S" n s "snd (restart_container (srvEnv S) n s)"]
    by (simp_all add: start_container_def stop_container_def prod_eq_iff)
  have v: "tells S (start_container (srvEnv S) n s) (ctl (to_server S) w [''start'', n] s)"
    "tells S (stop_container (srvEnv S) n s) (ctl (to_server S) w [''stop'', n] s)"
    "tells S (restart_container (srvEnv S) n s) (ctl (to_server S) w [''restart'', n] s)"
    subgoal by (rule verb [where act = "start_container (srvEnv S)" and ep = StartContainer])
      (use routes(5) sent_words(3) in \<open>simp_all add: serve_def h_verb_def keeps(1)\<close>)
    subgoal by (rule verb [where act = "stop_container (srvEnv S)" and ep = StopContainer])
      (use routes(6) sent_words(4) in \<open>simp_all add: serve_def h_verb_def keeps(2)\<close>)
    subgoal by (rule verb [where act = "restart_container (srvEnv S)" and ep = RestartContainer])
      (use routes(7) sent_words(5) in \<open>simp_all add: serve_def h_verb_def keeps(3)\<close>)
    done
  have down: "tells S (delete_project (srvEnv S) n s) (ctl (to_server S) w [''down'', ''-p'', n] s)"
    if t: "resolve_target w (no_pf\<lparr>pfProject := n\<rparr>) True = Inr t"
  proof (rule exchange [where m = "''DELETE''" and ep = DeleteProject and v = n
        and k = "\<lambda>_. \<lparr>rsCode = 204, rsType = [], rsLocation = [], rsBody = []\<rparr>"])
    have "tgName t = n" using resolved_name [OF t] assms by (simp add: path_name_def)
    then show "ctl_plan w [''down'', ''-p'', n] = (defaultSocket, Send ''DELETE'' (''/v1/projects/'' @ PathEscape n @ []) [] True Copied)"
      using t by (simp add: parse_command command_def up_down_def parse_p) (simp add: no_pf_def)
    show "request_of ''DELETE'' (''/v1/projects/'' @ PathEscape n @ []) [] = Some \<lparr>rqMethod = ''DELETE'',
        rqPath = ''/v1/projects/'' @ PathEscape n @ [], rqQuery = [], rqBody = [], rqChanges = []\<rparr>"
      by (rule request_of_sent(1) [OF sent_words(2,6)])
  qed (use routes(3) in \<open>simp_all add: serve_def h_delete_project_def\<close>)
  show ?thesis using v down up_told [OF assms] by blast
qed

lemma ctl_does_witness:
  "tells rig_server (start_container rig_env ''b'' declared_rig) (ctl (to_server rig_server) rig_world [''start'', ''b''] declared_rig)
   \<and> tells rig_server (delete_project rig_env ''b'' declared_rig) (ctl (to_server rig_server) rig_world [''down'', ''-p'', ''b''] declared_rig)
   \<and> tells rig_server (put_project rig_env ''b'' \<lparr>prjCompose = ''a=img'', prjDir = ''/srv/app''\<rparr> declared_rig)
       (ctl (to_server rig_server) rig_world [''up'', ''-p'', ''b'', ''-f'', ''compose.yml''] declared_rig)"
proof -
  let ?t = "\<lparr>tgName = ''b'', tgDir = ''/srv/app'', tgFile = ''a=img''\<rparr>"
  have u: "resolve_target rig_world (no_pf\<lparr>pfProject := ''b'', pfFile := ''compose.yml''\<rparr>) False = Inr ?t"
    and d: "resolve_target rig_world (no_pf\<lparr>pfProject := ''b''\<rparr>) True = Inr ?t" by code_simp+
  have l: "length (tgFile ?t) \<le> maxBody" by (simp add: maxBody_def)
  have "path_name ''b''" by (simp add: path_name_def)
  from ctl_does [OF this, of rig_server declared_rig rig_world ?t "''compose.yml''"] u d l show ?thesis by simp
qed

section \<open>Exit codes\<close>

lemma fetch_answer: "fetch net n again rq s = (Inr r, s') \<Longrightarrow> \<exists>rq0 s0. net rq0 s0 = (Inr r, s')"
proof (induction n arbitrary: rq s)
  case 0
  then show ?case by (subst (asm) fetch.simps) (auto split: prod.splits sum.splits option.splits)
next
  case (Suc n)
  then show ?case by (subst (asm) fetch.simps) (auto simp del: fetch.simps split: prod.splits sum.splits option.splits)
qed

lemma failed_code: "command w a = Failed e code \<Longrightarrow> code = 1 \<or> code = 2"
  by (auto simp: command_def named_def up_down_def apply_file_def readFile_def logs_command_def Let_def
      split: list.splits if_splits option.splits sum.splits prod.splits)

text \<open>
  The exit codes. Over any connection, a command exits with 0, 1 or 2. Exit code 2 says that nothing
  was sent: the other end is as it was. Exit code 0 says that the other end answered, at last with a
  code below 300: a connection that only fails or refuses never gives it.
\<close>

theorem ctl_exit_codes:
  assumes "ctl dial w args s = (out, s')"
  shows "clCode out \<le> 2 \<and> (clCode out = 2 \<longrightarrow> s' = s)
    \<and> (clCode out = 0 \<longrightarrow> (\<exists>socket rq s0 r. dial socket rq s0 = (Inr r, s') \<and> rsCode r < 300))"
proof -
  obtain socket p where p: "ctl_plan w args = (socket, p)" by fastforce
  show ?thesis
  proof (cases p)
    case Usage
    then show ?thesis using assms p by (auto simp: ctl_def)
  next
    case (Failed e code)
    then have "code = 1 \<or> code = 2" using p failed_code by (auto simp: ctl_plan_def split: option.splits prod.splits)
    then show ?thesis using assms p Failed by (auto simp: ctl_def)
  next
    case (Send m url body again how)
    then have c: "client_do (dial socket) print_as m url body again how s = (out, s')" using assms p by (simp add: ctl_def)
    show ?thesis
    proof (cases "request_of m url body")
      case (Some rq)
      obtain a s1 where a: "fetch (dial socket) 9 again rq s = (a, s1)" by fastforce
      show ?thesis
      proof (cases a)
        case (Inr r)
        obtain rq0 s0 where d: "dial socket rq0 s0 = (Inr r, s1)" using fetch_answer [OF a [unfolded Inr]] by blast
        have x: "s' = s1 \<and> clCode out \<le> 1 \<and> (clCode out = 0 \<longrightarrow> rsCode r < 300)"
          using c Some a Inr by (auto simp: client_do_def simp del: fetch.simps split: if_splits sum.splits)
        have "clCode out = 0 \<longrightarrow> (\<exists>socket rq s0 r. dial socket rq s0 = (Inr r, s') \<and> rsCode r < 300)"
          using x d by blast
        moreover have "clCode out \<le> 2" "clCode out \<noteq> 2" using x by simp_all
        ultimately show ?thesis by blast
      qed (use c Some a in \<open>auto simp: client_do_def simp del: fetch.simps\<close>)
    qed (use c in \<open>auto simp: client_do_def\<close>)
  qed
qed

lemma ctl_exit_codes_witness:
  "clCode (fst (ctl (\<lambda>socket rq (n::nat). (Inl ''connection refused'', n)) rig_world [''--socket'', ''/s'', ''list''] 0)) \<le> 2"
  using ctl_exit_codes [of "\<lambda>socket rq n. (Inl ''connection refused'', n)" rig_world "[''--socket'', ''/s'', ''list'']" "0 :: nat"]
  by (metis prod.collapse)

end
