(* ===== verification/Check.thy ===== *)
theory Check
  imports CtlPromises ComposeLoad
begin

text \<open>
  \<open>check.go\<close> and the parts of \<open>main.go\<close> that decide: \<open>compose check\<close>, which holds a Compose file to the
  rules of the daemon without one, the choice of what the program runs as, and the boot time read from
  \<open>/proc/stat\<close>. A check says what the daemon would (\<open>check_agrees\<close>).
\<close>

section \<open>compose check\<close>

definition defaultVolumes :: string where "defaultVolumes = ''/mica/volumes''"

record check_flags = project_flags +
  cfVolumes :: string

definition cf_flags :: "check_flags flags" where
  "cf_flags = pf_flags @ [(''volumes'', str_flag cfVolumes_update)]"

definition no_cf :: check_flags where
  "no_cf = \<lparr>pfProject = [], pfFile = [], pfDir = [], cfVolumes = defaultVolumes\<rparr>"

definition write_json :: "json \<Rightarrow> string" where
  "write_json j = marshal_indent j @ [CHR 0x0A]"

definition refused_json :: "(detail \<Rightarrow> string) \<Rightarrow> problem list \<Rightarrow> json" where
  "refused_json words ps = JObj [(''detail'', JStr (error_string words ps)), (''error'', JStr ''compose''),
     (''problems'', JArr (map (problem_json words) ps))]"

definition checkUsage :: string where
  "checkUsage = raw_text
   [''usage: mica-containerd compose check [-p NAME] [-f FILE | FILE] [--project-dir DIR] [--volumes DIR]'',
    '''',
    ''  FILE is a Compose file, - for stdin; without one, the first of compose.yaml,'',
    ''  compose.yml, docker-compose.yaml and docker-compose.yml in the working directory.'',
    ''  The project directory, of relative host paths, is FILE's directory; for stdin,'',
    ''  the volumes directory/NAME, as the daemon takes a project declared without'',
    ''  one. NAME defaults to the file's name key, else the name of FILE's directory'',
    ''  or the working directory. Exit 0 and the containers it becomes on stdout, 1 and the'',
    ''  refusal on stderr, 2 on a usage error.'']"

definition check_usage :: cli where
  "check_usage = \<lparr>clCode = 2, clOut = [], clErr = checkUsage\<rparr>"

text \<open>\<open>None\<close> is a check that does not return (\<open>ComposeLoad.load_ends\<close>: there is none).\<close>

definition check_target :: "lib \<Rightarrow> fs \<Rightarrow> (detail \<Rightarrow> string) \<Rightarrow> check_flags \<Rightarrow> target \<Rightarrow> cli option" where
  "check_target L F words f t =
     (let dir = (if pfFile f = ''-'' \<and> pfDir f = [] then Dir (cfVolumes f) (tgName t) else tgDir t) in
      map_option (\<lambda>r. case r of
          Inl ps \<Rightarrow> \<lparr>clCode = 1, clOut = [], clErr = write_json (refused_json words ps)\<rparr>
        | Inr specs \<Rightarrow> \<lparr>clCode = 0, clOut = write_json (JObj [(''containers'', JArr (map spec_json specs)),
              (''project'', JStr (tgName t)), (''projectDir'', JStr dir)]), clErr = []\<rparr>)
        (load L F (tgName t) (tgFile t) dir (cfVolumes f)))"

definition composeCheck :: "lib \<Rightarrow> fs \<Rightarrow> (detail \<Rightarrow> string) \<Rightarrow> world \<Rightarrow> string list \<Rightarrow> cli option" where
  "composeCheck L F words w args = (case parse_flags cf_flags args no_cf of
     None \<Rightarrow> Some check_usage
   | Some (f, left) \<Rightarrow>
       if length left > 1 \<or> length left = 1 \<and> pfFile f \<noteq> [] then Some check_usage
       else let f = (case left of [p] \<Rightarrow> f\<lparr>pfFile := p\<rparr> | _ \<Rightarrow> f) in
         (case resolve_target w f False of
            Inl e \<Rightarrow> Some \<lparr>clCode = 2, clOut = [], clErr = ''compose check: '' @ e @ [CHR 0x0A]\<rparr>
          | Inr t \<Rightarrow> check_target L F words f t))"

section \<open>The check and the daemon\<close>

text \<open>What the daemon loads a project with: \<open>compose.Load\<close> and its own volumes directory.\<close>

definition compose_loader :: "lib \<Rightarrow> fs \<Rightarrow> string \<Rightarrow> string \<Rightarrow> project \<Rightarrow> sup_error + spec list" where
  "compose_loader L F volumes name p = (case load L F name (prjCompose p) (prjDir p) volumes of
     None \<Rightarrow> Inl (EOther ''does not return'') | Some (Inl ps) \<Rightarrow> Inl (ECompose ps) | Some (Inr specs) \<Rightarrow> Inr specs)"

lemma cf_lookup: "map_of cf_flags ''p'' = Some (str_flag pfProject_update)" "map_of cf_flags ''f'' = Some (str_flag pfFile_update)"
  by (simp_all add: cf_flags_def pf_flags_def)

lemma check_parse: "parse_flags cf_flags [''-p'', n, ''-f'', f] no_cf = Some (no_cf\<lparr>pfProject := n, pfFile := f\<rparr>, [])"
  using parse_valued(1) [of "''p''" cf_flags "\<lambda>v r. Some (r\<lparr>pfProject := v\<rparr>)" n "[''-f'', f]" no_cf]
    parse_valued(1) [of "''f''" cf_flags "\<lambda>v r. Some (r\<lparr>pfFile := v\<rparr>)" f "[]" "no_cf\<lparr>pfProject := n\<rparr>"] cf_lookup
  by (simp add: flag_name_def str_flag_def)

lemma resolve_fields:
  "pfProject f = pfProject g \<Longrightarrow> pfFile f = pfFile g \<Longrightarrow> pfDir f = pfDir g \<Longrightarrow> resolve_target w f b = resolve_target w g b"
  unfolding resolve_target_def by (simp only:)

text \<open>
  C38: \<open>compose check\<close> says what the daemon says. For a file the daemon would load with the same volumes
  directory, a check exits with 0 or 1. When it exits with 1, then \<open>ctl up\<close> of the same file
  under the same name exits with 1 and prints, byte for byte, the same problems, and the daemon is as it
  was; when it exits with 0, the daemon takes the file to the containers the check prints.
\<close>

theorem check_agrees:
  assumes "envLoad (srvEnv S) = compose_loader L F defaultVolumes" and "path_name n" and "f \<noteq> ''-''"
    and "resolve_target w (no_pf\<lparr>pfProject := n, pfFile := f\<rparr>) False = Inr t" and "length (tgFile t) \<le> maxBody"
    and "composeCheck L F (srvWords S) w [''-p'', n, ''-f'', f] = Some out"
  shows "(clCode out = 1 \<longrightarrow> ctl (to_server S) w [''up'', ''-p'', n, ''-f'', f] s = (out, s))
    \<and> (clCode out = 0 \<longrightarrow> (\<exists>specs. envLoad (srvEnv S) n \<lparr>prjCompose = tgFile t, prjDir = tgDir t\<rparr> = Inr specs
          \<and> clOut out = write_json (JObj [(''containers'', JArr (map spec_json specs)), (''project'', JStr n), (''projectDir'', JStr (tgDir t))])))
    \<and> (clCode out = 0 \<or> clCode out = 1)"
proof -
  let ?f = "no_cf\<lparr>pfProject := n, pfFile := f\<rparr>"
  have r: "resolve_target w ?f False = Inr t"
    using assms(4) resolve_fields [of ?f "no_pf\<lparr>pfProject := n, pfFile := f\<rparr>" w False] by (simp add: no_cf_def no_pf_def)
  have n: "tgName t = n" using resolved_name [OF assms(4)] assms(2) by (simp add: path_name_def no_pf_def)
  have out: "check_target L F (srvWords S) ?f t = Some out"
    using assms(6) r by (simp add: composeCheck_def check_parse)
  then obtain x where l: "load L F n (tgFile t) (tgDir t) defaultVolumes = Some x"
    using assms(3) n by (auto simp: check_target_def Let_def no_cf_def)
  show ?thesis
  proof (cases x)
    case (Inl ps)
    have o: "out = \<lparr>clCode = 1, clOut = [], clErr = write_json (refused_json (srvWords S) ps)\<rparr>"
      using out l Inl assms(3) n by (simp add: check_target_def Let_def no_cf_def)
    have "put_project (srvEnv S) n \<lparr>prjCompose = tgFile t, prjDir = tgDir t\<rparr> s = (Some (ECompose ps), s)"
      using l Inl by (simp add: put_project_def assms(1) compose_loader_def)
    moreover have "tells S (put_project (srvEnv S) n \<lparr>prjCompose = tgFile t, prjDir = tgDir t\<rparr> s)
        (ctl (to_server S) w [''up'', ''-p'', n, ''-f'', f] s)"
      using up_told [OF assms(2,4,5)] .
    ultimately have "ctl (to_server S) w [''up'', ''-p'', n, ''-f'', f] s
        = (\<lparr>clCode = 1, clOut = [], clErr = rsBody (fail_for S (ECompose ps))\<rparr>, s)"
      by (simp add: tells_def prod_eq_iff)
    then show ?thesis using o by (simp add: fail_for_def reply_def write_json_def refused_json_def)
  next
    case (Inr specs)
    then show ?thesis using out l assms(1,3) n
      by (auto simp: check_target_def compose_loader_def Let_def no_cf_def)
  qed
qed

text \<open>A name that is no project name is refused by both.\<close>

definition deaf_lib :: lib where
  "deaf_lib = \<lparr>lbYaml = (\<lambda>_. Inl ''bad''), lbApplied = (\<lambda>s. Inr (s, False)), lbSubstitute = (\<lambda>r. r), lbLoad = (\<lambda>_ _ _ _. Inr [])\<rparr>"

definition compose_rig :: "(mem, fake \<times> call list) server" where
  "compose_rig = rig_server\<lparr>srvEnv := rig_env\<lparr>envLoad := compose_loader deaf_lib link_fs defaultVolumes\<rparr>\<rparr>"

lemma check_agrees_witness:
  "\<exists>out. composeCheck deaf_lib link_fs (srvWords compose_rig) rig_world [''-p'', ''UP'', ''-f'', ''compose.yml''] = Some out \<and> clCode out = 1
     \<and> ctl (to_server compose_rig) rig_world [''up'', ''-p'', ''UP'', ''-f'', ''compose.yml''] declared_rig = (out, declared_rig)"
proof -
  let ?f = "no_cf\<lparr>pfProject := ''UP'', pfFile := ''compose.yml''\<rparr>"
  let ?t = "\<lparr>tgName = ''UP'', tgDir = ''/srv/app'', tgFile = ''a=img''\<rparr>"
  have r: "resolve_target rig_world (no_pf\<lparr>pfProject := ''UP'', pfFile := ''compose.yml''\<rparr>) False = Inr ?t" by code_simp
  then have r': "resolve_target rig_world ?f False = Inr ?t"
    using resolve_fields [of ?f "no_pf\<lparr>pfProject := ''UP'', pfFile := ''compose.yml''\<rparr>" rig_world False] by (simp add: no_cf_def no_pf_def)
  have "\<not> ValidProject ''UP''" by code_simp
  then have l: "load deaf_lib link_fs ''UP'' ''a=img'' ''/srv/app'' defaultVolumes = Some (Inl (add [] ''name'' (ProjectName ''UP'')))"
    by (simp add: load_def err_def add_def)
  let ?out = "\<lparr>clCode = 1, clOut = [], clErr = write_json (refused_json (srvWords compose_rig) (add [] ''name'' (ProjectName ''UP'')))\<rparr>"
  have c: "composeCheck deaf_lib link_fs (srvWords compose_rig) rig_world [''-p'', ''UP'', ''-f'', ''compose.yml''] = Some ?out"
    using r' l by (simp add: composeCheck_def check_parse check_target_def) (simp add: no_cf_def)
  have e: "envLoad (srvEnv compose_rig) = compose_loader deaf_lib link_fs defaultVolumes" by (simp add: compose_rig_def)
  have n: "path_name ''UP''" "''compose.yml'' \<noteq> ''-''" by (simp_all add: path_name_def)
  have b: "length (tgFile ?t) \<le> maxBody" by (simp add: maxBody_def)
  from check_agrees [OF e n r b c, of declared_rig] c show ?thesis by auto
qed

section \<open>main\<close>

text \<open>What the program runs as, by the arguments after its name.\<close>

datatype mode_of_run = RunCtl "string list" | RunCheck "string list" | RunDaemon "string list"

definition main_mode :: "string list \<Rightarrow> mode_of_run" where
  "main_mode args = (case args of
     a # rest \<Rightarrow> if a = ''ctl'' then RunCtl rest
       else (case rest of b # rest' \<Rightarrow> if a = ''compose'' \<and> b = ''check'' then RunCheck rest' else RunDaemon args
         | [] \<Rightarrow> RunDaemon args)
   | [] \<Rightarrow> RunDaemon args)"

text \<open>\<open>readBootTime\<close>: the first line that begins with \<open>btime\<close> decides.\<close>

fun boot_line :: "string list \<Rightarrow> string option" where
  "boot_line [] = None"
| "boot_line (l # ls) = (case cut_prefix l ''btime '' of Some v \<Rightarrow> Some v | None \<Rightarrow> boot_line ls)"

definition readBootTime :: "(string \<Rightarrow> string + string) \<Rightarrow> string \<Rightarrow> string + time" where
  "readBootTime read_file path = (case read_file path of
     Inl e \<Rightarrow> Inl e
   | Inr b \<Rightarrow> (case boot_line (split_on (CHR 0x0A) b) of
       None \<Rightarrow> Inl (path @ '' has no btime line'')
     | Some v \<Rightarrow> (case parse_int 64 (trim_space v) of
         None \<Rightarrow> Inl (path @ '': btime '' @ v) | Some n \<Rightarrow> Inr (unix n))))"

text \<open>The boot time the kernel writes is the one that is read, whatever other lines there are.\<close>

lemma boot_line_found:
  assumes "list_all (\<lambda>l. CHR 0x0A \<notin> set l \<and> \<not> has_prefix l ''btime '') earlier" and "CHR 0x0A \<notin> set v"
  shows "boot_line (split_on (CHR 0x0A) (concat (map (\<lambda>l. l @ [CHR 0x0A]) earlier) @ ''btime '' @ v @ CHR 0x0A # after)) = Some v"
  using assms(1)
proof (induction earlier)
  case Nil
  have "split_on (CHR 0x0A) ((''btime '' @ v) @ CHR 0x0A # after) = (''btime '' @ v) # split_on (CHR 0x0A) after"
    by (rule split_on_append) (use assms(2) in auto)
  then show ?case by (simp add: cut_prefix_def has_prefix_def)
next
  case (Cons l ls)
  then have l: "CHR 0x0A \<notin> set l" "\<not> has_prefix l ''btime ''" by auto
  show ?case using Cons split_on_append [OF l(1)] l(2) by (simp add: cut_prefix_def)
qed

lemma show_int_trimmed: "0 \<le> n \<Longrightarrow> trim_space (show_int n) = show_int n"
proof (rule trim_space_trimmed)
  assume n: "0 \<le> n"
  have digits: "space_at rs s = None" if "s \<noteq> []" "list_all is_digit s" "list_all (\<lambda>r. r \<noteq> [] \<and> \<not> is_digit (hd r)) rs" for rs s
    using that by (cases s) (auto simp: space_at_def find_None_iff list_all_iff has_prefix_iff Cons_eq_append_conv)
  have d: "list_all is_digit (show_nat (nat n))" using show_nat_digits by (simp add: list_all_iff)
  have "list_all (\<lambda>r. r \<noteq> [] \<and> \<not> is_digit (hd r)) space_runes" "list_all (\<lambda>r. r \<noteq> [] \<and> \<not> is_digit (hd r)) (map rev space_runes)"
    by code_simp+
  then show "trimmed (show_int n)"
    using digits [of "show_nat (nat n)"] digits [of "rev (show_nat (nat n))"] d n by (simp add: trimmed_def show_int_def)
qed

lemma boot_time_read:
  assumes "read_file path = Inr (concat (map (\<lambda>l. l @ [CHR 0x0A]) earlier) @ ''btime '' @ show_int n @ CHR 0x0A # after)"
    and "list_all (\<lambda>l. CHR 0x0A \<notin> set l \<and> \<not> has_prefix l ''btime '') earlier" and "0 \<le> n" and "n \<le> max_int64"
  shows "readBootTime read_file path = Inr (unix n)"
proof -
  have "CHR 0x0A \<notin> set (show_int n)" using show_nat_not_in assms(3) by (simp add: show_int_def is_digit_def)
  note boot_line_found [OF assms(2) this]
  then show ?thesis using assms parse_int_show [of 64 n]
    by (simp add: readBootTime_def show_int_trimmed max_int64_def)
qed

end
