(* ===== verification/Disk.thy ===== *)
theory Disk
  imports Prelude
begin

text \<open>
  The file system under the store: what the calls of package \<open>os\<close> the store makes do to a directory and to
  the files in it, what is on the disk for certain, and what a power loss may leave. Any call may fail.
\<close>

section \<open>Files and directories\<close>

text \<open>
  A file is its bytes, and whether they are known to be on the disk. A directory names files; a directory
  that lies in it is empty or not.
\<close>

record inode =
  inData :: string
  inSynced :: bool

datatype dir_entry = FileEntry nat | DirEntry bool

type_synonym directory = "(string \<times> dir_entry) list"

text \<open>The store's directory, and \<open>projects\<close> in it.\<close>

datatype place = Top | Projects

text \<open>
  \<open>dkDirs\<close> has the versions of a directory a power loss may leave: the current one first, and those since it was
  last synced. \<open>dkFaults\<close> is how the calls to come fail, if they do: with an error's text (none of them is that a file is missing), and for a write after so many bytes;
  a call past its end succeeds. A power loss is the failure of every call after it. \<open>dkTemp\<close> is the
  random part of a temporary name, chosen by the names that are taken; \<open>dkUnreadable\<close> says which file
  cannot be read, the directory itself under no name.
\<close>

record disk =
  dkInodes :: "inode list"
  dkDirs :: "place \<Rightarrow> directory list"
  dkFaults :: "(string \<times> nat) option list"
  dkTemp :: "string list \<Rightarrow> string"
  dkUnreadable :: "place \<Rightarrow> string \<Rightarrow> string option"

definition current :: "place \<Rightarrow> disk \<Rightarrow> directory" where
  "current p d = (case dkDirs d p of [] \<Rightarrow> [] | v # _ \<Rightarrow> v)"

definition set_directory :: "place \<Rightarrow> directory \<Rightarrow> disk \<Rightarrow> disk" where
  "set_directory p v d = d\<lparr>dkDirs := (dkDirs d)(p := v # dkDirs d p)\<rparr>"

definition set_inode :: "nat \<Rightarrow> inode \<Rightarrow> disk \<Rightarrow> disk" where
  "set_inode i x d = d\<lparr>dkInodes := (dkInodes d)[i := x]\<rparr>"

section \<open>Calls\<close>

text \<open>How the next call fails, if it does.\<close>

definition next_fault :: "disk \<Rightarrow> (string \<times> nat) option \<times> disk" where
  "next_fault d = (case dkFaults d of [] \<Rightarrow> (None, d) | f # fs \<Rightarrow> (f, d\<lparr>dkFaults := fs\<rparr>))"

text \<open>A call that fails and does nothing, or does what it is for.\<close>

definition fallible :: "(disk \<Rightarrow> fs_error option \<times> disk) \<Rightarrow> disk \<Rightarrow> fs_error option \<times> disk" where
  "fallible f d = (case next_fault d of (Some (e, _), d') \<Rightarrow> (Some (FsError e), d') | (None, d') \<Rightarrow> f d')"

text \<open>\<open>os.CreateTemp\<close>: a new empty file, its name and its inode.\<close>

definition create_temp :: "place \<Rightarrow> string \<Rightarrow> disk \<Rightarrow> (fs_error + string \<times> nat) \<times> disk" where
  "create_temp p prefix d = (case next_fault d of (Some (e, _), d') \<Rightarrow> (Inl (FsError e), d')
     | (None, d') \<Rightarrow>
       (let name = prefix @ dkTemp d' (map fst (current p d')); i = length (dkInodes d') in
        if has_key (current p d') name then (Inl (FsError ''file exists''), d')
        else (Inr (name, i), set_directory p (mput name (FileEntry i) (current p d'))
               (d'\<lparr>dkInodes := dkInodes d' @ [\<lparr>inData = [], inSynced = False\<rparr>]\<rparr>))))"

definition write_file :: "nat \<Rightarrow> string \<Rightarrow> disk \<Rightarrow> fs_error option \<times> disk" where
  "write_file i b d = (case next_fault d of
       (Some (e, n), d') \<Rightarrow> (Some (FsError e), set_inode i \<lparr>inData = inData (dkInodes d' ! i) @ take n b, inSynced = False\<rparr> d')
     | (None, d') \<Rightarrow> (None, set_inode i \<lparr>inData = inData (dkInodes d' ! i) @ b, inSynced = False\<rparr> d'))"

definition sync_inode :: "nat \<Rightarrow> disk \<Rightarrow> fs_error option \<times> disk" where
  "sync_inode i d = (None, set_inode i ((dkInodes d ! i)\<lparr>inSynced := True\<rparr>) d)"

definition sync_file :: "nat \<Rightarrow> disk \<Rightarrow> fs_error option \<times> disk" where
  "sync_file i = fallible (sync_inode i)"

definition close_file :: "disk \<Rightarrow> fs_error option \<times> disk" where
  "close_file = fallible (Pair None)"

definition rename_entry :: "place \<Rightarrow> string \<Rightarrow> string \<Rightarrow> disk \<Rightarrow> fs_error option \<times> disk" where
  "rename_entry p old new d = (case (map_of (current p d) old, map_of (current p d) new) of
       (None, _) \<Rightarrow> (Some NotExist, d)
     | (_, Some (DirEntry _)) \<Rightarrow> (Some (FsError ''is a directory''), d)
     | (Some x, _) \<Rightarrow> (None, set_directory p (mput new x (mdel old (current p d))) d))"

definition rename_file :: "place \<Rightarrow> string \<Rightarrow> string \<Rightarrow> disk \<Rightarrow> fs_error option \<times> disk" where
  "rename_file p old new = fallible (rename_entry p old new)"

definition remove_entry :: "place \<Rightarrow> string \<Rightarrow> disk \<Rightarrow> fs_error option \<times> disk" where
  "remove_entry p name d = (case map_of (current p d) name of
       None \<Rightarrow> (Some NotExist, d)
     | Some (DirEntry False) \<Rightarrow> (Some (FsError ''directory not empty''), d)
     | Some _ \<Rightarrow> (None, set_directory p (mdel name (current p d)) d))"

definition remove_file :: "place \<Rightarrow> string \<Rightarrow> disk \<Rightarrow> fs_error option \<times> disk" where
  "remove_file p name = fallible (remove_entry p name)"

text \<open>\<open>os.Open\<close> of a directory, and its \<open>Sync\<close>.\<close>

definition sync_entries :: "place \<Rightarrow> disk \<Rightarrow> fs_error option \<times> disk" where
  "sync_entries p d = (None, d\<lparr>dkDirs := (dkDirs d)(p := [current p d])\<rparr>)"

definition sync_directory :: "place \<Rightarrow> disk \<Rightarrow> fs_error option \<times> disk" where
  "sync_directory p d = and_then (fallible (Pair None) d) (fallible (sync_entries p))"

text \<open>\<open>os.ReadDir\<close>, sorted by name, and \<open>os.ReadFile\<close>.\<close>

definition read_dir :: "place \<Rightarrow> disk \<Rightarrow> fs_error + (string \<times> dir_entry) list" where
  "read_dir p d = (case dkUnreadable d p [] of Some e \<Rightarrow> Inl (FsError e)
     | None \<Rightarrow> Inr (sorted_entries (current p d)))"

definition read_file :: "place \<Rightarrow> string \<Rightarrow> disk \<Rightarrow> fs_error + string" where
  "read_file p name d = (case dkUnreadable d p name of Some e \<Rightarrow> Inl (FsError e)
     | None \<Rightarrow> (case map_of (current p d) name of
         None \<Rightarrow> Inl NotExist
       | Some (DirEntry _) \<Rightarrow> Inl (FsError ''is a directory'')
       | Some (FileEntry i) \<Rightarrow> Inr (inData (dkInodes d ! i))))"

section \<open>Power loss\<close>

text \<open>
  What a power loss leaves: of each directory one of the versions since it was last synced, of each file
  its bytes when they were synced and any bytes otherwise.
\<close>

definition crashed :: "disk \<Rightarrow> disk \<Rightarrow> bool" where
  "crashed d d' \<longleftrightarrow> (\<forall>p. \<exists>v \<in> set (dkDirs d p). dkDirs d' p = [v])
     \<and> length (dkInodes d') = length (dkInodes d)
     \<and> (\<forall>i < length (dkInodes d). inSynced (dkInodes d' ! i)
          \<and> (inSynced (dkInodes d ! i) \<longrightarrow> inData (dkInodes d' ! i) = inData (dkInodes d ! i)))"

end
