(* ===== verification/Store.thy ===== *)
theory Store
  imports Disk SpecJson Strconv Validate
begin

text \<open>
  \<open>store/store.go\<close>: the declarations on the disk. A container's record is the file \<open><name>.json\<close>, a project the
  files \<open><name>.yaml\<close> and \<open><name>.dir\<close> under \<open>projects/\<close>. A writing operation gives its error, if any, and the
  disk; the directories exist, for \<open>Open\<close> made them.
\<close>

definition json_suffix :: string where "json_suffix = ''.json''"
definition boot_file :: string where "boot_file = ''boot-id''"
definition project_suffix :: string where "project_suffix = ''.yaml''"
definition dir_suffix :: string where "dir_suffix = ''.dir''"

lemmas store_consts = json_suffix_def boot_file_def project_suffix_def dir_suffix_def

text \<open>The errors of the writing operations.\<close>

datatype store_failure = NotAContainerName string | NotAProjectName string | Io fs_error

section \<open>A file written and removed\<close>

text \<open>\<open>f.Close\<close> on the way out of a step that failed.\<close>

definition or_close :: "fs_error option \<times> disk \<Rightarrow> fs_error option \<times> disk" where
  "or_close m = (case m of (Some e, d) \<Rightarrow> (Some e, snd (close_file d)) | (None, d) \<Rightarrow> (None, d))"

text \<open>The steps between the temporary file and the deferred removal of it.\<close>

definition fill_and_rename :: "place \<Rightarrow> string \<Rightarrow> string \<Rightarrow> string \<Rightarrow> nat \<Rightarrow> disk \<Rightarrow> fs_error option \<times> disk" where
  "fill_and_rename p name b tmp i d =
     and_then (or_close (write_file i b d)) (\<lambda>d.
     and_then (or_close (sync_file i d)) (\<lambda>d.
     and_then (close_file d) (\<lambda>d.
     and_then (rename_file p tmp name d) (sync_directory p))))"

definition store_write :: "place \<Rightarrow> string \<Rightarrow> string \<Rightarrow> disk \<Rightarrow> fs_error option \<times> disk" where
  "store_write p name b d = (case create_temp p (''.'' @ name @ ''.'') d of
       (Inl e, d) \<Rightarrow> (Some e, d)
     | (Inr (tmp, i), d) \<Rightarrow> (case fill_and_rename p name b tmp i d of (r, d) \<Rightarrow> (r, snd (remove_file p tmp d))))"

definition store_remove :: "place \<Rightarrow> string \<Rightarrow> disk \<Rightarrow> fs_error option \<times> disk" where
  "store_remove p name d = (case remove_file p name d of
       (Some e, d) \<Rightarrow> if e = NotExist then (None, d) else (Some e, d)
     | (None, d) \<Rightarrow> sync_directory p d)"

text \<open>A result of the disk as one of the store.\<close>

definition io :: "fs_error option \<times> disk \<Rightarrow> store_failure option \<times> disk" where
  "io = map_prod (map_option Io) id"

section \<open>Records\<close>

definition store_put :: "store_record \<Rightarrow> disk \<Rightarrow> store_failure option \<times> disk" where
  "store_put r d = (if \<not> ValidName (sName (recSpec r)) then (Some (NotAContainerName (sName (recSpec r))), d)
     else io (store_write Top (sName (recSpec r) @ json_suffix) (record_text r) d))"

definition store_delete :: "string \<Rightarrow> disk \<Rightarrow> store_failure option \<times> disk" where
  "store_delete name d = (if \<not> ValidName name then (Some (NotAContainerName name), d)
     else io (store_remove Top (name @ json_suffix) d))"

text \<open>Why \<open>Load\<close> leaves a file alone.\<close>

datatype bad_file = Unparsed | NamesOther string | NotValid spec_error | NoState string

definition load_record :: "string \<Rightarrow> string \<Rightarrow> bad_file + store_record" where
  "load_record name b = (case read_record b of None \<Rightarrow> Inl Unparsed | Some r \<Rightarrow>
     if sName (recSpec r) \<noteq> name then Inl (NamesOther (sName (recSpec r)))
     else case validate (recSpec r) of Some e \<Rightarrow> Inl (NotValid e) | None \<Rightarrow>
     if recDesired r \<noteq> Running \<and> recDesired r \<noteq> Stopped then Inl (NoState (recDesired r)) else Inr r)"

fun is_dir :: "dir_entry \<Rightarrow> bool" where
  "is_dir (DirEntry _) = True"
| "is_dir (FileEntry _) = False"

text \<open>The loop of \<open>Load\<close> over the entries, with \<open>records\<close> and \<open>bad\<close> so far.\<close>

fun load_entries :: "disk \<Rightarrow> directory \<Rightarrow> (string \<times> store_record) list \<Rightarrow> (string \<times> bad_file) list
    \<Rightarrow> fs_error + (string \<times> store_record) list \<times> (string \<times> bad_file) list" where
  "load_entries d [] records bad = Inr (records, bad)"
| "load_entries d ((file, x) # es) records bad = (case cut_suffix file json_suffix of
       None \<Rightarrow> load_entries d es records bad
     | Some name \<Rightarrow> if is_dir x \<or> has_prefix file ''.'' then load_entries d es records bad
       else case read_file Top file d of Inl e \<Rightarrow> Inl e
     | Inr b \<Rightarrow> (case load_record name b of
         Inl why \<Rightarrow> load_entries d es records (bad @ [(file, why)])
       | Inr r \<Rightarrow> load_entries d es (mput name r records) bad))"

definition store_load :: "disk \<Rightarrow> fs_error + (string \<times> store_record) list \<times> (string \<times> bad_file) list" where
  "store_load d = (case read_dir Top d of Inl e \<Rightarrow> Inl e | Inr es \<Rightarrow> load_entries d es [] [])"

section \<open>The boot\<close>

definition store_boot_id :: "disk \<Rightarrow> fs_error + string" where
  "store_boot_id d = (case read_file Top boot_file d of
     Inl e \<Rightarrow> if e = NotExist then Inr [] else Inl e | Inr b \<Rightarrow> Inr (trim_space b))"

definition store_set_boot_id :: "string \<Rightarrow> disk \<Rightarrow> store_failure option \<times> disk" where
  "store_set_boot_id ident d = io (store_write Top boot_file (ident @ [CHR 0x0A]) d)"

section \<open>Projects\<close>

fun projects_of :: "disk \<Rightarrow> directory \<Rightarrow> (string \<times> project) list \<Rightarrow> fs_error + (string \<times> project) list" where
  "projects_of d [] projs = Inr projs"
| "projects_of d ((file, x) # es) projs = (case cut_suffix file project_suffix of
       None \<Rightarrow> projects_of d es projs
     | Some name \<Rightarrow> if is_dir x \<or> has_prefix file ''.'' \<or> \<not> ValidName name then projects_of d es projs
       else case read_file Projects file d of Inl e \<Rightarrow> Inl e
     | Inr b \<Rightarrow> (case read_file Projects (name @ dir_suffix) d of
         Inl e \<Rightarrow> if e \<noteq> NotExist then Inl e
           else projects_of d es (mput name \<lparr>prjCompose = b, prjDir = trim_space []\<rparr> projs)
       | Inr t \<Rightarrow> projects_of d es (mput name \<lparr>prjCompose = b, prjDir = trim_space t\<rparr> projs)))"

definition store_projects :: "disk \<Rightarrow> fs_error + (string \<times> project) list" where
  "store_projects d = (case read_dir Projects d of Inl e \<Rightarrow> Inl e | Inr es \<Rightarrow> projects_of d es [])"

definition store_put_project :: "string \<Rightarrow> project \<Rightarrow> disk \<Rightarrow> store_failure option \<times> disk" where
  "store_put_project name p d = (if \<not> ValidName name then (Some (NotAProjectName name), d)
     else and_then (if prjDir p = [] then io (store_remove Projects (name @ dir_suffix) d)
         else io (store_write Projects (name @ dir_suffix) (prjDir p @ [CHR 0x0A]) d))
       (\<lambda>d. io (store_write Projects (name @ project_suffix) (prjCompose p) d)))"

definition store_delete_project :: "string \<Rightarrow> disk \<Rightarrow> store_failure option \<times> disk" where
  "store_delete_project name d = (if \<not> ValidName name then (Some (NotAProjectName name), d)
     else and_then (io (store_remove Projects (name @ project_suffix) d))
       (\<lambda>d. io (store_remove Projects (name @ dir_suffix) d)))"

section \<open>The store of the supervisor\<close>

text \<open>The operations as the supervisor calls them, over the text of each error.\<close>

definition disk_store :: "(store_failure \<Rightarrow> string) \<Rightarrow> (string \<times> bad_file \<Rightarrow> string) \<Rightarrow> disk store_ops" where
  "disk_store text bad_text =
     \<lparr>stPut = (\<lambda>r d. map_prod (map_option text) id (store_put r d)),
      stDelete = (\<lambda>n d. map_prod (map_option text) id (store_delete n d)),
      stPutProject = (\<lambda>n p d. map_prod (map_option text) id (store_put_project n p d)),
      stDeleteProject = (\<lambda>n d. map_prod (map_option text) id (store_delete_project n d)),
      stSetBootID = (\<lambda>i d. map_prod (map_option text) id (store_set_boot_id i d)),
      stLoad = (\<lambda>d. map_sum (\<lambda>e. text (Io e)) (map_prod id (map bad_text)) (store_load d)),
      stProjects = (\<lambda>d. map_sum (\<lambda>e. text (Io e)) id (store_projects d)),
      stBootID = (\<lambda>d. map_sum (\<lambda>e. text (Io e)) id (store_boot_id d))\<rparr>"

section \<open>A disk\<close>

definition empty_disk :: disk where
  "empty_disk = \<lparr>dkInodes = [], dkDirs = (\<lambda>p. [if p = Top then [(''projects'', DirEntry True)] else []]), dkFaults = [],
     dkTemp = (\<lambda>_. ''1''), dkUnreadable = (\<lambda>_ _. None)\<rparr>"

lemma boot_id_kept: "store_boot_id (snd (store_set_boot_id ''3f2a'' empty_disk)) = Inr ''3f2a''"
  by code_simp

text \<open>A project directory that ends in a space comes back without it.\<close>

lemma trailing_space_lost:
  "store_projects (snd (store_put_project ''web'' \<lparr>prjCompose = ''services: {}'', prjDir = ''/srv/web ''\<rparr> empty_disk))
   = Inr [(''web'', \<lparr>prjCompose = ''services: {}'', prjDir = ''/srv/web''\<rparr>)]"
  by code_simp

end
