(* ===== verification/StoreSafe.thy ===== *)
theory StoreSafe
  imports Store
begin

text \<open>
  What the store's files are under faults and a power loss: the invariant of the disk, that every operation keeps it, and that each
  file is written or removed as a whole.
\<close>

section \<open>Views\<close>

text \<open>
  A name that begins with a dot is a temporary file. What is left of a version of a directory is its view: the
  bytes of each other file.
\<close>

abbreviation dotted :: "string \<Rightarrow> bool" where
  "dotted n \<equiv> has_prefix n ''.''"

type_synonym view = "string \<rightharpoonup> string"

definition vis :: "disk \<Rightarrow> directory \<Rightarrow> view" where
  "vis d v = (\<lambda>n. if dotted n then None else (case map_of v n of
     Some (FileEntry i) \<Rightarrow> Some (inData (dkInodes d ! i)) | _ \<Rightarrow> None))"

abbreviation view :: "disk \<Rightarrow> place \<Rightarrow> view" where
  "view d p \<equiv> vis d (current p d)"

abbreviation views :: "disk \<Rightarrow> place \<Rightarrow> view set" where
  "views d p \<equiv> vis d ` set (dkDirs d p)"

text \<open>The invariant: every file any version names is one, and its bytes are on the disk when it is not temporary.\<close>

definition safe_entry :: "disk \<Rightarrow> string \<Rightarrow> nat \<Rightarrow> bool" where
  "safe_entry d n i \<longleftrightarrow> i < length (dkInodes d) \<and> (\<not> dotted n \<longrightarrow> inSynced (dkInodes d ! i))"

definition safe :: "disk \<Rightarrow> bool" where
  "safe d \<longleftrightarrow> (\<forall>p. dkDirs d p \<noteq> [] \<and> (\<forall>v \<in> set (dkDirs d p). \<forall>n i. map_of v n = Some (FileEntry i) \<longrightarrow> safe_entry d n i))"

lemma vis_cong: "dkInodes d = dkInodes d' \<Longrightarrow> vis d = vis d'"
  by (intro ext) (simp add: vis_def split: option.split dir_entry.split)

lemma no_fault_matters [simp]:
  "vis (d\<lparr>dkFaults := fs\<rparr>) = vis d" "current p (d\<lparr>dkFaults := fs\<rparr>) = current p d"
  "safe (d\<lparr>dkFaults := fs\<rparr>) = safe d"
  by (rule vis_cong) (simp_all add: current_def safe_def safe_entry_def)

lemma current_in: "safe d \<Longrightarrow> current p d \<in> set (dkDirs d p)"
  by (cases "dkDirs d p") (auto simp: safe_def current_def)

lemma view_in: "safe d \<Longrightarrow> view d p \<in> views d p"
  by (simp add: current_in)

lemma current_set [simp]: "current p (set_directory p v d) = v" "q \<noteq> p \<Longrightarrow> current q (set_directory p v d) = current q d"
  by (simp_all add: current_def set_directory_def)

lemma next_fault_cases:
  obtains (fault) e n fs where "next_fault d = (Some (e, n), d\<lparr>dkFaults := fs\<rparr>)"
  | (fine) fs where "next_fault d = (None, d\<lparr>dkFaults := fs\<rparr>)"
proof (cases "dkFaults d")
  case Nil
  then have "d\<lparr>dkFaults := []\<rparr> = d" by (cases d) simp
  then show thesis using fine [of "[]"] Nil by (simp add: next_fault_def)
next
  case (Cons f fs)
  then show thesis using fault fine by (cases f) (auto simp: next_fault_def)
qed

lemma fallible_cases:
  obtains (fault) e fs where "fallible f d = (Some (FsError e), d\<lparr>dkFaults := fs\<rparr>)"
  | (fine) fs where "fallible f d = f (d\<lparr>dkFaults := fs\<rparr>)"
  by (rule next_fault_cases [of d]) (auto simp: fallible_def)

section \<open>Steps\<close>

text \<open>Two disks whose directories look the same, in every version.\<close>

definition same_views :: "disk \<Rightarrow> disk \<Rightarrow> bool" where
  "same_views d d' \<longleftrightarrow> safe d' \<and> (\<forall>p. views d' p = views d p \<and> view d' p = view d p)"

text \<open>A temporary file in the making: known under its name, and under no other that is seen.\<close>

definition hidden :: "disk \<Rightarrow> nat \<Rightarrow> bool" where
  "hidden d i \<longleftrightarrow> i < length (dkInodes d)
     \<and> (\<forall>p. \<forall>v \<in> set (dkDirs d p). \<forall>n. map_of v n = Some (FileEntry i) \<longrightarrow> dotted n)"

lemma vis_set_inode: "hidden d i \<Longrightarrow> v \<in> set (dkDirs d p) \<Longrightarrow> vis (set_inode i x d) v = vis d v"
  by (auto simp: vis_def set_inode_def hidden_def fun_eq_iff nth_list_update split: option.splits dir_entry.splits)

lemma set_inode_same:
  assumes "safe d" and "hidden d i"
  shows "same_views d (set_inode i x d) \<and> hidden (set_inode i x d) i"
proof -
  have s: "safe (set_inode i x d)"
    unfolding safe_def
  proof (intro allI conjI ballI impI)
    fix p v n j
    show "dkDirs (set_inode i x d) p \<noteq> []" using assms(1) by (simp add: safe_def set_inode_def)
    assume v: "v \<in> set (dkDirs (set_inode i x d) p)" "map_of v n = Some (FileEntry j)"
    then have "safe_entry d n j" using assms(1) by (auto simp: safe_def set_inode_def)
    moreover have "j = i \<longrightarrow> dotted n" using assms(2) v by (auto simp: hidden_def set_inode_def)
    ultimately show "safe_entry (set_inode i x d) n j" by (auto simp: safe_entry_def set_inode_def nth_list_update)
  qed
  have "views (set_inode i x d) p = views d p \<and> view (set_inode i x d) p = view d p" for p
  proof
    have c: "dkDirs (set_inode i x d) p = dkDirs d p" "current p (set_inode i x d) = current p d"
      by (simp_all add: set_inode_def current_def)
    show "views (set_inode i x d) p = views d p"
      unfolding c using vis_set_inode [OF assms(2)] by (intro image_cong) auto
    show "view (set_inode i x d) p = view d p"
      unfolding c using vis_set_inode [OF assms(2) current_in [OF assms(1)]] .
  qed
  then show ?thesis using s assms(2) by (auto simp: same_views_def hidden_def set_inode_def)
qed

lemma set_dotted_same:
  assumes "safe d" and "\<And>n. \<not> dotted n \<Longrightarrow> map_of v n = map_of (current p d) n"
    and "\<And>n i. dotted n \<Longrightarrow> map_of v n = Some (FileEntry i) \<Longrightarrow> i < length (dkInodes d)"
  shows "same_views d (set_directory p v d)"
proof -
  have v: "vis d v = view d p" using assms(2) by (auto simp: vis_def)
  have old: "map_of (current p d) n = Some (FileEntry i) \<Longrightarrow> safe_entry d n i" for n i
    using assms(1) current_in [OF assms(1), of p] by (auto simp: safe_def)
  have "safe_entry d n i" if "map_of v n = Some (FileEntry i)" for n i
    using that assms(2,3) [of n] old [of n i] by (cases "dotted n") (auto simp: safe_entry_def)
  then have "safe (set_directory p v d)"
    using assms(1) by (auto simp: safe_def set_directory_def safe_entry_def)
  moreover have "vis (set_directory p v d) = vis d" by (rule vis_cong) (simp add: set_directory_def)
  moreover have "views d p = insert (view d p) (views d p)" using view_in [OF assms(1)] by blast
  ultimately show ?thesis unfolding same_views_def using v
    by (auto simp: set_directory_def current_def)
qed

lemma same_views_trans: "same_views d d' \<Longrightarrow> same_views d' d'' \<Longrightarrow> same_views d d''"
  by (simp add: same_views_def)

lemma same_views_faults: "safe d \<Longrightarrow> same_views d (d\<lparr>dkFaults := fs\<rparr>)"
  by (simp add: same_views_def)

lemma add_inode_same:
  assumes "safe d"
  shows "same_views d (d\<lparr>dkInodes := dkInodes d @ [x]\<rparr>) \<and> hidden (d\<lparr>dkInodes := dkInodes d @ [x]\<rparr>) (length (dkInodes d))"
proof -
  let ?d = "d\<lparr>dkInodes := dkInodes d @ [x]\<rparr>"
  have e: "i < length (dkInodes d)" if "v \<in> set (dkDirs d p)" "map_of v n = Some (FileEntry i)" for v p n i
    using assms that by (auto simp: safe_def safe_entry_def)
  have vis: "vis ?d v = vis d v" if "v \<in> set (dkDirs d p)" for v p
    using e [OF that] by (auto simp: vis_def fun_eq_iff nth_append split: option.splits dir_entry.splits)
  have "safe ?d" using assms by (fastforce simp: safe_def safe_entry_def nth_append)
  moreover have "view ?d p = view d p" for p
    using vis [OF current_in [OF assms]] by (simp add: current_def)
  moreover have "views ?d p = views d p" for p
    using vis by (intro image_cong) auto
  ultimately show ?thesis using e by (fastforce simp: same_views_def hidden_def)
qed

section \<open>Writing a file\<close>

text \<open>The temporary file \<open>tmp\<close> has inode \<open>i\<close>, and nothing that is seen has changed since \<open>d0\<close>.\<close>

definition stage :: "disk \<Rightarrow> place \<Rightarrow> string \<Rightarrow> nat \<Rightarrow> disk \<Rightarrow> bool" where
  "stage d0 p tmp i d \<longleftrightarrow> same_views d0 d \<and> safe d \<and> hidden d i \<and> map_of (current p d) tmp = Some (FileEntry i)"

lemma stage_set_inode: "stage d0 p tmp i d \<Longrightarrow> stage d0 p tmp i (set_inode i x d)"
  using set_inode_same [of d i x] same_views_trans
  by (auto simp: stage_def same_views_def set_inode_def current_def)

lemma stage_faults: "stage d0 p tmp i d \<Longrightarrow> stage d0 p tmp i (d\<lparr>dkFaults := fs\<rparr>)"
  by (auto simp: stage_def same_views_def hidden_def)

lemma create_temp_stage:
  assumes "safe d" and "dotted prefix" and "create_temp p prefix d = (res, d')"
  shows "case res of Inl e \<Rightarrow> same_views d d' | Inr (tmp, i) \<Rightarrow> dotted tmp \<and> stage d p tmp i d' \<and> inData (dkInodes d' ! i) = []"
proof (cases d rule: next_fault_cases)
  case (fault e n fs)
  then show ?thesis using assms same_views_faults by (auto simp: create_temp_def)
next
  case (fine fs)
  define d1 where "d1 = d\<lparr>dkFaults := fs\<rparr>"
  define name where "name = prefix @ dkTemp d1 (map fst (current p d1))"
  define d2 where "d2 = d1\<lparr>dkInodes := dkInodes d1 @ [\<lparr>inData = [], inSynced = False\<rparr>]\<rparr>"
  let ?i = "length (dkInodes d1)"
  let ?d3 = "set_directory p (mput name (FileEntry ?i) (current p d1)) d2"
  have r: "(res, d') = (if has_key (current p d1) name then (Inl (FsError ''file exists''), d1) else (Inr (name, ?i), ?d3))"
    using assms(3) unfolding create_temp_def fine d1_def [symmetric] prod.case option.case Let_def
      name_def [symmetric] d2_def [symmetric] by (rule sym)
  have dot: "dotted name" using assms(2) by (cases prefix) (auto simp: name_def has_prefix_def)
  have s1: "same_views d d1" "safe d1" using assms(1) same_views_faults by (simp_all add: d1_def)
  have s2: "same_views d1 d2" "hidden d2 ?i" using add_inode_same [OF s1(2)] by (simp_all add: d2_def)
  have c: "current p d2 = current p d1" by (simp add: d2_def current_def)
  have "same_views d2 ?d3"
  proof (rule set_dotted_same)
    show "safe d2" using s2(1) by (simp add: same_views_def)
    show "map_of (mput name (FileEntry ?i) (current p d1)) n = map_of (current p d2) n" if "\<not> dotted n" for n
      using that dot c by auto
    show "i < length (dkInodes d2)" if "map_of (mput name (FileEntry ?i) (current p d1)) n = Some (FileEntry i)" for n i
      using that current_in [OF s1(2), of p] s1(2)
      by (auto simp: d2_def safe_def safe_entry_def less_Suc_eq split: if_splits)
  qed
  then have "same_views d ?d3" using s1(1) s2(1) same_views_trans by blast
  moreover have "hidden ?d3 ?i"
    using s2(2) dot current_in [OF s1(2), of p] by (auto simp: hidden_def set_directory_def d2_def)
  ultimately have "stage d p name ?i ?d3" by (auto simp: stage_def same_views_def)
  moreover have "inData (dkInodes ?d3 ! ?i) = []" by (simp add: set_directory_def d2_def)
  ultimately show ?thesis using r s1(1) dot by (auto split: if_splits)
qed

lemma write_file_stage:
  assumes "stage d0 p tmp i d" and "inData (dkInodes d ! i) = []"
  shows "stage d0 p tmp i (snd (write_file i b d)) \<and> (fst (write_file i b d) = None \<longrightarrow> inData (dkInodes (snd (write_file i b d)) ! i) = b)"
proof (cases d rule: next_fault_cases)
  case (fault e n fs)
  then show ?thesis using stage_set_inode [OF stage_faults [OF assms(1)]] by (simp add: write_file_def)
next
  case (fine fs)
  have "i < length (dkInodes d)" using assms(1) by (simp add: stage_def hidden_def)
  then show ?thesis using fine assms(2) stage_set_inode [OF stage_faults [OF assms(1)]]
    by (simp add: write_file_def) (simp add: set_inode_def)
qed

lemma sync_file_stage:
  assumes "stage d0 p tmp i d"
  shows "stage d0 p tmp i (snd (sync_file i d)) \<and> inData (dkInodes (snd (sync_file i d)) ! i) = inData (dkInodes d ! i)
    \<and> (fst (sync_file i d) = None \<longrightarrow> inSynced (dkInodes (snd (sync_file i d)) ! i))"
proof -
  have i: "i < length (dkInodes d)" using assms(1) by (simp add: stage_def hidden_def)
  show ?thesis unfolding sync_file_def
    by (rule fallible_cases [of "sync_inode i" d])
       (use stage_set_inode [OF stage_faults [OF assms(1)]] stage_faults [OF assms(1)] i in \<open>auto simp: sync_inode_def\<close>,
        simp_all add: set_inode_def)
qed

lemma close_file_stage:
  assumes "stage d0 p tmp i d"
  shows "stage d0 p tmp i (snd (close_file d)) \<and> dkInodes (snd (close_file d)) = dkInodes d"
  unfolding close_file_def
  by (rule fallible_cases [of "Pair None" d]) (use stage_faults [OF assms(1)] in auto)

lemma or_close_stage:
  assumes "stage d0 p tmp i (snd m)"
  shows "stage d0 p tmp i (snd (or_close m)) \<and> fst (or_close m) = fst m \<and> (fst m = None \<longrightarrow> snd (or_close m) = snd m)"
  using assms close_file_stage by (cases m) (auto simp: or_close_def split: option.splits)

text \<open>What is left of a version of a directory in which \<open>name\<close> has changed to what \<open>f\<close> makes of it.\<close>

definition changed_to :: "disk \<Rightarrow> place \<Rightarrow> (view \<Rightarrow> view) \<Rightarrow> disk \<Rightarrow> bool" where
  "changed_to d p f d' \<longleftrightarrow> safe d' \<and> (\<forall>q. q \<noteq> p \<longrightarrow> views d' q = views d q \<and> view d' q = view d q)
     \<and> views d' p \<subseteq> insert (f (view d p)) (views d p) \<and> view d' p = f (view d p)"

lemma rename_entry_stage:
  assumes "stage d0 p tmp i d" and "dotted tmp" and "\<not> dotted name"
    and "inSynced (dkInodes d ! i)" and "inData (dkInodes d ! i) = b"
  shows "stage d0 p tmp i (snd (rename_entry p tmp name d)) \<and> fst (rename_entry p tmp name d) \<noteq> None
    \<or> changed_to d0 p (\<lambda>m. m(name \<mapsto> b)) (snd (rename_entry p tmp name d))"
proof (cases "\<exists>x. map_of (current p d) name = Some (DirEntry x)")
  case False
  define v where "v = mput name (FileEntry i) (mdel tmp (current p d))"
  define d' where "d' = set_directory p v d"
  have r: "rename_entry p tmp name d = (None, d')"
    using assms(1) False by (auto simp: rename_entry_def stage_def v_def d'_def split: option.splits dir_entry.splits)
  have sd: "safe d" using assms(1) by (simp add: stage_def)
  have "dotted n \<or> n \<noteq> tmp" for n using assms(2) by blast
  then have visv: "vis d v = (view d p)(name \<mapsto> b)"
    using assms(2,3,5) by (auto simp: vis_def v_def fun_eq_iff)
  have "safe_entry d n j" if "map_of v n = Some (FileEntry j)" for n j
    using that sd current_in [OF sd, of p] assms(1,4) by (auto simp: v_def safe_def safe_entry_def stage_def hidden_def split: if_splits)
  then have "safe d'" using sd unfolding d'_def by (auto simp: safe_def set_directory_def safe_entry_def)
  moreover have "vis d' = vis d" unfolding d'_def by (rule vis_cong) (simp add: set_directory_def)
  moreover have "dkDirs d' p = v # dkDirs d p" "q \<noteq> p \<Longrightarrow> dkDirs d' q = dkDirs d q" "current p d' = v" "q \<noteq> p \<Longrightarrow> current q d' = current q d" for q
    unfolding d'_def by (simp_all add: set_directory_def current_def)
  ultimately have "changed_to d0 p (\<lambda>m. m(name \<mapsto> b)) d'"
    using assms(1) visv by (auto simp: changed_to_def stage_def same_views_def)
  then show ?thesis by (simp add: r)
qed (use assms(1) in \<open>auto simp: rename_entry_def stage_def split: option.splits\<close>)

lemma rename_file_stage:
  assumes "stage d0 p tmp i d" and "dotted tmp" and "\<not> dotted name"
    and "inSynced (dkInodes d ! i)" and "inData (dkInodes d ! i) = b"
  shows "stage d0 p tmp i (snd (rename_file p tmp name d)) \<and> fst (rename_file p tmp name d) \<noteq> None
    \<or> changed_to d0 p (\<lambda>m. m(name \<mapsto> b)) (snd (rename_file p tmp name d))"
  unfolding rename_file_def
  by (rule fallible_cases [of "rename_entry p tmp name" d])
     (use stage_faults [OF assms(1)] rename_entry_stage [OF stage_faults [OF assms(1)] assms(2,3)] assms(4,5) in auto)

lemma changed_faults: "changed_to d0 p f d \<Longrightarrow> changed_to d0 p f (d\<lparr>dkFaults := fs\<rparr>)"
  by (simp add: changed_to_def)

lemma sync_entries_changed:
  assumes "changed_to d0 p f d"
  shows "changed_to d0 p f (snd (sync_entries p d)) \<and> views (snd (sync_entries p d)) p = {f (view d0 p)}"
proof -
  let ?e = "d\<lparr>dkDirs := (dkDirs d)(p := [current p d])\<rparr>"
  have c: "vis ?e = vis d" "current q ?e = current q d" for q
    by (rule vis_cong) (simp_all add: current_def)
  have "safe ?e" using assms current_in [of d p] by (auto simp: changed_to_def safe_def safe_entry_def)
  then show ?thesis using assms c by (auto simp: changed_to_def sync_entries_def)
qed

lemma sync_directory_changed:
  assumes "changed_to d0 p f d"
  shows "changed_to d0 p f (snd (sync_directory p d))
    \<and> (fst (sync_directory p d) = None \<longrightarrow> views (snd (sync_directory p d)) p = {f (view d0 p)})"
proof -
  have second: "changed_to d0 p f (snd (fallible (sync_entries p) e))
      \<and> (fst (fallible (sync_entries p) e) = None \<longrightarrow> views (snd (fallible (sync_entries p) e)) p = {f (view d0 p)})"
    if e: "changed_to d0 p f e" for e
    by (rule fallible_cases [of "sync_entries p" e])
      (use changed_faults [OF e] sync_entries_changed [OF changed_faults [OF e]] in auto)
  show ?thesis unfolding sync_directory_def
    by (rule fallible_cases [of "Pair None" d]) (use changed_faults [OF assms] second [OF changed_faults [OF assms]] in auto)
qed

lemma remove_dotted:
  assumes "safe d" and "dotted name"
  shows "same_views d (snd (remove_file p name d))"
proof -
  have step: "same_views e (snd (remove_entry p name e))" if "safe e" for e
  proof -
    have "same_views e (set_directory p (mdel name (current p e)) e)"
      using that assms(2) current_in [OF that, of p]
      by (intro set_dotted_same) (auto simp: safe_def safe_entry_def split: if_splits)
    then show ?thesis using that by (auto simp: remove_entry_def same_views_def split: option.splits dir_entry.splits bool.splits)
  qed
  have "same_views d (snd (remove_entry p name (d\<lparr>dkFaults := fs\<rparr>)))" for fs
    using same_views_trans [OF same_views_faults [OF assms(1)] step] assms(1) by simp
  then have "\<And>r fs. r = remove_entry p name (d\<lparr>dkFaults := fs\<rparr>) \<Longrightarrow> same_views d (snd r)" by simp
  note fine = this
  show ?thesis unfolding remove_file_def
    by (rule fallible_cases [of "remove_entry p name" d]) (use same_views_faults [OF assms(1)] fine in auto)
qed

text \<open>A changed version through the deferred removal of the temporary file.\<close>

lemma changed_same:
  assumes "changed_to d0 p f d" and "same_views d d'"
  shows "changed_to d0 p f d'" and "views d' p = views d p"
  using assms by (auto simp: changed_to_def same_views_def)

lemma changed_safe: "changed_to d0 p f d \<Longrightarrow> safe d"
  by (simp add: changed_to_def)

lemma fill_and_rename_effect:
  assumes s: "stage d0 p tmp i d" "inData (dkInodes d ! i) = []" and "dotted tmp" and "\<not> dotted name"
    and r: "fill_and_rename p name b tmp i d = (r, d')"
  shows "stage d0 p tmp i d' \<and> r \<noteq> None
    \<or> changed_to d0 p (\<lambda>m. m(name \<mapsto> b)) d' \<and> (r = None \<longrightarrow> views d' p = {(view d0 p)(name \<mapsto> b)})"
proof -
  let ?f = "\<lambda>m. m(name \<mapsto> b)"
  obtain r1 d1 where w: "or_close (write_file i b d) = (r1, d1)" by fastforce
  have s1: "stage d0 p tmp i d1" "r1 = None \<longrightarrow> inData (dkInodes d1 ! i) = b"
    using or_close_stage [of d0 p tmp i "write_file i b d"] write_file_stage [OF s] w by auto
  show ?thesis
  proof (cases r1)
    case (Some e)
    then show ?thesis using r w s1 by (auto simp: fill_and_rename_def)
  next
    case None
    obtain r2 d2 where y: "or_close (sync_file i d1) = (r2, d2)" by fastforce
    have s2: "stage d0 p tmp i d2" "r2 = None \<longrightarrow> inData (dkInodes d2 ! i) = b \<and> inSynced (dkInodes d2 ! i)"
      using or_close_stage [of d0 p tmp i "sync_file i d1"] sync_file_stage [OF s1(1)] y s1(2) None by auto
    show ?thesis
    proof (cases r2)
      case (Some e)
      then show ?thesis using r w y None s2 by (auto simp: fill_and_rename_def)
    next
      case r2: None
      obtain r3 d3 where c: "close_file d2 = (r3, d3)" by fastforce
      have s3: "stage d0 p tmp i d3" "inData (dkInodes d3 ! i) = b" "inSynced (dkInodes d3 ! i)"
        using close_file_stage [OF s2(1)] c s2(2) r2 by auto
      obtain r4 d4 where n: "rename_file p tmp name d3 = (r4, d4)" by fastforce
      have s4: "stage d0 p tmp i d4 \<and> r4 \<noteq> None \<or> changed_to d0 p ?f d4"
        using rename_file_stage [OF s3(1) assms(3,4) s3(3,2)] n by simp
      have r': "(r, d') = and_then (r3, d3) (\<lambda>d. and_then (rename_file p tmp name d) (sync_directory p))"
        using r w y None r2 c by (simp add: fill_and_rename_def)
      show ?thesis
      proof (cases "r3 = None \<and> r4 = None")
        case True
        then show ?thesis using r' n s4 sync_directory_changed [of d0 p ?f d4] by (metis and_then_simps(2) fst_conv snd_conv)
      next
        case False
        then show ?thesis using r' n s4 s3(1) by (cases r3) auto
      qed
    qed
  qed
qed

lemma write_effect:
  assumes "safe d" and "\<not> dotted name" and "store_write p name b d = (r, d')"
  shows "same_views d d' \<and> r \<noteq> None
    \<or> changed_to d p (\<lambda>m. m(name \<mapsto> b)) d' \<and> (r = None \<longrightarrow> views d' p = {(view d p)(name \<mapsto> b)})"
proof (cases "create_temp p (''.'' @ name @ ''.'') d")
  case (Pair t d1)
  have dot: "dotted (''.'' @ name @ ''.'')" by (simp add: has_prefix_def)
  show ?thesis
  proof (cases t)
    case (Inl e)
    then show ?thesis using create_temp_stage [OF assms(1) dot Pair] assms(3) Pair by (auto simp: store_write_def)
  next
    case (Inr ti)
    obtain tmp i where ti: "ti = (tmp, i)" by fastforce
    have s: "dotted tmp" "stage d p tmp i d1" "inData (dkInodes d1 ! i) = []"
      using create_temp_stage [OF assms(1) dot Pair] Inr ti by auto
    obtain r2 d2 where f: "fill_and_rename p name b tmp i d1 = (r2, d2)" by fastforce
    have e: "r = r2" "d' = snd (remove_file p tmp d2)" using assms(3) Pair Inr ti f by (auto simp: store_write_def)
    from fill_and_rename_effect [OF s(2,3,1) assms(2) f] show ?thesis
    proof
      assume a: "stage d p tmp i d2 \<and> r2 \<noteq> None"
      then have "safe d2" "same_views d d2" by (simp_all add: stage_def)
      then show ?thesis using a remove_dotted [OF _ s(1)] same_views_trans e by blast
    next
      assume a: "changed_to d p (\<lambda>m. m(name \<mapsto> b)) d2 \<and> (r2 = None \<longrightarrow> views d2 p = {(view d p)(name \<mapsto> b)})"
      then have "same_views d2 d'" using remove_dotted [OF changed_safe s(1)] e by blast
      then have "changed_to d p (\<lambda>m. m(name \<mapsto> b)) d'" "views d' p = views d2 p" using a changed_same by blast+
      then show ?thesis using a e(1) by metis
    qed
  qed
qed

section \<open>Removing a file\<close>

lemma remove_entry_effect:
  assumes "safe d" and "\<not> dotted name"
  shows "same_views d (snd (remove_entry p name d)) \<and> (fst (remove_entry p name d) = Some NotExist \<longrightarrow> view d p name = None)
      \<and> fst (remove_entry p name d) \<noteq> None
    \<or> changed_to d p (\<lambda>m. m(name := None)) (snd (remove_entry p name d)) \<and> fst (remove_entry p name d) = None"
proof -
  let ?d = "set_directory p (mdel name (current p d)) d"
  have vc: "vis ?d = vis d" by (rule vis_cong) (simp add: set_directory_def)
  have "vis d (mdel name (current p d)) = (view d p)(name := None)" by (auto simp: vis_def)
  moreover have "safe ?d"
    using assms(1) current_in [OF assms(1), of p] by (auto simp: safe_def set_directory_def safe_entry_def split: if_splits)
  ultimately have "changed_to d p (\<lambda>m. m(name := None)) ?d"
    unfolding changed_to_def vc by (auto simp: set_directory_def current_def)
  moreover have "same_views d d" using assms(1) by (simp add: same_views_def)
  ultimately show ?thesis
    by (auto simp: remove_entry_def vis_def split: option.splits dir_entry.splits bool.splits)
qed

lemma changed_from_faults: "changed_to (d\<lparr>dkFaults := fs\<rparr>) p f d' \<longleftrightarrow> changed_to d p f d'"
  by (simp add: changed_to_def)

lemma same_from_faults: "same_views (d\<lparr>dkFaults := fs\<rparr>) d' \<longleftrightarrow> same_views d d'"
  by (simp add: same_views_def)

lemma remove_effect:
  assumes "safe d" and "\<not> dotted name" and "store_remove p name d = (r, d')"
  shows "same_views d d' \<and> (r = None \<longrightarrow> view d p name = None)
    \<or> changed_to d p (\<lambda>m. m(name := None)) d' \<and> (r = None \<longrightarrow> views d' p = {(view d p)(name := None)})"
proof (cases d rule: fallible_cases [of "remove_entry p name"])
  case (fault e fs)
  then show ?thesis using assms same_views_faults by (auto simp: store_remove_def remove_file_def)
next
  case (fine fs)
  let ?d = "d\<lparr>dkFaults := fs\<rparr>"
  obtain x d1 where x: "remove_entry p name ?d = (x, d1)" by fastforce
  have e: "same_views d d1 \<and> (x = Some NotExist \<longrightarrow> view d p name = None) \<and> x \<noteq> None
      \<or> changed_to d p (\<lambda>m. m(name := None)) d1 \<and> x = None"
    using remove_entry_effect [of ?d name p] assms(1,2) x by (simp add: changed_from_faults same_from_faults)
  have r: "(r, d') = (case x of Some e \<Rightarrow> if e = NotExist then (None, d1) else (Some e, d1) | None \<Rightarrow> sync_directory p d1)"
    using assms(3) fine x by (simp add: store_remove_def remove_file_def split: option.splits)
  show ?thesis
  proof (cases x)
    case None
    then have "changed_to d p (\<lambda>m. m(name := None)) d1" "(r, d') = sync_directory p d1" using e r by simp_all
    then show ?thesis using sync_directory_changed by (metis fst_conv snd_conv)
  next
    case (Some y)
    then show ?thesis using e r by (auto split: if_splits)
  qed
qed

end
