(* ===== verification/StoreCrash.thy ===== *)
theory StoreCrash
  imports StoreSafe ComposeLoad
begin

text \<open>
  What a crash leaves of the store: the disk stays safe through every sequence of operations, faults and power losses, and a
  record is written or deleted as a whole.
\<close>

section \<open>Every disk the store can make\<close>

datatype store_op =
    PutRecord store_record
  | DeleteRecord string
  | SetBootID string
  | PutProjectFiles string project
  | DeleteProjectFiles string

fun store_step :: "store_op \<Rightarrow> disk \<Rightarrow> disk" where
  "store_step (PutRecord r) d = snd (store_put r d)"
| "store_step (DeleteRecord n) d = snd (store_delete n d)"
| "store_step (SetBootID ident) d = snd (store_set_boot_id ident d)"
| "store_step (PutProjectFiles n p) d = snd (store_put_project n p d)"
| "store_step (DeleteProjectFiles n) d = snd (store_delete_project n d)"

text \<open>From the empty directories, with any faults to come: the operations, and power losses between them.\<close>

inductive disk_reached :: "disk \<Rightarrow> bool" where
  opened: "disk_reached (empty_disk\<lparr>dkFaults := fs, dkTemp := t, dkUnreadable := u\<rparr>)"
| stepped: "disk_reached d \<Longrightarrow> disk_reached (store_step q d)"
| lost: "disk_reached d \<Longrightarrow> crashed d d' \<Longrightarrow> disk_reached d'"

lemma valid_not_dotted: "ValidName n \<Longrightarrow> \<not> dotted (n @ s)"
  by (cases n) (auto simp: ValidName_iff container_name_def has_prefix_def byte_in_def)

lemma boot_not_dotted: "\<not> dotted boot_file"
  by (simp add: boot_file_def has_prefix_def)

lemma write_safe: "safe d \<Longrightarrow> \<not> dotted n \<Longrightarrow> safe (snd (store_write p n b d))"
  using write_effect [of d n p b] by (cases "store_write p n b d") (auto simp: same_views_def changed_to_def)

lemma remove_safe: "safe d \<Longrightarrow> \<not> dotted n \<Longrightarrow> safe (snd (store_remove p n d))"
  using remove_effect [of d n p] by (cases "store_remove p n d") (auto simp: same_views_def changed_to_def)

lemma io_simps [simp]: "snd (io m) = snd m" "fst (io m) = map_option Io (fst m)"
  by (simp_all add: io_def)

lemma step_safe: "safe d \<Longrightarrow> safe (store_step q d)"
proof (cases q)
  case (PutProjectFiles n p)
  moreover assume "safe d"
  ultimately show ?thesis using valid_not_dotted
    by (auto simp: store_put_project_def intro!: and_then_inv [where P = safe] write_safe remove_safe)
next
  case (DeleteProjectFiles n)
  moreover assume "safe d"
  ultimately show ?thesis using valid_not_dotted
    by (auto simp: store_delete_project_def intro!: and_then_inv [where P = safe] remove_safe)
qed (auto simp: store_put_def store_delete_def store_set_boot_id_def valid_not_dotted boot_not_dotted intro!: write_safe remove_safe)

text \<open>A crash leaves, of each directory, one of its views.\<close>

lemma crashed_view:
  assumes "safe d" and "crashed d d'"
  shows "safe d' \<and> view d' p \<in> views d p"
proof -
  have e: "dkDirs d' q = [current q d'] \<and> current q d' \<in> set (dkDirs d q)" for q
  proof -
    have "\<exists>v \<in> set (dkDirs d q). dkDirs d' q = [v]" using assms(2) unfolding crashed_def by blast
    then show ?thesis by (auto simp: current_def)
  qed
  have s: "safe_entry d n i" if "map_of (current q d') n = Some (FileEntry i)" for q n i
    using assms(1) e [of q] that by (auto simp: safe_def)
  have len: "length (dkInodes d') = length (dkInodes d)" using assms(2) by (simp add: crashed_def)
  have data: "inSynced (dkInodes d' ! i) \<and> (inSynced (dkInodes d ! i) \<longrightarrow> inData (dkInodes d' ! i) = inData (dkInodes d ! i))"
    if "i < length (dkInodes d)" for i using assms(2) that by (simp add: crashed_def)
  have entry: "safe_entry d' n i" if "map_of (current q d') n = Some (FileEntry i)" for q n i
    using s [OF that] data [of i] len by (simp add: safe_entry_def)
  have vers: "\<forall>v \<in> set (dkDirs d' q). v = current q d'" "dkDirs d' q \<noteq> []" for q
  proof -
    have "dkDirs d' q = [current q d']" using e by blast
    then show "\<forall>v \<in> set (dkDirs d' q). v = current q d'" "dkDirs d' q \<noteq> []" by simp_all
  qed
  have "safe d'"
    unfolding safe_def
  proof (intro allI conjI ballI impI)
    fix q v n i
    show "dkDirs d' q \<noteq> []" by (rule vers(2))
    assume "v \<in> set (dkDirs d' q)" "map_of v n = Some (FileEntry i)"
    moreover have "v = current q d'" using vers(1) calculation(1) by blast
    ultimately show "safe_entry d' n i" using entry by blast
  qed
  moreover have "vis d' (current p d') = vis d (current p d')"
  proof
    fix n
    show "vis d' (current p d') n = vis d (current p d') n"
      using s [of p n] data by (auto simp: vis_def safe_entry_def split: option.splits dir_entry.splits)
  qed
  ultimately show ?thesis using e [of p] by simp
qed

text \<open>
  C28: Whatever the order of the operations, whichever calls fail and whenever the power is lost: on every disk the store can make, each name
  of a directory, in each version a power loss may leave, is a file with all of its bytes
  on the disk, unless the name is one of a temporary file.
\<close>

theorem reached_safe:
  assumes "disk_reached d"
  shows "safe d"
  using assms
proof (induction rule: disk_reached.induct)
  case (opened fs t u)
  show ?case by (auto simp: safe_def empty_disk_def split: if_splits)
qed (use step_safe crashed_view in blast)+

lemma reached_safe_witness: "safe (snd (store_set_boot_id ''3f2a'' empty_disk))"
proof -
  have "disk_reached (empty_disk\<lparr>dkFaults := [], dkTemp := \<lambda>_. ''1'', dkUnreadable := \<lambda>_ _. None\<rparr>)" by (rule disk_reached.opened)
  then have "disk_reached empty_disk" by (simp add: empty_disk_def)
  from reached_safe [OF disk_reached.stepped [OF this, of "SetBootID ''3f2a''"]] show ?thesis by simp
qed

text \<open>
  C29: \<open>Put\<close> is atomic: after a power loss at any moment of it the record's file is what some earlier version had or
  the whole new record, and nothing else has changed; after it returned without an error, it is the new record.
\<close>

theorem put_atomic:
  assumes "safe d" and "store_put r d = (e, d1)" and "crashed d1 d2"
  shows "view d2 Projects \<in> views d Projects
    \<and> (view d2 Top \<in> views d Top \<or> view d2 Top = (view d Top)(sName (recSpec r) @ json_suffix \<mapsto> record_text r))
    \<and> (e = None \<longrightarrow> view d2 Top = (view d Top)(sName (recSpec r) @ json_suffix \<mapsto> record_text r))"
proof (cases "ValidName (sName (recSpec r))")
  case False
  then have "e \<noteq> None" "d1 = d" using assms(2) by (auto simp: store_put_def)
  then show ?thesis using crashed_view [OF assms(1)] assms(3) by blast
next
  case True
  let ?n = "sName (recSpec r) @ json_suffix"
  obtain x where w: "store_write Top ?n (record_text r) d = (x, d1)" and e: "e = map_option Io x"
    using assms(2) True by (cases "store_write Top ?n (record_text r) d") (auto simp: store_put_def io_def)
  note effect = write_effect [OF assms(1) valid_not_dotted [OF True] w]
  then have "safe d1" by (auto simp: same_views_def changed_to_def)
  then have v: "view d2 Top \<in> views d1 Top" "view d2 Projects \<in> views d1 Projects" using crashed_view assms(3) by blast+
  from effect show ?thesis
  proof
    assume "same_views d d1 \<and> x \<noteq> None"
    then show ?thesis using v e by (cases x) (simp_all add: same_views_def)
  next
    assume "changed_to d Top (\<lambda>m. m(?n \<mapsto> record_text r)) d1 \<and> (x = None \<longrightarrow> views d1 Top = {(view d Top)(?n \<mapsto> record_text r)})"
    then show ?thesis using v e unfolding changed_to_def by blast
  qed
qed

text \<open>The power loss that leaves what there is.\<close>

definition settled :: "disk \<Rightarrow> disk" where
  "settled d = d\<lparr>dkDirs := \<lambda>p. [current p d], dkInodes := map (\<lambda>x. x\<lparr>inSynced := True\<rparr>) (dkInodes d)\<rparr>"

lemma crashed_settled: "safe d \<Longrightarrow> crashed d (settled d)"
  using current_in by (simp add: crashed_def settled_def)

definition one_record :: store_record where
  "one_record = \<lparr>recSpec = one_spec, recDesired = Running\<rparr>"

lemma empty_safe: "safe empty_disk"
  by (auto simp: safe_def empty_disk_def split: if_splits)

lemma one_name: "sName (recSpec one_record) = ''web-app-1''" "ValidName ''web-app-1''"
  by (simp_all add: one_record_def one_spec_def ValidName_iff container_name_def byte_in_def)

lemma one_put: "fst (store_put one_record empty_disk) = None"
  by (simp add: store_put_def one_name store_write_def create_temp_def next_fault_def empty_disk_def current_def Let_def
      fill_and_rename_def or_close_def write_file_def sync_file_def close_file_def fallible_def sync_inode_def set_inode_def
      set_directory_def rename_file_def rename_entry_def sync_directory_def sync_entries_def json_suffix_def split: prod.splits)

lemma put_atomic_witness:
  "view (settled (snd (store_put one_record empty_disk))) Top ''web-app-1.json'' = Some (record_text one_record)"
proof -
  have p: "store_put one_record empty_disk = (None, snd (store_put one_record empty_disk))" using one_put by (metis prod.collapse)
  have "safe (snd (store_put one_record empty_disk))" using step_safe [OF empty_safe, of "PutRecord one_record"] by simp
  from put_atomic [OF empty_safe p crashed_settled [OF this]] show ?thesis by (simp add: one_name json_suffix_def)
qed

text \<open>
  C30: \<open>Delete\<close> removes one record and nothing else, and when it returns without an error the record is
  gone; a power loss does not bring it back when it was there.
\<close>

theorem delete_atomic:
  assumes "safe d" and "store_delete n d = (e, d1)"
  shows "safe d1 \<and> view d1 Projects = view d Projects
    \<and> (view d1 Top = view d Top \<or> view d1 Top = (view d Top)(n @ json_suffix := None))
    \<and> (e = None \<longrightarrow> view d1 Top (n @ json_suffix) = None
        \<and> (view d Top (n @ json_suffix) \<noteq> None \<longrightarrow> (\<forall>d2. crashed d1 d2 \<longrightarrow> view d2 Top = (view d Top)(n @ json_suffix := None))))"
proof (cases "ValidName n")
  case False
  then have "e \<noteq> None" "d1 = d" using assms(2) by (auto simp: store_delete_def)
  then show ?thesis using assms(1) by (cases e) simp_all
next
  case True
  let ?n = "n @ json_suffix"
  obtain x where w: "store_remove Top ?n d = (x, d1)" and e: "e = map_option Io x"
    using assms(2) True by (cases "store_remove Top ?n d") (auto simp: store_delete_def io_def)
  from remove_effect [OF assms(1) valid_not_dotted [OF True] w] show ?thesis
  proof
    assume "same_views d d1 \<and> (x = None \<longrightarrow> view d Top ?n = None)"
    then show ?thesis using e by (cases x) (simp_all add: same_views_def)
  next
    assume c: "changed_to d Top (\<lambda>m. m(?n := None)) d1 \<and> (x = None \<longrightarrow> views d1 Top = {(view d Top)(?n := None)})"
    then have "x = None \<Longrightarrow> crashed d1 d2 \<Longrightarrow> view d2 Top = (view d Top)(?n := None)" for d2
      using crashed_view [OF changed_safe] by blast
    then show ?thesis using c e unfolding changed_to_def by auto
  qed
qed

lemma delete_atomic_witness:
  "view (snd (store_delete ''web-app-1'' empty_disk)) Top ''web-app-1.json'' = None"
proof -
  have d: "store_delete ''web-app-1'' empty_disk = (None, empty_disk)"
    by (simp add: store_delete_def one_name store_remove_def remove_file_def fallible_def next_fault_def empty_disk_def
        remove_entry_def current_def io_def json_suffix_def)
  show ?thesis using delete_atomic [OF empty_safe d] d by (simp add: json_suffix_def)
qed

text \<open>
  A deletion whose last step failed succeeds when it is tried again, for the file is missing then; nothing makes the removal
  certain, and a power loss brings the record back.
\<close>

lemma retried_delete_returns:
  fixes d defines "d1 \<equiv> snd (store_delete ''a'' (d\<lparr>dkFaults := [None, Some (''EIO'', 0)]\<rparr>))"
  assumes "dkDirs d = (\<lambda>_. [[(''a.json'', FileEntry 0)]])"
  shows "store_delete ''a'' d1 = (None, d1) \<and> [(''a.json'', FileEntry 0)] \<in> set (dkDirs d1 Top)"
proof -
  have v: "ValidName ''a''" by (simp add: ValidName_iff container_name_def byte_in_def)
  have "d1 = d\<lparr>dkFaults := [], dkDirs := (dkDirs d)(Top := [[], [(''a.json'', FileEntry 0)]])\<rparr>"
    using assms(2) unfolding d1_def
    by (simp add: store_delete_def v store_remove_def remove_file_def fallible_def next_fault_def remove_entry_def current_def
        json_suffix_def sync_directory_def set_directory_def mdel_def)
  then show ?thesis
    by (simp add: store_delete_def v store_remove_def remove_file_def fallible_def next_fault_def remove_entry_def current_def
        json_suffix_def io_def)
qed

end
