(* ===== verification/StoreLoad.thy ===== *)
theory StoreLoad
  imports StoreCrash
begin

text \<open>
  What is declared on a disk: \<open>Load\<close> and \<open>Projects\<close> read the view of the directory, and what was put comes back, after a
  power loss too. The store is a map of records for its client.
\<close>

section \<open>Load reads the view\<close>

text \<open>The record a view declares for a name.\<close>

definition record_in :: "view \<Rightarrow> string \<Rightarrow> store_record option" where
  "record_in m n = (case m (n @ json_suffix) of None \<Rightarrow> None
     | Some b \<Rightarrow> (case load_record n b of Inl _ \<Rightarrow> None | Inr r \<Rightarrow> Some r))"

definition readable :: "disk \<Rightarrow> bool" where
  "readable d \<longleftrightarrow> (\<forall>p n. dkUnreadable d p n = None)"

definition names_file :: "string \<Rightarrow> string \<times> dir_entry \<Rightarrow> bool" where
  "names_file f e \<longleftrightarrow> fst e = f \<and> \<not> is_dir (snd e) \<and> \<not> dotted f"

lemma cut_suffix_append [simp]: "cut_suffix (n @ s) s = Some n"
  by (simp add: cut_suffix_Some)

lemma vis_Some: "vis d v f = Some b \<longleftrightarrow> \<not> dotted f \<and> (\<exists>i. map_of v f = Some (FileEntry i) \<and> b = inData (dkInodes d ! i))"
  by (auto simp: vis_def split: option.splits dir_entry.splits)

lemma load_entries_reads:
  assumes "readable d" and "\<And>f x. (f, x) \<in> set es \<Longrightarrow> map_of (current Top d) f = Some x"
  shows "\<exists>rs bad'. load_entries d es records bad = Inr (rs, bad')
    \<and> (\<forall>n. map_of rs n = (if list_ex (names_file (n @ json_suffix)) es \<and> record_in (view d Top) n \<noteq> None
        then record_in (view d Top) n else map_of records n))"
  using assms(2)
proof (induction es arbitrary: records bad)
  case (Cons e es)
  obtain f x where e: "e = (f, x)" by fastforce
  have ih: "\<exists>rs bad'. load_entries d es recs bd = Inr (rs, bad')
    \<and> (\<forall>n. map_of rs n = (if list_ex (names_file (n @ json_suffix)) es \<and> record_in (view d Top) n \<noteq> None
        then record_in (view d Top) n else map_of recs n))" for recs bd
    using Cons by auto
  show ?case
  proof (cases "\<exists>n. f = n @ json_suffix \<and> \<not> is_dir x \<and> \<not> dotted f")
    case False
    then have "load_entries d (e # es) records bad = load_entries d es records bad"
      by (cases "cut_suffix f json_suffix") (auto simp: e cut_suffix_Some)
    moreover have "\<not> names_file (n @ json_suffix) e" for n using False by (auto simp: e names_file_def)
    ultimately show ?thesis using ih by simp
  next
    case True
    then obtain n where n: "f = n @ json_suffix" "\<not> is_dir x" "\<not> dotted f" by blast
    obtain i where x: "x = FileEntry i" using n(2) by (cases x) auto
    define b where "b = inData (dkInodes d ! i)"
    have cur: "map_of (current Top d) f = Some (FileEntry i)" using Cons.prems e x by simp
    then have "read_file Top f d = Inr b" using assms(1) by (simp add: read_file_def readable_def b_def)
    moreover have "cut_suffix f json_suffix = Some n" using n(1) by (simp add: cut_suffix_Some)
    ultimately have l: "load_entries d (e # es) records bad = (case load_record n b of
         Inl why \<Rightarrow> load_entries d es records (bad @ [(f, why)]) | Inr r \<Rightarrow> load_entries d es (mput n r records) bad)"
      using n(2,3) by (simp add: e)
    have v: "view d Top f = Some b" using cur n(3) by (simp add: vis_def b_def)
    have nf: "names_file (m @ json_suffix) e \<longleftrightarrow> m = n" for m using n by (auto simp: e names_file_def)
    show ?thesis
    proof (cases "load_record n b")
      case (Inl why)
      then have "record_in (view d Top) n = None" using v n(1) by (simp add: record_in_def)
      then show ?thesis using ih [of records "bad @ [(f, why)]"] unfolding l Inl by (auto simp: nf)
    next
      case (Inr r)
      then have r: "record_in (view d Top) n = Some r" using v n(1) by (simp add: record_in_def)
      show ?thesis using ih [of "mput n r records" bad] r unfolding l Inr by (auto simp: nf)
    qed
  qed
qed auto

lemma store_load_reads:
  assumes "readable d"
  shows "\<exists>rs bad. store_load d = Inr (rs, bad) \<and> map_of rs = record_in (view d Top)"
proof -
  let ?es = "sorted_entries (current Top d)"
  have es: "map_of (current Top d) f = Some x" if "(f, x) \<in> set ?es" for f x
    using that by (auto simp: sorted_entries_def split: option.splits)
  obtain rs bad where r: "load_entries d ?es [] [] = Inr (rs, bad)"
    "\<And>n. map_of rs n = (if list_ex (names_file (n @ json_suffix)) ?es \<and> record_in (view d Top) n \<noteq> None
        then record_in (view d Top) n else None)"
    using load_entries_reads [OF assms es, of ?es "[]" "[]"] by auto
  have "list_ex (names_file (n @ json_suffix)) ?es" if found: "record_in (view d Top) n \<noteq> None" for n
  proof -
    let ?f = "n @ json_suffix"
    obtain b where "view d Top ?f = Some b" using found by (cases "view d Top ?f") (auto simp: record_in_def)
    then obtain i where i: "\<not> dotted ?f" "map_of (current Top d) ?f = Some (FileEntry i)" by (auto simp: vis_Some)
    then have "?f \<in> set (sorted_keys (current Top d))" by (force simp: map_of_eq_None_iff dest: map_of_SomeD)
    then have "(?f, FileEntry i) \<in> set ?es" using i(2) by (force simp: sorted_entries_def)
    then show ?thesis using i(1) by (force simp: list_ex_iff names_file_def)
  qed
  then have "map_of rs n = record_in (view d Top) n" for n using r(2) [of n] by (cases "record_in (view d Top) n") auto
  then show ?thesis using r(1) assms by (auto simp: store_load_def read_dir_def readable_def)
qed

section \<open>A record comes back\<close>

lemma elems_nil [simp]: "elems (nil_if_empty x) = elems x"
  by (simp add: nil_if_empty_def)

lemma elems_sorted: "distinct (map fst (elems e)) \<Longrightarrow> set (elems (map_option sorted_env (nil_if_empty e))) = set (elems e)"
  by (cases e) (force simp: nil_if_empty_def sorted_env_def str_at_def image_iff)+

lemma valid_stored:
  assumes "distinct (map fst (elems (sEnvironment s)))"
  shows "validate (stored s) = None \<longleftrightarrow> validate s = None"
  unfolding validate_valid_spec
  by (simp add: valid_spec_def stored_def elems_sorted [OF assms] valid_network_def)

text \<open>A record the store takes: valid, with a desired state, of texts and numbers Go can hold.\<close>

definition storable :: "store_record \<Rightarrow> bool" where
  "storable r \<longleftrightarrow> validate (recSpec r) = None \<and> recDesired r \<in> {Running, Stopped} \<and> utf8_record r \<and> machine_spec (recSpec r)"

lemma storable_name: "storable r \<Longrightarrow> ValidName (sName (recSpec r))"
  by (simp add: storable_def validate_valid_spec valid_spec_def ValidName_iff)

lemma load_record_text:
  assumes "storable r"
  shows "load_record (sName (recSpec r)) (record_text r) = Inr (r\<lparr>recSpec := stored (recSpec r)\<rparr>)"
proof -
  have "distinct (map fst (elems (sEnvironment (recSpec r))))" using assms by (simp add: storable_def machine_spec_def)
  then have "validate (stored (recSpec r)) = None" using assms valid_stored by (simp add: storable_def)
  moreover have "sName (stored (recSpec r)) = sName (recSpec r)" by (simp add: stored_def)
  moreover have "read_record (record_text r) = Some (r\<lparr>recSpec := stored (recSpec r)\<rparr>)"
    using assms read_record_text by (simp add: storable_def)
  ultimately show ?thesis using assms by (auto simp: load_record_def storable_def)
qed

lemma record_in_put:
  assumes "storable r"
  shows "record_in (m(sName (recSpec r) @ json_suffix \<mapsto> record_text r))
    = (record_in m)(sName (recSpec r) \<mapsto> r\<lparr>recSpec := stored (recSpec r)\<rparr>)"
  by (rule ext) (auto simp: record_in_def load_record_text [OF assms])

lemma record_in_delete: "record_in (m(n @ json_suffix := None)) = (record_in m)(n := None)"
  by (rule ext) (auto simp: record_in_def)

text \<open>
  C31: A record that was put is declared after the power is lost, whatever failed before and whenever it is lost: \<open>Load\<close> gives it back
  as it was stored, and every other record as it was.
\<close>

theorem put_survives:
  assumes "safe d" and "storable r" and "store_put r d = (None, d1)" and "crashed d1 d2" and "readable d" and "readable d2"
  shows "\<exists>rs bad rs2 bad2. store_load d = Inr (rs, bad) \<and> store_load d2 = Inr (rs2, bad2)
    \<and> map_of rs2 = (map_of rs)(sName (recSpec r) \<mapsto> r\<lparr>recSpec := stored (recSpec r)\<rparr>)"
proof -
  let ?n = "sName (recSpec r) @ json_suffix"
  obtain x where w: "store_write Top ?n (record_text r) d = (x, d1)" "x = None"
    using assms(3) storable_name [OF assms(2)]
    by (cases "store_write Top ?n (record_text r) d") (auto simp: store_put_def io_def)
  from write_effect [OF assms(1) valid_not_dotted [OF storable_name [OF assms(2)]] w(1)] w(2)
  have "changed_to d Top (\<lambda>m. m(?n \<mapsto> record_text r)) d1" "views d1 Top = {(view d Top)(?n \<mapsto> record_text r)}" by auto
  then have "view d2 Top = (view d Top)(?n \<mapsto> record_text r)"
    using crashed_view [OF changed_safe assms(4)] by blast
  then show ?thesis using store_load_reads [OF assms(5)] store_load_reads [OF assms(6)] record_in_put [OF assms(2)] by auto
qed

lemma one_storable: "storable one_record"
proof -
  have "utf8_spec one_spec" by code_simp
  moreover have "machine_spec one_spec" by (simp add: machine_spec_def one_spec_def min_int64_def max_int64_def)
  ultimately show ?thesis by (simp add: storable_def one_record_def one_spec_valid utf8_record_def Running_def)
qed

lemma put_survives_witness:
  "\<exists>rs bad. store_load (settled (snd (store_put one_record empty_disk))) = Inr (rs, bad) \<and> map_of rs ''web-app-1'' \<noteq> None"
proof -
  have p: "store_put one_record empty_disk = (None, snd (store_put one_record empty_disk))" using one_put by (metis prod.collapse)
  have s: "safe (snd (store_put one_record empty_disk))" using step_safe [OF empty_safe, of "PutRecord one_record"] by simp
  have "readable empty_disk" by (simp add: readable_def empty_disk_def)
  moreover have "readable (settled (snd (store_put one_record empty_disk)))"
    by (simp add: store_put_def one_name store_write_def create_temp_def next_fault_def empty_disk_def current_def Let_def
      fill_and_rename_def or_close_def write_file_def sync_file_def close_file_def fallible_def sync_inode_def set_inode_def
      set_directory_def rename_file_def rename_entry_def sync_directory_def sync_entries_def json_suffix_def readable_def settled_def
      remove_file_def remove_entry_def split: prod.splits)
  ultimately show ?thesis using put_survives [OF empty_safe one_storable p crashed_settled [OF s]] one_name(1) by auto
qed

end
