(* ===== verification/Durable.thy ===== *)
theory Durable
  imports StoreLoad Status
begin

text \<open>
  The supervisor over its store: an interface that says what the supervisor relies on of a store, what follows for the calls of
  the API, and that the files implement it. Memory and disk declare the same.
\<close>

section \<open>What the supervisor relies on\<close>

text \<open>
  A store that holds a record and a project file for each name. \<open>good\<close> is its invariant, \<open>declared\<close> and \<open>projects\<close> what it holds,
  \<open>keeps\<close> and \<open>keepsp\<close> the specs and the projects it can hold, \<open>kept\<close> a spec as it comes back from it.
\<close>

definition desired_ok :: "store_record \<Rightarrow> bool" where
  "desired_ok r \<longleftrightarrow> recDesired r = Running \<or> recDesired r = Stopped"

definition keep :: "(spec \<Rightarrow> spec) \<Rightarrow> store_record \<Rightarrow> store_record" where
  "keep kept r = r\<lparr>recSpec := kept (recSpec r)\<rparr>"

locale record_store =
  fixes S :: "'d store_ops"
    and good :: "'d \<Rightarrow> bool"
    and declared :: "'d \<Rightarrow> string \<Rightarrow> store_record option"
    and projects :: "'d \<Rightarrow> string \<Rightarrow> project option"
    and keeps :: "spec \<Rightarrow> bool"
    and kept :: "spec \<Rightarrow> spec"
    and keepsp :: "project \<Rightarrow> bool"
  assumes put_law: "good d \<Longrightarrow> keeps (recSpec r) \<Longrightarrow> desired_ok r \<Longrightarrow> stPut S r d = (None, d')
      \<Longrightarrow> good d' \<and> declared d' = (declared d)(sName (recSpec r) \<mapsto> keep kept r) \<and> projects d' = projects d"
    and delete_law: "good d \<Longrightarrow> stDelete S n d = (None, d')
      \<Longrightarrow> good d' \<and> declared d' = (declared d)(n := None) \<and> projects d' = projects d"
    and put_project_law: "good d \<Longrightarrow> keepsp p \<Longrightarrow> stPutProject S n p d = (None, d')
      \<Longrightarrow> good d' \<and> declared d' = declared d \<and> projects d' = (projects d)(n \<mapsto> p)"
    and delete_project_law: "good d \<Longrightarrow> stDeleteProject S n d = (None, d')
      \<Longrightarrow> good d' \<and> declared d' = declared d \<and> projects d' = (projects d)(n := None)"
    and boot_law: "good d \<Longrightarrow> stSetBootID S i d = (None, d') \<Longrightarrow> good d' \<and> declared d' = declared d \<and> projects d' = projects d"
    and kept_kept: "keeps s \<Longrightarrow> kept (kept s) = kept s"
    and keeps_kept: "keeps s \<Longrightarrow> keeps (kept s)"
    and keepsp_zero: "keepsp \<lparr>prjCompose = [], prjDir = []\<rparr>"

text \<open>Memory and store declare the same, but for what a spec loses on the way.\<close>

definition in_step :: "('d \<Rightarrow> bool) \<Rightarrow> ('d \<Rightarrow> string \<Rightarrow> store_record option) \<Rightarrow> ('d \<Rightarrow> string \<Rightarrow> project option)
    \<Rightarrow> (spec \<Rightarrow> bool) \<Rightarrow> (spec \<Rightarrow> spec) \<Rightarrow> ('d, 'e) sup \<Rightarrow> bool" where
  "in_step good declared projects keeps kept s \<longleftrightarrow> good (svStore s)
     \<and> (\<forall>n r. map_of (svRecords s) n = Some r \<longrightarrow> sName (recSpec r) = n \<and> keeps (recSpec r) \<and> desired_ok r)
     \<and> (\<forall>n r. declared (svStore s) n = Some r \<longrightarrow> keeps (recSpec r))
     \<and> (\<forall>n. map_option (keep kept) (declared (svStore s) n) = map_option (keep kept) (map_of (svRecords s) n))
     \<and> map_of (svProjects s) = projects (svStore s)"

lemma load_all_keeps:
  assumes "load_all E files ns owners = Inr loaded" and "\<forall>n p specs. envLoad E n p = Inr specs \<longrightarrow> list_all P specs"
  shows "\<forall>(n, specs) \<in> set loaded. list_all P specs"
  using assms(1)
proof (induction ns arbitrary: owners loaded)
  case (Cons n ns)
  then obtain specs owners' rest where "loaded = (n, specs) # rest" "load_all E files ns owners' = Inr rest"
    "envLoad E n (case map_of files n of Some p \<Rightarrow> p | None \<Rightarrow> \<lparr>prjCompose = [], prjDir = []\<rparr>) = Inr specs"
    by (auto split: sum.splits)
  then show ?case using Cons.IH assms(2) by auto
qed simp

context record_store
begin

abbreviation same :: "('d, 'e) sup \<Rightarrow> bool" where
  "same s \<equiv> in_step good declared projects keeps kept s"

lemma keep_keep: "keeps (recSpec r) \<Longrightarrow> keep kept (keep kept r) = keep kept r"
  by (simp add: keep_def kept_kept)

lemma put_same:
  assumes "same s" and "keeps (recSpec r)" and "desired_ok r" and "stPut S r (svStore s) = (None, d)"
    and "sName (recSpec r) = n"
  shows "same (s\<lparr>svStore := d, svRecords := mput n r (svRecords s)\<rparr>)"
  using assms put_law [of "svStore s" r d] keep_keep [of r] keeps_kept [of "recSpec r"] by (auto simp: in_step_def keep_def)

lemma track_same: "same (s\<lparr>svTrack := t\<rparr>) = same s" "same (touch n s) = same s" "same (set_t n t' s) = same s"
  "same (s\<lparr>svEngine := e\<rparr>) = same s"
  by (simp_all add: in_step_def touch_def set_t_def poke_def)

lemma put_in_step:
  assumes "same s" and "envStore E = S" and "keeps sp" and "put E sp s = (None, s')"
  shows "same s'"
proof -
  define r where "r = (case map_of (svRecords s) (sName sp) of
      None \<Rightarrow> \<lparr>recSpec = zero_spec, recDesired = Running\<rparr> | Some r \<Rightarrow> r)\<lparr>recSpec := sp\<rparr>"
  have r: "recSpec r = sp" "desired_ok r"
    using assms(1) by (auto simp: r_def in_step_def desired_ok_def split: option.splits)
  obtain d where d: "stPut S r (svStore s) = (None, d)"
    and s': "s' = touch (sName sp) (let s1 = s\<lparr>svStore := d, svRecords := mput (sName sp) r (svRecords s)\<rparr> in
       case map_of (svTrack s1) (sName sp) of None \<Rightarrow> s1
         | Some t \<Rightarrow> if tPhase t = PhaseFatal then set_t (sName sp) forced s1 else s1)"
    using assms(2,4) unfolding put_def Let_def r_def [symmetric] by (auto split: option.splits prod.splits)
  have "same (s\<lparr>svStore := d, svRecords := mput (sName sp) r (svRecords s)\<rparr>)"
    using put_same [OF assms(1) _ r(2) d] r(1) assms(3) by simp
  then show ?thesis unfolding s' Let_def by (auto simp: track_same split: option.split)
qed

lemma delete_in_step:
  assumes "same s" and "envStore E = S" and "delete E n s = (None, s')"
  shows "same s'"
proof -
  obtain d where d: "stDelete S n (svStore s) = (None, d)"
    and s': "s' = touch n (s\<lparr>svStore := d, svRecords := mdel n (svRecords s), svTrack := mdel n (svTrack s)\<rparr>)"
    using assms(2,3) by (auto simp: delete_def split: option.splits prod.splits)
  have "same (s\<lparr>svStore := d, svRecords := mdel n (svRecords s)\<rparr>)"
    unfolding in_step_def
  proof (intro conjI allI impI)
    have g: "good d" "declared d = (declared (svStore s))(n := None)" "projects d = projects (svStore s)"
      using assms(1) delete_law [OF _ d] unfolding in_step_def by blast+
    show "good (svStore (s\<lparr>svStore := d, svRecords := mdel n (svRecords s)\<rparr>))" using g(1) by simp
    show "map_of (svProjects (s\<lparr>svStore := d, svRecords := mdel n (svRecords s)\<rparr>)) = projects (svStore (s\<lparr>svStore := d, svRecords := mdel n (svRecords s)\<rparr>))"
      using assms(1) g(3) by (simp add: in_step_def)
    fix m r
    show "keeps (recSpec r)" if "declared (svStore (s\<lparr>svStore := d, svRecords := mdel n (svRecords s)\<rparr>)) m = Some r" for m r
      using that g(2) assms(1) unfolding in_step_def by (simp split: if_splits)
    show "map_option (keep kept) (declared (svStore (s\<lparr>svStore := d, svRecords := mdel n (svRecords s)\<rparr>)) m)
        = map_option (keep kept) (map_of (svRecords (s\<lparr>svStore := d, svRecords := mdel n (svRecords s)\<rparr>)) m)"
      using assms(1) unfolding in_step_def by (cases "m = n") (simp_all add: g(2))
    assume "map_of (svRecords (s\<lparr>svStore := d, svRecords := mdel n (svRecords s)\<rparr>)) m = Some r"
    then have "map_of (svRecords s) m = Some r" by (simp split: if_splits)
    then show "sName (recSpec r) = m" "keeps (recSpec r)" "desired_ok r" using assms(1) unfolding in_step_def by blast+
  qed
  then show ?thesis unfolding s' track_same using track_same(1) by simp
qed

lemma same_good: "same s \<Longrightarrow> good (svStore s)"
  unfolding in_step_def by blast

lemma store_same:
  "same s \<Longrightarrow> good d \<and> declared d = declared (svStore s) \<and> projects d = map_of p \<Longrightarrow> same (s\<lparr>svStore := d, svProjects := p\<rparr>)"
  unfolding in_step_def by simp

lemma project_in_step:
  assumes "same s" and "envStore E = S"
  shows "keepsp p \<Longrightarrow> store_project E n p s = (None, s') \<Longrightarrow> same s'" and "drop_project E n s = (None, s') \<Longrightarrow> same s'"
proof -
  have m: "map_of (svProjects s) = projects (svStore s)" using assms(1) unfolding in_step_def by blast
  {
    assume "keepsp p" "store_project E n p s = (None, s')"
    then obtain d where d: "stPutProject S n p (svStore s) = (None, d)" "s' = s\<lparr>svStore := d, svProjects := mput n p (svProjects s)\<rparr>"
      using assms(2) by (auto simp: store_project_def split: option.splits prod.splits)
    then show "same s'"
      using store_same [OF assms(1)] put_project_law [OF same_good [OF assms(1)] \<open>keepsp p\<close> d(1)] m by simp
  next
    assume "drop_project E n s = (None, s')"
    then obtain d where d: "stDeleteProject S n (svStore s) = (None, d)" "s' = s\<lparr>svStore := d, svProjects := mdel n (svProjects s)\<rparr>"
      using assms(2) by (auto simp: drop_project_def split: option.splits prod.splits)
    then show "same s'" using store_same [OF assms(1)] delete_project_law [OF same_good [OF assms(1)] d(1)] m by simp
  }
qed

lemma delete_where_in_step: "same s \<Longrightarrow> envStore E = S \<Longrightarrow> delete_where E gone s = (None, s') \<Longrightarrow> same s'"
  unfolding delete_where_def
  by (erule foreach_None_inv [where P = same, rotated]) (auto split: prod.splits if_splits intro: delete_in_step)

lemma declare_in_step:
  assumes "same s" and "envStore E = S" and "list_all keeps specs" and "keepsp p" and "declare_project E n p specs s = (None, s')"
  shows "same s'"
proof -
  obtain s1 s2 where 1: "store_project E n p s = (None, s1)" and 2: "foreach (put E) specs s1 = (None, s2)"
    and 3: "delete_where E (\<lambda>m r. sProject (recSpec r) = n \<and> m \<notin> set (map sName specs)) s2 = (None, s')"
    using assms(5) by (auto simp: declare_project_def and_then_None)
  have "same s1" using project_in_step(1) [OF assms(1,2,4) 1] .
  then have "same s2"
    using 2 by (rule foreach_None_inv [where P = same, rotated])
      (use put_in_step [OF _ assms(2)] assms(3) in \<open>auto simp: list_all_iff\<close>)
  then show ?thesis using delete_where_in_step assms(2) 3 by blast
qed

lemma unmanaged_in_step: "same s \<Longrightarrow> unmanaged E specs s = (x, s') \<Longrightarrow> same s'"
  by (auto simp: unmanaged_def track_same split: sum.splits prod.splits)

lemma put_project_in_step:
  assumes "same s" and "envStore E = S" and "list_all keeps specs" and "keepsp p"
    and "put_project_locked E n p specs s = (None, s')"
  shows "same s'"
  using assms(5) declare_in_step [OF assms(1-4)] by (auto simp: put_project_locked_def split: option.splits)

lemma delete_project_in_step:
  assumes "same s" and "envStore E = S" and "delete_project E n s = (None, s')"
  shows "same s'"
proof -
  obtain s1 where 1: "delete_where E (\<lambda>m r. sProject (recSpec r) = n) s = (None, s1)" and 2: "drop_project E n s1 = (None, s')"
    using assms(3) by (auto simp: delete_project_def Let_def and_then_None split: if_splits)
  show ?thesis using project_in_step(2) [OF delete_where_in_step [OF assms(1,2) 1] assms(2) 2] .
qed

lemma set_desired_in_step:
  assumes "same s" and "envStore E = S" and "x = Running \<or> x = Stopped" and "set_desired E n x s = (None, s')"
  shows "same s'"
proof -
  obtain r where r: "map_of (svRecords s) n = Some r" using assms(4) by (auto simp: set_desired_def split: option.splits)
  have k: "keeps (recSpec r)" "sName (recSpec r) = n" using assms(1) r by (auto simp: in_step_def)
  have d: "desired_ok (r\<lparr>recDesired := x\<rparr>)" using assms(3) by (simp add: desired_ok_def)
  show ?thesis
    using assms(4) put_same [OF assms(1), of "r\<lparr>recDesired := x\<rparr>"] k d assms(1,2)
    by (auto simp: set_desired_def r and_then_None Let_def track_same split: if_splits option.splits prod.splits)
qed

lemma put_projects_in_step:
  assumes "same s" and "envStore E = S" and "\<forall>n p specs. envLoad E n p = Inr specs \<longrightarrow> list_all keeps specs"
    and "load_all E files (sorted_keys files) [] = Inr loaded" and "list_all (keepsp \<circ> snd) files"
    and "put_projects_locked E files loaded s = (None, s')"
  shows "same s'"
proof -
  obtain s2 s3 where 2: "delete_where E (\<lambda>name r. \<not> has_key loaded (sProject (recSpec r)) \<or> str_at (owners_of loaded) name \<noteq> sProject (recSpec r)) s = (None, s2)"
    and 3: "foreach (\<lambda>(n, _) s. if has_key files n then (None, s) else drop_project E n s) (svProjects s2) s2 = (None, s3)"
    and 4: "foreach (\<lambda>(n, specs) s. declare_project E n (case map_of files n of
             Some p \<Rightarrow> p | None \<Rightarrow> \<lparr>prjCompose = [], prjDir = []\<rparr>) specs s) loaded s3 = (None, s')"
    using assms(6) by (auto simp: put_projects_locked_def and_then_None)
  have keep: "list_all keeps specs" if "(n, specs) \<in> set loaded" for n specs
    using load_all_keeps [OF assms(4,3)] that by blast
  have filed: "keepsp (case map_of files n of Some p \<Rightarrow> p | None \<Rightarrow> \<lparr>prjCompose = [], prjDir = []\<rparr>)" for n
    using assms(5) keepsp_zero by (force simp: list_all_iff dest: map_of_SomeD split: option.split)
  have "same s2" using delete_where_in_step [OF assms(1,2) 2] .
  then have "same s3"
    using 3 by (rule foreach_None_inv [where P = same, rotated])
      (use project_in_step(2) [OF _ assms(2)] in \<open>auto split: if_splits\<close>)
  then show ?thesis
    using 4 by (rule foreach_None_inv [where P = same, rotated])
      (use declare_in_step [OF _ assms(2) keep filed] in \<open>auto split: prod.splits\<close>)
qed

lemma boot_in_step:
  assumes "same s" and "envStore E = S" and "list_all (\<lambda>(n, r). sName (recSpec r) = n \<and> keeps (recSpec r)) (svRecords s)"
    and "boot E s = (None, s')"
  shows "same s'"
proof -
  obtain s1 where 1: "foreach (boot_record E) (svRecords s) s = (None, s1)"
    and b: "(case stSetBootID S (oBootID (envOpts E)) (svStore s1) of
      (Some e, d) \<Rightarrow> (Some (EOther e), s1\<lparr>svStore := d\<rparr>) | (None, d) \<Rightarrow> (None, s1\<lparr>svStore := d\<rparr>)) = (None, s')"
    using assms(2,4) by (auto simp: boot_def and_then_None)
  obtain d where 2: "stSetBootID S (oBootID (envOpts E)) (svStore s1) = (None, d)" "s' = s1\<lparr>svStore := d\<rparr>"
    using b by (cases "stSetBootID S (oBootID (envOpts E)) (svStore s1)") (auto split: option.splits)
  have "same s1"
  proof (rule foreach_None_inv [where P = same, OF _ assms(1) 1])
    fix x u u'
    assume x: "x \<in> set (svRecords s)" "same u" "boot_record E x u = (None, u')"
    obtain n r where n: "x = (n, r)" "sName (recSpec r) = n" "keeps (recSpec r)" using x(1) assms(3) by (auto simp: list_all_iff)
    then obtain e where "stPut S (r\<lparr>recDesired := Running\<rparr>) (svStore u) = (None, e)"
      "u' = u\<lparr>svStore := e, svRecords := mput n (r\<lparr>recDesired := Running\<rparr>) (svRecords u)\<rparr>"
      using x(3) assms(2) by (auto simp: boot_record_def Let_def split: prod.splits option.splits)
    then show "same u'" using put_same [OF x(2), of "r\<lparr>recDesired := Running\<rparr>"] n by (simp add: desired_ok_def)
  qed
  then show ?thesis using store_same [of s1 d "svProjects s1"] boot_law [OF same_good 2(1)] 2(2) by (simp add: in_step_def)
qed

lemma new_in_step:
  assumes "good d" and "envStore E = S" and "stLoad S d = Inr (rs, bad)" and "map_of rs = declared d"
    and "\<And>n r. map_of rs n = Some r \<Longrightarrow> sName (recSpec r) = n \<and> keeps (recSpec r) \<and> desired_ok r"
    and "map_of projs = projects d"
  shows "same (new_sup d e sched rs projs)"
  using assms unfolding in_step_def new_sup_def by simp

end

section \<open>The files are such a store\<close>

text \<open>Nothing is waiting to be synced.\<close>

definition durable :: "disk \<Rightarrow> bool" where
  "durable d \<longleftrightarrow> safe d \<and> readable d \<and> (\<forall>p. views d p = {view d p})"

definition on_disk :: "disk \<Rightarrow> string \<Rightarrow> store_record option" where
  "on_disk d = record_in (view d Top)"

text \<open>The project a view of the directory \<open>projects\<close> declares for a name.\<close>

definition project_in :: "view \<Rightarrow> string \<Rightarrow> project option" where
  "project_in m n = (case m (n @ project_suffix) of None \<Rightarrow> None
     | Some b \<Rightarrow> if \<not> ValidName n then None
         else Some \<lparr>prjCompose = b, prjDir = trim_space (case m (n @ dir_suffix) of None \<Rightarrow> [] | Some t \<Rightarrow> t)\<rparr>)"

definition projects_on :: "disk \<Rightarrow> string \<Rightarrow> project option" where
  "projects_on d = project_in (view d Projects)"

text \<open>A project whose directory neither begins nor ends with a space (\<open>trailing_space_lost\<close>).\<close>

definition storable_project :: "project \<Rightarrow> bool" where
  "storable_project p \<longleftrightarrow> trimmed (prjDir p)"

definition storable_spec :: "spec \<Rightarrow> bool" where
  "storable_spec s \<longleftrightarrow> validate s = None \<and> utf8_spec s \<and> machine_spec s"

lemma storable_iff: "storable_spec (recSpec r) \<and> desired_ok r \<longleftrightarrow> storable r"
proof -
  have "utf8 Running" "utf8 Stopped" by code_simp+
  then show ?thesis by (auto simp: storable_spec_def storable_def desired_ok_def utf8_record_def)
qed

lemma stored_json: "spec_json (stored s) = spec_json s"
proof -
  have "str_map (elems (map_option sorted_env (nil_if_empty (sEnvironment s)))) = str_map (elems (sEnvironment s))"
    by (cases "sEnvironment s") (simp_all add: nil_if_empty_def str_map_def sorted_env_keys sorted_env_at)
  moreover have "elems (map_option sorted_env (nil_if_empty (sEnvironment s))) = [] \<longleftrightarrow> elems (sEnvironment s) = []"
  proof -
    have "length (sorted_env m) = length m" for m by (simp add: sorted_env_def sorted_keys_def)
    then show ?thesis by (cases "sEnvironment s") (simp_all add: nil_if_empty_def, metis length_0_conv)
  qed
  ultimately show ?thesis by (simp add: spec_json_def stored_def)
qed

lemma stored_storable: "storable_spec s \<Longrightarrow> storable_spec (stored s)"
proof -
  assume s: "storable_spec s"
  then have d: "distinct (map fst (elems (sEnvironment s)))" by (simp add: storable_spec_def machine_spec_def)
  have "map fst (sorted_env m) = sorted_keys m" for m by (simp add: sorted_env_def comp_def)
  then have "distinct (map fst (elems (map_option sorted_env (nil_if_empty (sEnvironment s)))))"
    using d by (cases "sEnvironment s") (auto simp: nil_if_empty_def sorted_keys_def)
  then show ?thesis using s valid_stored [OF d] stored_json [of s]
    by (simp add: storable_spec_def utf8_spec_def machine_spec_def stored_def)
qed

text \<open>Reading fails as before, whatever was written.\<close>

lemma next_fault_unreadable: "next_fault d = (x, d') \<Longrightarrow> dkUnreadable d' = dkUnreadable d"
  by (auto simp: next_fault_def split: list.splits)

lemma fallible_unreadable:
  assumes "\<And>d. dkUnreadable (snd (f d)) = dkUnreadable d"
  shows "dkUnreadable (snd (fallible f d)) = dkUnreadable d"
  by (rule fallible_cases [of f d]) (use assms in auto)

lemma call_unreadable [simp]:
  "dkUnreadable (snd (create_temp p n d)) = dkUnreadable d" "dkUnreadable (snd (write_file i b d)) = dkUnreadable d"
  "dkUnreadable (snd (sync_file i d)) = dkUnreadable d" "dkUnreadable (snd (close_file d)) = dkUnreadable d"
  "dkUnreadable (snd (rename_file p m n d)) = dkUnreadable d" "dkUnreadable (snd (remove_file p n d)) = dkUnreadable d"
  unfolding sync_file_def close_file_def rename_file_def remove_file_def
  by (auto simp: create_temp_def write_file_def Let_def set_directory_def set_inode_def sync_inode_def rename_entry_def remove_entry_def
      intro!: fallible_unreadable split: prod.splits option.splits dir_entry.splits bool.splits dest: next_fault_unreadable)

lemma sync_unreadable [simp]: "dkUnreadable (snd (sync_directory p d)) = dkUnreadable d"
  unfolding sync_directory_def
  by (rule and_then_inv [where P = "\<lambda>e. dkUnreadable e = dkUnreadable d"]) (simp_all add: fallible_unreadable sync_entries_def)

lemma or_close_unreadable [simp]: "dkUnreadable (snd (or_close m)) = dkUnreadable (snd m)"
  by (cases m) (simp add: or_close_def split: option.splits)

lemma write_unreadable [simp]: "dkUnreadable (snd (store_write p n b d)) = dkUnreadable d"
proof -
  have "dkUnreadable (snd (fill_and_rename p n b tmp i e)) = dkUnreadable e" for tmp i e
    unfolding fill_and_rename_def
    by (rule and_then_inv [where P = "\<lambda>x. dkUnreadable x = dkUnreadable e"], simp)+ simp
  note fill = this
  obtain t d1 where t: "create_temp p (''.'' @ n @ ''.'') d = (t, d1)" by fastforce
  then have d1: "dkUnreadable d1 = dkUnreadable d" using call_unreadable(1) by (metis snd_conv)
  show ?thesis
  proof (cases t)
    case (Inr x)
    obtain tmp i where "x = (tmp, i)" by fastforce
    then show ?thesis using t Inr d1 fill [of tmp i d1] by (simp add: store_write_def case_prod_beta)
  qed (use t d1 in \<open>simp add: store_write_def\<close>)
qed

lemma remove_unreadable [simp]: "dkUnreadable (snd (store_remove p n d)) = dkUnreadable d"
proof -
  obtain x d1 where x: "remove_file p n d = (x, d1)" by fastforce
  then have "dkUnreadable d1 = dkUnreadable d" using call_unreadable(6) by (metis snd_conv)
  then show ?thesis using x by (simp add: store_remove_def split: option.split)
qed

lemma nil_nil: "nil_if_empty (nil_if_empty x) = nil_if_empty x"
  by (simp add: nil_if_empty_def)

lemma stored_stored: "stored (stored s) = stored s"
proof -
  have env: "sorted_env (sorted_env m) = sorted_env m" for m
    unfolding sorted_env_def [of "sorted_env m"] sorted_env_keys
    by (rule trans [OF map_cong [OF refl] sorted_env_def [symmetric]]) (simp add: sorted_env_at)
  have "sorted_env m = [] \<longleftrightarrow> m = []" for m
  proof -
    have "length (sorted_env m) = length m" by (simp add: sorted_env_def sorted_keys_def)
    then show ?thesis by (metis length_0_conv)
  qed
  then have "map_option sorted_env (nil_if_empty (map_option sorted_env (nil_if_empty e))) = map_option sorted_env (nil_if_empty e)" for e
    using env by (cases e) (simp_all add: nil_if_empty_def)
  then show ?thesis by (simp add: stored_def nil_nil)
qed

lemma readable_cong: "dkUnreadable d' = dkUnreadable d \<Longrightarrow> readable d' = readable d"
  by (simp add: readable_def)

lemma durable_sel: "durable d \<Longrightarrow> safe d" "durable d \<Longrightarrow> readable d" "durable d \<Longrightarrow> views d p = {view d p}"
  by (simp_all add: durable_def)

lemma durable_write:
  assumes "durable d" and "\<not> dotted n" and "store_write p n b d = (None, d')"
  shows "durable d'" and "view d' p = (view d p)(n \<mapsto> b)" and "q \<noteq> p \<Longrightarrow> view d' q = view d q"
proof -
  from write_effect [OF durable_sel(1) [OF assms(1)] assms(2,3)]
  have c: "changed_to d p (\<lambda>m. m(n \<mapsto> b)) d'" "views d' p = {(view d p)(n \<mapsto> b)}" by auto
  then show v: "view d' p = (view d p)(n \<mapsto> b)" "q \<noteq> p \<Longrightarrow> view d' q = view d q" for q by (simp_all add: changed_to_def)
  have "readable d'" using durable_sel(2) [OF assms(1)] write_unreadable [of p n b d] assms(3) by (simp add: readable_def)
  moreover have "views d' q = {view d' q}" for q
    using c durable_sel(3) [OF assms(1), of q] by (cases "q = p") (auto simp: changed_to_def)
  ultimately show "durable d'" using c(1) by (simp add: durable_def changed_to_def)
qed

lemma durable_remove:
  assumes "durable d" and "\<not> dotted n" and "store_remove p n d = (None, d')"
  shows "durable d' \<and> view d' p = (view d p)(n := None) \<and> (\<forall>q. q \<noteq> p \<longrightarrow> view d' q = view d q)"
proof -
  have r: "readable d'" using durable_sel(2) [OF assms(1)] remove_unreadable [of p n d] assms(3) by (simp add: readable_def)
  from remove_effect [OF durable_sel(1) [OF assms(1)] assms(2,3)] show ?thesis
  proof
    assume "same_views d d' \<and> (None = None \<longrightarrow> view d p n = None)"
    then have s: "safe d'" "\<And>q. views d' q = views d q" "\<And>q. view d' q = view d q" "view d p n = None"
      by (simp_all add: same_views_def)
    then have "durable d'" using r durable_sel(3) [OF assms(1)] by (simp add: durable_def)
    then show ?thesis using s by (simp add: fun_upd_idem)
  next
    assume "changed_to d p (\<lambda>m. m(n := None)) d' \<and> (None = None \<longrightarrow> views d' p = {(view d p)(n := None)})"
    then have c: "changed_to d p (\<lambda>m. m(n := None)) d'" "views d' p = {(view d p)(n := None)}" by auto
    have "views d' q = {view d' q}" for q
      using c durable_sel(3) [OF assms(1), of q] by (cases "q = p") (auto simp: changed_to_def)
    then show ?thesis using c(1) r by (simp add: durable_def changed_to_def)
  qed
qed

text \<open>The files of a project.\<close>

lemma suffixes_differ [simp]: "n @ project_suffix \<noteq> m @ dir_suffix" "n @ dir_suffix \<noteq> m @ project_suffix"
  "boot_file \<noteq> n @ json_suffix" "dir_suffix \<noteq> project_suffix" "project_suffix \<noteq> dir_suffix"
proof -
  show "n @ project_suffix \<noteq> m @ dir_suffix" "n @ dir_suffix \<noteq> m @ project_suffix"
    by (auto simp: store_consts append_eq_append_conv2 Cons_eq_append_conv)
  have "last boot_file \<noteq> last (n @ json_suffix)" by (simp add: store_consts)
  then show "boot_file \<noteq> n @ json_suffix" by metis
qed (simp_all add: store_consts)

lemma project_in_put:
  assumes "ValidName n" and "storable_project p" and "m' (n @ dir_suffix) = (if prjDir p = [] then None else Some (prjDir p @ [CHR 0x0A]))"
    and "\<And>k. k \<noteq> n @ dir_suffix \<Longrightarrow> m' k = m k"
  shows "project_in (m'(n @ project_suffix \<mapsto> prjCompose p)) = (project_in m)(n \<mapsto> p)"
proof
  fix k
  have "trim_space [] = []" by code_simp
  then have "trim_space (case m' (n @ dir_suffix) of None \<Rightarrow> [] | Some t \<Rightarrow> t) = prjDir p"
    using assms(2) trim_space_line by (simp add: assms(3) storable_project_def)
  then show "project_in (m'(n @ project_suffix \<mapsto> prjCompose p)) k = ((project_in m)(n \<mapsto> p)) k"
    using assms(1,4) by (cases "k = n") (auto simp: project_in_def split: option.split)
qed

lemma project_in_delete:
  "project_in (m(n @ project_suffix := None, n @ dir_suffix := None)) = (project_in m)(n := None)"
  by (rule ext) (auto simp: project_in_def split: option.split)

lemma durable_put_project:
  assumes "durable d" and "storable_project p" and "store_put_project n p d = (None, d')"
  shows "durable d' \<and> on_disk d' = on_disk d \<and> projects_on d' = (projects_on d)(n \<mapsto> p)"
proof -
  let ?f = "n @ dir_suffix" and ?g = "n @ project_suffix"
  have v: "ValidName n" using assms(3) by (simp add: store_put_project_def split: if_splits)
  note nd = valid_not_dotted [OF v]
  obtain d1 where 1: "(if prjDir p = [] then store_remove Projects ?f d else store_write Projects ?f (prjDir p @ [CHR 0x0A]) d) = (None, d1)"
    and 2: "store_write Projects ?g (prjCompose p) d1 = (None, d')"
    using assms(3) v by (auto simp: store_put_project_def and_then_None io_def map_prod_def split: if_splits prod.splits)
  have f: "durable d1" "view d1 Projects ?f = (if prjDir p = [] then None else Some (prjDir p @ [CHR 0x0A]))"
    "\<And>k. k \<noteq> ?f \<Longrightarrow> view d1 Projects k = view d Projects k" "view d1 Top = view d Top"
    using durable_remove [OF assms(1) nd, of Projects dir_suffix d1] durable_write [OF assms(1) nd, of Projects dir_suffix "prjDir p @ [CHR 0x0A]" d1] 1
    by (auto split: if_splits)
  note w = durable_write [OF f(1) nd 2]
  have "project_in ((view d1 Projects)(?g \<mapsto> prjCompose p)) = (project_in (view d Projects))(n \<mapsto> p)"
    by (rule project_in_put [where m' = "view d1 Projects", OF v assms(2)]) (rule f(2), rule f(3))
  then show ?thesis using w(1) w(3) [of Top] f(4) by (simp add: on_disk_def projects_on_def w(2))
qed

lemma durable_delete_project:
  assumes "durable d" and "store_delete_project n d = (None, d')"
  shows "durable d' \<and> on_disk d' = on_disk d \<and> projects_on d' = (projects_on d)(n := None)"
proof -
  have v: "ValidName n" using assms(2) by (simp add: store_delete_project_def split: if_splits)
  obtain d1 where 1: "store_remove Projects (n @ project_suffix) d = (None, d1)" and 2: "store_remove Projects (n @ dir_suffix) d1 = (None, d')"
    using assms(2) v by (auto simp: store_delete_project_def and_then_None io_def map_prod_def split: prod.splits)
  have r: "durable d1" "view d1 Projects = (view d Projects)(n @ project_suffix := None)" "view d1 Top = view d Top"
    using durable_remove [OF assms(1) valid_not_dotted [OF v] 1] by simp_all
  have "durable d'" "view d' Projects = (view d1 Projects)(n @ dir_suffix := None)" "view d' Top = view d1 Top"
    using durable_remove [OF r(1) valid_not_dotted [OF v] 2] by simp_all
  then show ?thesis using r(2,3) project_in_delete [of "view d Projects" n] by (simp add: on_disk_def projects_on_def)
qed

interpretation files: record_store "disk_store text bad_text" durable on_disk projects_on storable_spec stored storable_project
proof
  fix d r d'
  assume d: "durable d" "storable_spec (recSpec r)" "desired_ok r" "stPut (disk_store text bad_text) r d = (None, d')"
  then have st: "storable r" using storable_iff by blast
  then have v: "ValidName (sName (recSpec r))" by (rule storable_name)
  have w: "store_write Top (sName (recSpec r) @ json_suffix) (record_text r) d = (None, d')"
    using d(4) v by (auto simp: disk_store_def store_put_def io_def map_prod_def split: prod.splits)
  note e = durable_write [OF d(1) valid_not_dotted [OF v] w]
  show "durable d' \<and> on_disk d' = (on_disk d)(sName (recSpec r) \<mapsto> keep stored r) \<and> projects_on d' = projects_on d"
    using e(1) e(3) [of Projects] by (simp add: on_disk_def projects_on_def e(2) record_in_put [OF st] keep_def)
next
  fix d n d'
  assume d: "durable d" "stDelete (disk_store text bad_text) n d = (None, d')"
  then have v: "ValidName n" by (auto simp: disk_store_def store_delete_def map_prod_def split: prod.splits if_splits)
  have "store_remove Top (n @ json_suffix) d = (None, d')"
    using d(2) v by (auto simp: disk_store_def store_delete_def io_def map_prod_def split: prod.splits)
  from durable_remove [OF d(1) valid_not_dotted [OF v] this]
  show "durable d' \<and> on_disk d' = (on_disk d)(n := None) \<and> projects_on d' = projects_on d"
    by (simp add: on_disk_def projects_on_def record_in_delete)
next
  fix d n p d'
  assume "durable d" "storable_project p" "stPutProject (disk_store text bad_text) n p d = (None, d')"
  then show "durable d' \<and> on_disk d' = on_disk d \<and> projects_on d' = (projects_on d)(n \<mapsto> p)"
    using durable_put_project by (auto simp: disk_store_def map_prod_def split: prod.splits)
next
  fix d n d'
  assume "durable d" "stDeleteProject (disk_store text bad_text) n d = (None, d')"
  then show "durable d' \<and> on_disk d' = on_disk d \<and> projects_on d' = (projects_on d)(n := None)"
    using durable_delete_project by (auto simp: disk_store_def map_prod_def split: prod.splits)
next
  fix d i d'
  assume d: "durable d" "stSetBootID (disk_store text bad_text) i d = (None, d')"
  then have "store_write Top boot_file (i @ [CHR 0x0A]) d = (None, d')"
    by (auto simp: disk_store_def store_set_boot_id_def io_def map_prod_def split: prod.splits)
  note e = durable_write [OF d(1) boot_not_dotted this]
  have "record_in (view d' Top) = record_in (view d Top)" by (rule ext) (simp add: record_in_def e(2) suffixes_differ(3) [symmetric])
  then show "durable d' \<and> on_disk d' = on_disk d \<and> projects_on d' = projects_on d"
    using e(1) e(3) [of Projects] by (simp add: on_disk_def projects_on_def)
next
  show "storable_project \<lparr>prjCompose = [], prjDir = []\<rparr>" unfolding storable_project_def by code_simp
qed (rule stored_stored, rule stored_storable)

section \<open>Memory and disk\<close>

abbreviation on_disk_in_step :: "(disk, 'e) sup \<Rightarrow> bool" where
  "on_disk_in_step s \<equiv> in_step durable on_disk projects_on storable_spec stored s"

text \<open>What a power loss leaves of a disk with nothing to sync is what was there.\<close>

lemma crashed_durable:
  assumes "durable d" and "crashed d d'"
  shows "view d' p = view d p" and "readable d' \<Longrightarrow> durable d'"
proof -
  have c: "safe d'" "\<And>q. view d' q \<in> views d q" using crashed_view [OF durable_sel(1) [OF assms(1)] assms(2)] by blast+
  then show "view d' p = view d p" using durable_sel(3) [OF assms(1)] by blast
  have "views d' q = {view d' q}" for q
  proof -
    obtain v where "dkDirs d' q = [v]" using assms(2) unfolding crashed_def by blast
    then show ?thesis by (simp add: current_def)
  qed
  then show "readable d' \<Longrightarrow> durable d'" using c(1) by (simp add: durable_def)
qed

lemma in_step_survives:
  assumes "on_disk_in_step s" and "crashed (svStore s) d" and "readable d"
  shows "\<exists>rs bad. store_load d = Inr (rs, bad)
    \<and> (\<forall>n. map_option (keep stored) (map_of rs n) = map_option (keep stored) (map_of (svRecords s) n))"
proof -
  have g: "durable (svStore s)" and e: "\<And>n. map_option (keep stored) (on_disk (svStore s) n) = map_option (keep stored) (map_of (svRecords s) n)"
    using assms(1) unfolding in_step_def by blast+
  show ?thesis using store_load_reads [OF assms(3)] crashed_durable(1) [OF g assms(2), of Top] e by (auto simp: on_disk_def)
qed

text \<open>\<open>Projects\<close> reads the view of its directory.\<close>

lemma projects_of_reads:
  assumes "readable d"
  shows "projects_of d es projs = Inr r \<Longrightarrow> (\<And>f x. (f, x) \<in> set es \<Longrightarrow> map_of (current Projects d) f = Some x) \<Longrightarrow>
    map_of r n = (if list_ex (names_file (n @ project_suffix)) es \<and> project_in (view d Projects) n \<noteq> None
      then project_in (view d Projects) n else map_of projs n)"
proof (induction es arbitrary: projs)
  case (Cons e es)
  obtain f x where e: "e = (f, x)" by fastforce
  have ih: "projects_of d es ps = Inr r \<Longrightarrow> map_of r n = (if list_ex (names_file (n @ project_suffix)) es \<and> project_in (view d Projects) n \<noteq> None
      then project_in (view d Projects) n else map_of ps n)" for ps
    using Cons by auto
  show ?case
  proof (cases "\<exists>m. f = m @ project_suffix \<and> \<not> is_dir x \<and> \<not> dotted f \<and> ValidName m")
    case False
    then have "projects_of d es projs = Inr r"
      using Cons.prems(1) by (cases "cut_suffix f project_suffix") (auto simp: e cut_suffix_Some)
    moreover have "names_file (n @ project_suffix) e \<Longrightarrow> project_in (view d Projects) n = None"
      using False by (auto simp: e names_file_def project_in_def split: option.split)
    ultimately show ?thesis using ih by auto
  next
    case True
    then obtain m where m: "f = m @ project_suffix" "\<not> is_dir x" "\<not> dotted f" "ValidName m" by blast
    obtain i where x: "x = FileEntry i" using m(2) by (cases x) auto
    define b where "b = inData (dkInodes d ! i)"
    have cur: "map_of (current Projects d) f = Some (FileEntry i)" using Cons.prems(2) e x by simp
    then have "read_file Projects f d = Inr b" using assms by (simp add: read_file_def readable_def b_def)
    moreover have "cut_suffix f project_suffix = Some m" using m(1) by (simp add: cut_suffix_Some)
    ultimately have p: "(case read_file Projects (m @ dir_suffix) d of
         Inl e \<Rightarrow> if e \<noteq> NotExist then Inl e else projects_of d es (mput m \<lparr>prjCompose = b, prjDir = trim_space []\<rparr> projs)
       | Inr t \<Rightarrow> projects_of d es (mput m \<lparr>prjCompose = b, prjDir = trim_space t\<rparr> projs)) = Inr r"
      using Cons.prems(1) m by (simp add: e)
    have nd: "\<not> dotted (m @ dir_suffix)" by (rule valid_not_dotted [OF m(4)])
    have v: "view d Projects f = Some b" using cur m(3) by (simp add: vis_def b_def)
    have t: "projects_of d es (mput m \<lparr>prjCompose = b, prjDir = trim_space (case view d Projects (m @ dir_suffix) of None \<Rightarrow> [] | Some t \<Rightarrow> t)\<rparr> projs) = Inr r"
      using p assms nd by (auto simp: read_file_def readable_def vis_def split: option.splits dir_entry.splits)
    have pm: "project_in (view d Projects) m = Some \<lparr>prjCompose = b, prjDir = trim_space (case view d Projects (m @ dir_suffix) of None \<Rightarrow> [] | Some t \<Rightarrow> t)\<rparr>"
      using v m(1,4) by (simp add: project_in_def)
    have nf: "names_file (n @ project_suffix) e \<longleftrightarrow> n = m" using m by (auto simp: e names_file_def)
    show ?thesis using ih [OF t] pm by (auto simp: nf)
  qed
qed simp

lemma store_projects_reads:
  assumes "readable d" and "store_projects d = Inr projs"
  shows "map_of projs = projects_on d"
proof
  fix n
  let ?es = "sorted_entries (current Projects d)"
  have es: "map_of (current Projects d) f = Some x" if "(f, x) \<in> set ?es" for f x
    using that by (auto simp: sorted_entries_def split: option.splits)
  have "projects_of d ?es [] = Inr projs" using assms by (simp add: store_projects_def read_dir_def readable_def)
  note r = projects_of_reads [OF assms(1) this es, of n]
  have "list_ex (names_file (n @ project_suffix)) ?es" if found: "project_in (view d Projects) n \<noteq> None"
  proof -
    let ?f = "n @ project_suffix"
    obtain b where "view d Projects ?f = Some b" using found by (cases "view d Projects ?f") (auto simp: project_in_def)
    then obtain i where i: "\<not> dotted ?f" "map_of (current Projects d) ?f = Some (FileEntry i)" by (auto simp: vis_Some)
    then have "?f \<in> set (sorted_keys (current Projects d))" by (force simp: map_of_eq_None_iff dest: map_of_SomeD)
    then have "(?f, FileEntry i) \<in> set ?es" using i(2) by (force simp: sorted_entries_def)
    then show ?thesis using i(1) by (force simp: list_ex_iff names_file_def)
  qed
  then show "map_of projs n = projects_on d n" using r by (cases "project_in (view d Projects) n") (auto simp: projects_on_def)
qed

definition one_disk :: disk where
  "one_disk = snd (store_put one_record empty_disk)"

definition one_sup :: "(disk, unit) sup" where
  "one_sup = new_sup one_disk () [] [(''web-app-1'', one_record)] []"

definition disk_env :: "(disk, 'e) env \<Rightarrow> (disk, 'e) env" where
  "disk_env E = E\<lparr>envStore := disk_store (\<lambda>_. ''error'') (\<lambda>_. ''bad file''), envLoad := (\<lambda>_ _. Inl (EOther ''no file''))\<rparr>"

lemma empty_durable: "durable empty_disk"
  using empty_safe by (simp add: durable_def) (simp add: empty_disk_def readable_def current_def)

lemma empty_holds: "on_disk empty_disk = Map.empty" "projects_on empty_disk = Map.empty"
  by (rule ext, simp add: on_disk_def projects_on_def record_in_def project_in_def vis_def empty_disk_def current_def)+

lemma one_disk_durable:
  "durable one_disk \<and> on_disk one_disk = [''web-app-1'' \<mapsto> one_record] \<and> projects_on one_disk = Map.empty"
proof -
  note e = empty_durable
  have "store_write Top (sName (recSpec one_record) @ json_suffix) (record_text one_record) empty_disk = (None, one_disk)"
    using one_put unfolding one_disk_def store_put_def
    by (cases "store_write Top (sName (recSpec one_record) @ json_suffix) (record_text one_record) empty_disk") (auto simp: one_name io_def)
  from durable_write [OF e valid_not_dotted this] have d: "durable one_disk"
    "view one_disk Top = (view empty_disk Top)(sName (recSpec one_record) @ json_suffix \<mapsto> record_text one_record)"
    "view one_disk Projects = view empty_disk Projects"
    by (simp_all add: one_name)
  have "stored one_spec = one_spec" by (simp add: stored_def one_spec_def nil_if_empty_def)
  then have "one_record\<lparr>recSpec := stored (recSpec one_record)\<rparr> = one_record" by (simp add: one_record_def)
  then have "on_disk one_disk = (record_in (view empty_disk Top))(''web-app-1'' \<mapsto> one_record)"
    unfolding on_disk_def d(2) record_in_put [OF one_storable] by (simp add: one_name)
  moreover have "record_in (view empty_disk Top) = Map.empty" using empty_holds(1) by (simp add: on_disk_def)
  ultimately show ?thesis using d(1,3) empty_holds(2) by (simp add: projects_on_def)
qed

lemma one_sup_in_step: "on_disk_in_step one_sup"
proof -
  have "storable_spec (recSpec one_record) \<and> desired_ok one_record" using one_storable storable_iff by blast
  then show ?thesis unfolding one_sup_def in_step_def new_sup_def using one_disk_durable one_name(1) by auto
qed

end
