(* ===== verification/Daemon.thy ===== *)
theory Daemon
  imports Typed Check Durable
begin

text \<open>
  The daemon as a whole: a relation of its states over its start, the requests of the API and the passes, with
  whatever API calls take the mutex inside a pass. The store is the disk and a project is loaded by the
  compose checker.
\<close>

section \<open>The start\<close>

text \<open>What the store gives \<open>New\<close>.\<close>

definition stores_typed :: "('d, 'e) env \<Rightarrow> 'd \<Rightarrow> bool" where
  "stores_typed E d \<longleftrightarrow>
     (\<forall>recs bad. stLoad (envStore E) d = Inr (recs, bad) \<longrightarrow> distinct (map fst recs) \<and> list_all record_ok recs)
   \<and> (\<forall>projs. stProjects (envStore E) d = Inr projs \<longrightarrow> distinct (map fst projs))"

lemma typed_boot: "typed s \<Longrightarrow> typed (snd (boot E s))"
proof -
  assume t: "typed s"
  have b: "typed (snd (boot_record E nr u))" if "record_ok nr" "typed u" for nr and u :: "('a, 'b) sup"
  proof -
    have "record_ok (fst nr, (snd nr)\<lparr>recDesired := Running\<rparr>)" using that(1) by (simp add: record_ok_def)
    then show ?thesis using that(2)
      by (auto simp: boot_record_def Let_def typed_def distinct_mput list_all_mput split: prod.split option.split)
  qed
  have "typed (snd (foreach (boot_record E) (svRecords s) s))"
  proof (rule foreach_inv)
    fix nr and u :: "('a, 'b) sup"
    assume "nr \<in> set (svRecords s)" "typed u"
    moreover have "list_all record_ok (svRecords s)" using t by (simp add: typed_def)
    ultimately show "typed (snd (boot_record E nr u))" using b unfolding list_all_iff by blast
  qed (rule t)
  then show ?thesis unfolding boot_def
    by (rule and_then_inv [where P = typed]) (simp add: typed_def split: prod.split option.split)
qed

text \<open>Whether \<open>New\<close> starts the containers of a new boot.\<close>

definition boots :: "('d, 'e) env \<Rightarrow> 'd \<Rightarrow> bool" where
  "boots E d \<longleftrightarrow> (case stBootID (envStore E) d of Inl e \<Rightarrow> False
     | Inr i \<Rightarrow> oBootID (envOpts E) \<noteq> [] \<and> i \<noteq> oBootID (envOpts E))"

lemma typed_new:
  assumes "stores_typed E d" and "new E d en sched = (None, s)" and "list_all (list_all (admissible validates desirable)) sched"
  shows "typed s"
proof -
  obtain recs bad projs where r: "stLoad (envStore E) d = Inr (recs, bad)" and p: "stProjects (envStore E) d = Inr projs"
    using assms(2) by (auto simp: new_def split: sum.splits prod.splits)
  let ?s = "new_sup d en sched recs projs"
  have t: "typed ?s" using assms(1,3) r p by (simp add: stores_typed_def typed_def new_sup_def)
  show ?thesis
  proof (cases "boots E d")
    case True
    then have "boot E ?s = (None, s)"
      using assms(2) by (simp add: new_def r p Let_def boots_def split: sum.splits)
    then show ?thesis using typed_boot [OF t, of E] by simp
  next
    case False
    then have "?s = s" using assms(2) by (simp add: new_def r p Let_def boots_def split: sum.splits)
    then show ?thesis using t by simp
  qed
qed

section \<open>The disk and the checker\<close>

lemma load_record_ok: "load_record name b = Inr r \<Longrightarrow> record_ok (name, r)"
  by (auto simp: load_record_def record_ok_def split: option.splits if_splits)

lemma load_entries_typed:
  "load_entries d es records bad = Inr (recs, bad') \<Longrightarrow> distinct (map fst records) \<Longrightarrow> list_all record_ok records \<Longrightarrow>
   distinct (map fst recs) \<and> list_all record_ok recs"
proof (induction d es records bad rule: load_entries.induct)
  case (2 d f x es records bad)
  show ?case
  proof (cases "cut_suffix f json_suffix")
    case None
    then show ?thesis using 2(1) 2(5-7) by simp
  next
    case (Some name)
    show ?thesis
    proof (cases "is_dir x \<or> has_prefix f ''.''")
      case True
      then show ?thesis using 2(2) [OF Some] 2(5-7) Some by simp
    next
      case False
      then obtain b where b: "read_file Top f d = Inr b" using 2(5) Some by (auto split: sum.splits)
      show ?thesis
      proof (cases "load_record name b")
        case (Inl why)
        then show ?thesis using 2(3) [OF Some False b] 2(5-7) Some False b by simp
      next
        case (Inr r)
        then have "distinct (map fst (mput name r records)) \<and> list_all record_ok (mput name r records)"
          using 2(6,7) load_record_ok by (simp add: distinct_mput list_all_mput)
        then show ?thesis using 2(4) [OF Some False b Inr] 2(5) Some False b Inr by simp
      qed
    qed
  qed
qed simp

lemma projects_of_distinct:
  "projects_of d es projs = Inr projs' \<Longrightarrow> distinct (map fst projs) \<Longrightarrow> distinct (map fst projs')"
  by (induction d es projs rule: projects_of.induct)
    (auto simp: distinct_mput split: option.splits sum.splits if_splits)

lemma disk_stores_typed: "envStore E = disk_store words bad_words \<Longrightarrow> stores_typed E d"
  unfolding stores_typed_def
  by (auto simp: disk_store_def store_load_def store_projects_def map_sum_def
      dest: load_entries_typed projects_of_distinct split: sum.splits)

text \<open>What the checker loads validates.\<close>

lemma compose_loads: "envLoad E = compose_loader L F volumes \<Longrightarrow> loads validates E"
  by (auto simp: loads_def compose_loader_def loaded_valid split: option.splits sum.splits)

section \<open>The states of the daemon\<close>

text \<open>A section under the mutex is one a call of the API makes.\<close>

fun section_of :: "('d, 'e) env \<Rightarrow> api_op \<Rightarrow> bool" where
  "section_of E (OpPutProject n p specs) \<longleftrightarrow> envLoad E n p = Inr specs"
| "section_of E (OpPutProjects files loaded) \<longleftrightarrow> load_all E files (sorted_keys files) [] = Inr loaded"
| "section_of E (OpSetDesired n d) \<longleftrightarrow> d = Running \<or> d = Stopped"
| "section_of E _ \<longleftrightarrow> True"

lemma section_admissible: "loads validates E \<Longrightarrow> section_of E p \<Longrightarrow> admissible validates desirable p"
  by (cases p) (auto simp: admissible_def dest: load_all_loads, simp add: loads_def)

text \<open>
  The daemon starts on any disk and with any containers; it answers requests, makes passes, during which
  sections of the API run wherever the mutex is free, and followers of events come and go. Between the steps
  the engine does as it likes.
\<close>

inductive reached :: "('d, 'e) server \<Rightarrow> ('d, 'e) sup \<Rightarrow> bool" for S :: "('d, 'e) server" where
  started: "new (srvEnv S) d en [] = (None, s) \<Longrightarrow> reached S s"
| asked: "reached S s \<Longrightarrow> reached S (snd (handle S rq s))"
| passed: "reached S s \<Longrightarrow> list_all (list_all (section_of (srvEnv S))) sched \<Longrightarrow>
    reached S (snd (pass (srvEnv S) clk pub (s\<lparr>svSched := sched\<rparr>)))"
| follows: "reached S s \<Longrightarrow> reached S (subscribe i s)"
| leaves: "reached S s \<Longrightarrow> reached S (unsubscribe i s)"
| engine: "reached S s \<Longrightarrow> reached S (s\<lparr>svEngine := en\<rparr>)"

lemma sections_admissible:
  "loads validates E \<Longrightarrow> list_all (list_all (section_of E)) sched \<Longrightarrow> list_all (list_all (admissible validates desirable)) sched"
  using section_admissible by (fastforce simp: list_all_iff)

lemma typed_sched: "typed s \<Longrightarrow> list_all (list_all (admissible validates desirable)) sched \<Longrightarrow> typed (s\<lparr>svSched := sched\<rparr>)"
  by (simp add: typed_def)

text \<open>
  C40: Every state of the daemon is well-formed. However it started, whatever was asked of it and however the
  passes and the requests interleaved: a container has one record, kept under its own name, whose spec
  validates and whose desired state is running or stopped; every other map of the supervisor has a key once; no
  follower's channel holds more than its 64 changes. The daemon never has to be told a spec is valid: what the
  disk gives at the start and what the compose checker loads is all that gets in.
\<close>

theorem states_typed:
  assumes "reached S s" and "envStore (srvEnv S) = disk_store words bad_words"
    and "envLoad (srvEnv S) = compose_loader L F volumes"
  shows "typed s"
  using assms(1)
proof induction
  case (started d en s)
  show ?case by (rule typed_new [OF disk_stores_typed [OF assms(2)] started]) simp
next
  case (asked s rq)
  show ?case by (rule well_formed.handle_kept [OF compose_loads [OF assms(3)] asked.IH])
next
  case (passed s sched clk pub)
  show ?case
    by (intro well_formed.pass_kept typed_sched passed.IH sections_admissible [OF compose_loads [OF assms(3)] passed(2)])
qed (simp_all add: well_formed.followed well_formed.left well_formed.engine)

text \<open>A daemon over a disk with one record, started and asked to delete its project.\<close>

definition disk_rig :: "(disk, fake) server" where
  "disk_rig = \<lparr>srvEnv = \<lparr>envStore = disk_store (\<lambda>_. ''error'') (\<lambda>_. ''bad file''), envEngine = fake sImage, envHash = sImage,
       envOpts = default_options \<lparr>oBootID = [], oBootTime = rig_boot, oResync = 0, oStopTimeout = 0, oVolumes = []\<rparr>,
       envLoad = compose_loader one_lib link_fs ''/volumes''\<rparr>,
     srvInfo = \<lparr>infVersion = ''dev'', infStore = ''/var/lib/mica/containerd'', infBootID = [], infStarted = rig_boot\<rparr>,
     srvLogs = (\<lambda>n tail follow f. (Inr [([], True)], f)),
     srvStamp = show_int, srvWords = (\<lambda>d. ''refused''), srvSpecWords = (\<lambda>e. ''refused''), srvJsonWords = (\<lambda>b. ''not JSON''),
     srvTailWords = (\<lambda>v. ''not a number of lines''), srvRedirect = 307\<rparr>"

lemma states_typed_witness:
  "\<exists>s. reached disk_rig s \<and> has_key (svRecords s) ''web-app-1''
     \<and> typed (snd (handle disk_rig (rig_request ''DELETE'' ''/v1/projects/web'' []) s))"
proof -
  note one_sup_in_step
  moreover have "crashed (svStore one_sup) (settled one_disk)" "readable (settled one_disk)"
    using one_disk_durable crashed_settled by (auto simp: durable_def readable_def settled_def one_sup_def new_sup_def)
  ultimately obtain rs bad where l: "store_load (settled one_disk) = Inr (rs, bad)"
    and k: "map_option (keep stored) (map_of rs ''web-app-1'') = map_option (keep stored) (map_of (svRecords one_sup) ''web-app-1'')"
    using in_step_survives by blast
  have p: "store_projects (settled one_disk) = Inr []" and b: "store_boot_id (settled one_disk) = Inr []" by code_simp+
  let ?s = "new_sup (settled one_disk) fake0 [] rs []"
  have "new (srvEnv disk_rig) (settled one_disk) fake0 [] = (None, ?s)"
    by (simp add: new_def disk_rig_def disk_store_def l p b default_options_def)
  then have r: "reached disk_rig ?s" by (rule reached.started)
  have h: "has_key (svRecords ?s) ''web-app-1''"
    using k by (cases "map_of rs ''web-app-1''") (simp_all add: new_sup_def one_sup_def)
  have "envStore (srvEnv disk_rig) = disk_store (\<lambda>_. ''error'') (\<lambda>_. ''bad file'')"
    "envLoad (srvEnv disk_rig) = compose_loader one_lib link_fs ''/volumes''" by (simp_all add: disk_rig_def)
  from states_typed [OF reached.asked [OF r] this] r h show ?thesis by blast
qed

end
