(* ===== verification/DepsFirst.thy ===== *)
theory DepsFirst
  imports Guarantees
begin

text \<open>
  \<open>depends_on\<close>: no container is started before what it depends on is ready (\<open>dependencies_first\<close>), for every
  interleaving with the API and every engine.
\<close>

section \<open>The sections of the API\<close>

text \<open>
  The sections of the API that run while the mutex is released, as a contract: what keeps \<open>P\<close> across the few
  operations they are made of keeps it across them all, and so across every unlocked call.
\<close>

locale sections =
  fixes E :: "('d, 'e) env" and P :: "('d, 'e) sup \<Rightarrow> bool"
  assumes by_put: "P s \<Longrightarrow> P (snd (put E sp s))"
    and by_delete: "P s \<Longrightarrow> P (snd (delete E n s))"
    and by_projects: "P s \<Longrightarrow> P (snd (store_project E n p s))" "P s \<Longrightarrow> P (snd (drop_project E n s))"
    and by_desired: "P s \<Longrightarrow> P (snd (set_desired E n st s))"
    and by_mark: "P s \<Longrightarrow> P (mark_restart n s)"
    and by_call: "P s \<Longrightarrow> P (s\<lparr>svEngine := en, svSched := rest\<rparr>)"
begin

lemma by_delete_where: "P s \<Longrightarrow> P (snd (delete_where E gone s))"
  unfolding delete_where_def by (rule foreach_inv) (auto simp: by_delete)

lemma by_declare: "P s \<Longrightarrow> P (snd (declare_project E n p specs s))"
  unfolding declare_project_def
  by (intro and_then_inv [where P = P] by_projects(1) by_delete_where foreach_inv [where P = P]) (auto simp: by_put)

lemma by_put_projects: "P s \<Longrightarrow> P (snd (put_projects_locked E files loaded s))"
  unfolding put_projects_locked_def
  by (intro and_then_inv [where P = P] by_delete_where foreach_inv [where P = P]) (auto simp: by_declare by_projects(2))

lemma by_step: "P s \<Longrightarrow> P (api_step E p s)"
proof (cases p)
  case (OpDeleteProject n)
  moreover assume "P s"
  ultimately show ?thesis
    by (simp add: delete_project_def Let_def) (rule and_then_inv [where P = P], auto simp: by_delete_where by_projects(2))
qed (auto simp: put_project_locked_def by_declare by_put_projects by_desired by_mark split: option.split)

lemma by_unlocked: "P s \<Longrightarrow> P (snd (unlocked E n call s))"
proof -
  assume p: "P s"
  have "P u \<Longrightarrow> P (fold (api_step E) ops u)" for ops u by (induction ops arbitrary: u) (simp_all add: by_step)
  moreover have "P (s\<lparr>svEngine := en\<rparr>)" for en
    using by_call [OF p, where en = en and rest = "svSched s"] by simp
  ultimately show ?thesis
    using by_call [OF p] by (auto simp: unlocked_def interfere_def Let_def split: prod.split list.split)
qed

end

text \<open>Filling in the defaults does not change what a dependency asks for.\<close>

lemma ready_normalized: "dReady (normalized_dependency d) = ReadyHealthy \<longleftrightarrow> dReady d = ReadyHealthy"
  "dName (normalized_dependency d) = dName d"
  by (simp_all add: normalized_dependency_def spec_consts)

section \<open>Dependencies first\<close>

text \<open>What \<open>d\<close> asks for is not what is tracked; no call of the API can make it so.\<close>

definition blocked :: "dependency \<Rightarrow> ('d, 'e) sup \<Rightarrow> bool" where
  "blocked d s \<longleftrightarrow> (case map_of (svTrack s) (dName d) of None \<Rightarrow> True
     | Some t \<Rightarrow> tPhase t \<noteq> PhaseRunning \<or> dReady d = ReadyHealthy \<and> tHealth t \<noteq> HealthHealthy)"

lemma blocked_track: "blocked d s \<Longrightarrow> map_of (svTrack s') (dName d) = map_of (svTrack s) (dName d) \<Longrightarrow> blocked d s'"
  by (simp add: blocked_def)

lemma blocked_touch [simp]: "blocked d (touch n s) = blocked d s"
  by (simp add: blocked_def touch_def poke_def Let_def)

interpretation waits_for: sections E "blocked d" for E d
proof unfold_locales
  fix s :: "('a, 'b) sup" and n
  assume b: "blocked d s"
  show "blocked d (snd (put E sp s))" for sp
    using b by (auto simp: put_def Let_def blocked_def touch_def poke_def set_t_def forced_def zero_tracking_def split: prod.split option.split)
  show "blocked d (snd (delete E n s))"
    using b by (auto simp: delete_def blocked_def touch_def poke_def Let_def split: prod.split option.split)
  show "blocked d (snd (store_project E n p s))" "blocked d (snd (drop_project E n s))" for p
    using b by (auto simp: store_project_def drop_project_def blocked_def split: prod.split option.split)
  show "blocked d (snd (set_desired E n st s))" for st
    using b by (auto simp: set_desired_def and_then_def Let_def blocked_def touch_def poke_def set_t_def forced_def zero_tracking_def
        split: prod.split option.split)
  show "blocked d (mark_restart n s)"
    using b by (auto simp: mark_restart_def blocked_def upd_t_def touch_def poke_def Let_def set_t_def get_t_def zero_tracking_def split: option.split option.split_asm)
  show "blocked d (s\<lparr>svEngine := en, svSched := rest\<rparr>)" for en rest
    using b by (simp add: blocked_def)
qed

text \<open>The calls of a reconcile that begins while a dependency blocks it.\<close>

definition held_up :: "dependency \<Rightarrow> ('d, 'e \<times> call list) sup \<Rightarrow> ('d, 'e \<times> call list) sup \<Rightarrow> bool" where
  "held_up d s0 s \<longleftrightarrow> blocked d s \<and> (\<exists>cs. snd (svEngine s) = snd (svEngine s0) @ cs \<and> list_all (\<lambda>k. \<not> starts k) cs)"

lemma held_up_call:
  assumes "held_up d s0 s" "snd (snd (call (svEngine s))) = snd (svEngine s) @ [k]" "\<not> starts k"
  shows "held_up d s0 (snd (unlocked E n call s))"
proof -
  obtain cs where "snd (svEngine s) = snd (svEngine s0) @ cs" "list_all (\<lambda>k. \<not> starts k) cs" using assms(1) by (auto simp: held_up_def)
  then have "snd (svEngine (snd (unlocked E n call s))) = snd (svEngine s0) @ (cs @ [k])" "list_all (\<lambda>k. \<not> starts k) (cs @ [k])"
    using assms(2,3) by (simp_all add: unlocked_engine)
  then show ?thesis using waits_for.by_unlocked [of d s E n call] assms(1) unfolding held_up_def by blast
qed

lemma blocked_unready:
  assumes "d \<in> set (sDependsOn (recSpec r))" "blocked d s"
  shows "unready s (normalized (recSpec r)) \<noteq> []"
proof -
  have "unready_deps s (map normalized_dependency ds) \<noteq> []" if "d \<in> set ds" for ds
    using that assms(2)
    by (induction ds) (auto simp: blocked_def ready_normalized split: option.splits)
  then show ?thesis using assms(1) by (simp add: unready_def)
qed

lemma held_up_steps:
  assumes "d \<in> set (sDependsOn (recSpec r))" "dName d \<noteq> sName (recSpec r)"
  shows "reconcile_steps (logged E) r (held_up d s0)"
proof unfold_locales
  fix s :: "('a, 'b \<times> call list) sup"
  assume h: "held_up d s0 s"
  show "held_up d s0 (set_t (sName (recSpec r)) t s)" for t
    using h assms(2) by (auto simp: held_up_def intro: blocked_track)
  show "held_up d s0 (s\<lparr>svObserved := mdel (sName (recSpec r)) (svObserved s)\<rparr>)"
    using h by (auto simp: held_up_def intro: blocked_track)
  show "held_up d s0 (snd (unlocked (logged E) (sName (recSpec r)) (start_call (envEngine (logged E)) (normalized (recSpec r)) ex) s))"
    if "unready s (normalized (recSpec r)) = []" for ex
    using blocked_unready [OF assms(1), of s] h that by (simp add: held_up_def)
qed (rule held_up_call, assumption, simp, simp)+

text \<open>
  C4: Dependencies first. While something a container depends on is not tracked as running, or not as healthy where
  that is asked, no \<open>reconcile\<close> starts it or creates it: whatever the engine answers and whatever calls of the API run
  in between, for none of them can make a dependency ready.
\<close>

theorem dependencies_first:
  assumes "d \<in> set (sDependsOn (recSpec r))" and "dName d \<noteq> sName (recSpec r)" and "blocked d s"
  shows "\<exists>cs. snd (svEngine (snd (reconcile (logged E) now r s))) = snd (svEngine s) @ cs \<and> list_all (\<lambda>k. \<not> starts k) cs"
proof -
  have "held_up d s (snd (reconcile (logged E) now r s))"
    by (rule reconcile_steps.reconcile_kept [OF held_up_steps [OF assms(1,2)]]) (simp add: held_up_def assms(3))
  then show ?thesis by (simp add: held_up_def)
qed

text \<open>\<open>a\<close> depends on \<open>b\<close>, which no pass has seen.\<close>

definition leaning :: "string \<Rightarrow> string \<Rightarrow> string \<times> store_record" where
  "leaning n d = (n, \<lparr>recSpec = (rig_spec ''p'' n ''img'')\<lparr>sDependsOn := [\<lparr>dName = d, dReady = []\<rparr>]\<rparr>, recDesired = Running\<rparr>)"

definition leaning_rig :: "(mem, fake \<times> call list) sup" where
  "leaning_rig = rig_sup [leaning ''a'' ''b'', rig_record ''b''] fake0"

lemma dependencies_first_witness:
  "\<exists>cs. snd (svEngine (snd (reconcile rig_env 0 (snd (leaning ''a'' ''b'')) leaning_rig))) = cs \<and> list_all (\<lambda>k. \<not> starts k) cs"
  using dependencies_first [of "\<lparr>dName = ''b'', dReady = []\<rparr>" "snd (leaning ''a'' ''b'')" leaning_rig rig_plain 0]
  by (simp add: leaning_def leaning_rig_def blocked_def rig_sup_def new_sup_def rig_spec_def rig_env_def)

end
