(* ===== verification/ComesUp.thy ===== *)
theory ComesUp
  imports DepsFirst
begin

text \<open>
  A project comes up: what several quiet passes over a faithful engine achieve together. \<open>depends_on\<close> has a pass
  leave a container waiting until the passes after have found what it depends on running, and healthy where
  that is asked; a \<open>rank\<close> says that the dependencies go round in no circle. One pass takes a container a step:
  from \<open>pending\<close> to \<open>up\<close> once its dependencies are \<open>settled\<close>, from \<open>up\<close> to \<open>settled\<close>.
\<close>

section \<open>Where a container is on its way\<close>

text \<open>It runs as declared, and nobody asked to restart it.\<close>

definition up :: "('d, 'e) env \<Rightarrow> ('e \<Rightarrow> string \<Rightarrow> container option) \<Rightarrow> ('d, 'e) sup \<Rightarrow> string \<Rightarrow> store_record \<Rightarrow> bool" where
  "up E view s n r \<longleftrightarrow> \<not> tRestart (get_t n s) \<and> (case view (svEngine s) n of None \<Rightarrow> False
     | Some c \<Rightarrow> runs_as n (envHash E (normalized (recSpec r))) c)"

text \<open>It is to be started: it is missing, of another declaration, or was not started since the boot; and nothing holds it back.\<close>

definition pending :: "('d, 'e) env \<Rightarrow> ('e \<Rightarrow> string \<Rightarrow> container option) \<Rightarrow> ('d, 'e) sup \<Rightarrow> string \<Rightarrow> store_record \<Rightarrow> bool" where
  "pending E view s n r \<longleftrightarrow> (tForce (get_t n s) \<or> tPhase (get_t n s) \<noteq> PhaseFatal \<and> tPhase (get_t n s) \<noteq> PhaseBackoff)
     \<and> (case view (svEngine s) n of None \<Rightarrow> True
        | Some c \<Rightarrow> managed c \<and> (str_at (cLabels c) LabelSpec \<noteq> envHash E (normalized (recSpec r))
            \<or> \<not> running c \<and> (is_zero (cStartedAt c) \<or> cStartedAt c < oBootTime (envOpts E))))"

text \<open>A pass has found it running, and healthy where it has a health check: what depends on it may start.\<close>

definition settled :: "('d, 'e) env \<Rightarrow> ('e \<Rightarrow> string \<Rightarrow> container option) \<Rightarrow> ('d, 'e) sup \<Rightarrow> string \<Rightarrow> store_record \<Rightarrow> bool" where
  "settled E view s n r \<longleftrightarrow> up E view s n r \<and> (case map_of (svTrack s) n of None \<Rightarrow> False
     | Some t \<Rightarrow> tPhase t = PhaseRunning \<and> (sHealth (recSpec r) = None \<or> tHealth t = HealthHealthy))"

text \<open>The reading of the clock for \<open>n\<close> is a second after its start and not before its next check: what a pass asks to be woken for.\<close>

definition late :: "('e \<Rightarrow> string \<Rightarrow> container option) \<Rightarrow> (string \<Rightarrow> time) \<Rightarrow> ('d, 'e) sup \<Rightarrow> string \<Rightarrow> bool" where
  "late view clk s n \<longleftrightarrow> (case view (svEngine s) n of None \<Rightarrow> True
     | Some c \<Rightarrow> running c \<longrightarrow> cStartedAt c + startConfirm \<le> clk n \<and> tNextHealth (get_t n s) \<le> clk n)"

text \<open>They depend on what the engine has of \<open>n\<close> and what is tracked of it only.\<close>

lemma same_facts:
  assumes "view (svEngine s') n = view (svEngine s) n" "map_of (svTrack s') n = map_of (svTrack s) n"
  shows "up E view s' n r = up E view s n r" "pending E view s' n r = pending E view s n r"
    "settled E view s' n r = settled E view s n r" "late view clk s' n = late view clk s n"
proof -
  have "get_t n s' = get_t n s" by (simp add: get_t_def assms(2))
  then show "up E view s' n r = up E view s n r" "pending E view s' n r = pending E view s n r"
    "settled E view s' n r = settled E view s n r" "late view clk s' n = late view clk s n"
    using assms by (simp_all add: up_def pending_def settled_def late_def split: option.split)
qed

text \<open>A declaration that depends on declared containers of a lower rank, which are to run and have the health check asked for.\<close>

definition depends_down :: "(string \<Rightarrow> nat) \<Rightarrow> (string \<times> store_record) list \<Rightarrow> string \<Rightarrow> store_record \<Rightarrow> bool" where
  "depends_down rank recs n r \<longleftrightarrow> list_all (\<lambda>d. case map_of recs (dName d) of None \<Rightarrow> False
     | Some q \<Rightarrow> recDesired q = Running \<and> rank (dName d) < rank n \<and> (dReady d = ReadyHealthy \<longrightarrow> sHealth (recSpec q) \<noteq> None))
     (sDependsOn (recSpec r))"

definition deps_settled :: "('d, 'e) env \<Rightarrow> ('e \<Rightarrow> string \<Rightarrow> container option) \<Rightarrow> ('d, 'e) sup \<Rightarrow> store_record \<Rightarrow> bool" where
  "deps_settled E view s r \<longleftrightarrow> (\<forall>d \<in> set (sDependsOn (recSpec r)). \<forall>q. map_of (svRecords s) (dName d) = Some q
     \<longrightarrow> settled E view s (dName d) q)"

lemma unready_deps_same:
  "svRecords s' = svRecords s \<Longrightarrow> \<forall>d \<in> set ds. map_of (svTrack s') (dName d) = map_of (svTrack s) (dName d)
    \<Longrightarrow> unready_deps s' ds = unready_deps s ds"
  by (induction ds) (simp_all split: option.split)

lemma settled_ready:
  assumes "depends_down rank (svRecords s) n r" "deps_settled E view s r"
  shows "unready s (normalized (recSpec r)) = []"
proof -
  have "unready_deps s (map normalized_dependency ds) = []" if "set ds \<subseteq> set (sDependsOn (recSpec r))" for ds
    using that
  proof (induction ds)
    case (Cons d ds)
    then have d: "d \<in> set (sDependsOn (recSpec r))" by simp
    then obtain q where q: "map_of (svRecords s) (dName d) = Some q" "dReady d = ReadyHealthy \<longrightarrow> sHealth (recSpec q) \<noteq> None"
      using assms(1) by (auto simp: depends_down_def list_all_iff split: option.splits)
    then have "settled E view s (dName d) q" using assms(2) d by (simp add: deps_settled_def)
    then obtain t where t: "map_of (svTrack s) (dName d) = Some t" "tPhase t = PhaseRunning"
      "sHealth (recSpec q) = None \<or> tHealth t = HealthHealthy"
      by (auto simp: settled_def split: option.splits)
    then show ?case using Cons q by (auto simp: ready_normalized)
  qed simp
  then show ?thesis by (simp add: unready_def)
qed

text \<open>Health checks that pass.\<close>

definition checks_pass :: "'e engine \<Rightarrow> bool" where
  "checks_pass En \<longleftrightarrow> (\<forall>n d en. fst (eHealthCheck En n d en) = (True, None))"

section \<open>One reconcile\<close>

lemma track_upd: "map_of (svTrack (upd_t n f s)) n = Some (f (get_t n s))"
  by (simp add: upd_t_def)

lemma health_passes:
  assumes "svSched s = []" "checks_pass (envEngine E)" "tNextHealth (health_run c (get_t n s)) \<le> now"
  shows "map_of (svTrack (snd (health_sup E n h c now s))) n = Some (health_result h c now True None (health_run c (get_t n s)))"
proof -
  define s1 where "s1 = upd_t n (health_run c) s"
  have s1: "svSched s1 = []" "get_t n s1 = health_run c (get_t n s)" using assms(1) by (simp_all add: s1_def)
  have f: "fst (eHealthCheck (envEngine E) n d en) = (True, None)" for d en using assms(2) by (simp add: checks_pass_def)
  have g: "get_t n (s1\<lparr>svEngine := en\<rparr>) = get_t n s1" for en by (simp add: get_t_def)
  obtain s2 where u: "unlocked E n (eHealthCheck (envEngine E) n (wrap64 (secs (hTimeoutSeconds h) + 5 * second))) s1 = ((True, True, None), s2)"
    "get_t n s2 = get_t n s1"
    by (simp add: quiet_unlocked [OF s1(1)] f g)
  have "snd (health_sup E n h c now s) = upd_t n (health_result h c now True None) s2"
    using assms(3) s1(2) by (simp add: health_sup_def s1_def [symmetric] u(1) Let_def)
  then show ?thesis using u(2) s1(2) by (simp add: track_upd)
qed

lemma up_settles:
  assumes "faithful (envEngine E) (envHash E) view" "checks_pass (envEngine E)" "svSched s = []" "seen view (sName (recSpec r)) s"
    "recDesired r = Running" "up E view s (sName (recSpec r)) r" "late view clk s (sName (recSpec r))"
  shows "settled E view (snd (reconcile E (clk (sName (recSpec r))) r s)) (sName (recSpec r)) r"
proof -
  let ?n = "sName (recSpec r)"
  obtain c where c: "view (svEngine s) ?n = Some c" "runs_as ?n (envHash E (normalized (recSpec r))) c" and nr: "\<not> tRestart (get_t ?n s)"
    using assms(6) by (auto simp: up_def split: option.splits)
  have run: "managed c" "running c" "str_at (cLabels c) LabelSpec = envHash E (normalized (recSpec r))"
    using c(2) by (simp_all add: runs_as_def)
  have l: "cStartedAt c + startConfirm \<le> clk ?n" "tNextHealth (get_t ?n s) \<le> clk ?n"
    using assms(7) c(1) run(2) by (simp_all add: late_def)
  note ob = seen_Some(1) [OF assms(4) c(1) run(1)]
  have v: "view (svEngine (snd (reconcile E (clk ?n) r s))) ?n = Some c"
    by (rule reconcile_leaves [OF assms(1,3-5) c nr])
  define s2 where "s2 = upd_t ?n (\<lambda>t. t\<lparr>tRestart := False\<rparr>) (tr ?n s)"
  have rc: "reconcile E (clk ?n) r s = reconcile_running E (normalized (recSpec r)) c (clk ?n) s2"
    using recreate_matches [of s r "Some c" E] ob run assms(5) nr
    by (simp add: reconcile_def Let_def Running_def Stopped_def s2_def)
  define s3 where "s3 = upd_t ?n (\<lambda>t. t\<lparr>tForce := False, tErr := [], tPhase := PhaseRunning\<rparr>) s2"
  have q: "svSched s3 = []" "get_t ?n s3 = (get_t ?n s)\<lparr>tRestart := False, tForce := False, tErr := [], tPhase := PhaseRunning\<rparr>"
    "map_of (svTrack s3) ?n = Some (get_t ?n s3)"
    using assms(3) by (simp_all add: s3_def s2_def upd_t_def)
  have run3: "snd (reconcile_running E (normalized (recSpec r)) c (clk ?n) s2) = (case map_option normalized_health (sHealth (recSpec r)) of
      None \<Rightarrow> s3 | Some h \<Rightarrow> snd (health_sup E ?n h c (clk ?n) s3))"
    using l(1) by (auto simp: reconcile_running_def Let_def s3_def split: option.split prod.split)
  have h: "map_of (svTrack (snd (health_sup E ?n h c (clk ?n) s3))) ?n
      = Some (health_result h c (clk ?n) True None (health_run c (get_t ?n s3)))" for h
    by (rule health_passes [OF q(1) assms(2)]) (use q(2) l in \<open>simp add: health_run_def\<close>)
  have "\<exists>t. map_of (svTrack (snd (reconcile_running E (normalized (recSpec r)) c (clk ?n) s2))) ?n = Some t
      \<and> tPhase t = PhaseRunning \<and> (sHealth (recSpec r) = None \<or> tHealth t = HealthHealthy) \<and> \<not> tRestart t"
    using q(2,3) h by (cases "sHealth (recSpec r)") (simp_all add: run3 health_result_def health_run_def Let_def)
  then show ?thesis using v c by (auto simp: settled_def up_def rc get_t_def)
qed

text \<open>What is to be started now is started, whatever was tracked of it.\<close>

lemma idle_starts:
  assumes "tForce (get_t (sName sp) s) \<or> tPhase (get_t (sName sp) s) \<noteq> PhaseFatal \<and> tPhase (get_t (sName sp) s) \<noteq> PhaseBackoff"
    "\<not> tRestart (get_t (sName sp) s)"
    "case c of None \<Rightarrow> True | Some c \<Rightarrow> is_zero (cStartedAt c) \<or> cStartedAt c < oBootTime (envOpts E)"
  obtains s' where "reconcile_idle E sp c now s = start E sp (c \<noteq> None) now s'"
    "svSched s' = svSched s" "svRecords s' = svRecords s" "svForeign s' = svForeign s" "svEngine s' = svEngine s"
    "\<And>m. m \<noteq> sName sp \<Longrightarrow> map_of (svTrack s') m = map_of (svTrack s) m" "\<not> tRestart (get_t (sName sp) s')"
proof (cases "tForce (get_t (sName sp) s) \<or> tPhase (get_t (sName sp) s) = PhaseNone \<or> tPhase (get_t (sName sp) s) = PhaseStopped")
  case True
  show thesis
    by (rule that [of "set_t (sName sp) zero_tracking (upd_t (sName sp) (\<lambda>t. t\<lparr>tHealth := HealthNone, tFailures := 0, tHealthRun := 0\<rparr>) s)"])
      (use True assms in \<open>auto simp: reconcile_idle_def Let_def upd_t_def zero_tracking_def split: option.splits\<close>)
next
  case False
  show thesis
    by (rule that [of "upd_t (sName sp) (\<lambda>t. t\<lparr>tHealth := HealthNone, tFailures := 0, tHealthRun := 0\<rparr>) s"])
      (use False assms in \<open>auto simp: reconcile_idle_def Let_def upd_t_def zero_tracking_def split: option.splits\<close>)
qed

text \<open>The reconcile of a pending container is a start, of a container that exists or not.\<close>

definition stopped_old :: "('d, 'e) env \<Rightarrow> store_record \<Rightarrow> container \<Rightarrow> bool" where
  "stopped_old E r c \<longleftrightarrow> managed c \<and> cName c = sName (recSpec r) \<and> str_at (cLabels c) LabelSpec = envHash E (normalized (recSpec r))
     \<and> \<not> running c \<and> (is_zero (cStartedAt c) \<or> cStartedAt c < oBootTime (envOpts E))"

definition startable :: "('d, 'e) env \<Rightarrow> ('e \<Rightarrow> string \<Rightarrow> container option) \<Rightarrow> store_record \<Rightarrow> bool \<Rightarrow> ('d, 'e) sup \<Rightarrow> bool" where
  "startable E view r ex s \<longleftrightarrow> svSched s = [] \<and> map_of (svForeign s) (sName (recSpec r)) = None \<and> \<not> tRestart (get_t (sName (recSpec r)) s)
     \<and> (case view (svEngine s) (sName (recSpec r)) of None \<Rightarrow> \<not> ex | Some c \<Rightarrow> ex \<and> stopped_old E r c)"

lemma pending_starts:
  assumes "faithful (envEngine E) (envHash E) view" "svSched s = []" "seen view (sName (recSpec r)) s"
    "recDesired r = Running" "pending E view s (sName (recSpec r)) r"
  obtains ex s' where "snd (reconcile E now r s) = snd (start E (normalized (recSpec r)) ex now s')" "startable E view r ex s'"
    "svRecords s' = svRecords s" "\<And>m. m \<noteq> sName (recSpec r) \<Longrightarrow> map_of (svTrack s') m = map_of (svTrack s) m"
proof -
  let ?n = "sName (recSpec r)" and ?sp = "normalized (recSpec r)"
  define s2 where "s2 = upd_t ?n (\<lambda>t. t\<lparr>tRestart := False\<rparr>) (tr ?n s)"
  have s2: "svSched s2 = []" "svForeign s2 = svForeign s" "svEngine s2 = svEngine s" "svRecords s2 = svRecords s"
    "get_t ?n s2 = (get_t ?n s)\<lparr>tRestart := False\<rparr>"
    using assms(2) by (simp_all add: s2_def)
  have s2': "\<And>m. m \<noteq> ?n \<Longrightarrow> map_of (svTrack s2) m = map_of (svTrack s) m"
    by (simp add: s2_def upd_t_def tr_def split: option.split)
  have ph: "tForce (get_t ?n s2) \<or> tPhase (get_t ?n s2) \<noteq> PhaseFatal \<and> tPhase (get_t ?n s2) \<noteq> PhaseBackoff" "\<not> tRestart (get_t ?n s2)"
    using assms(5) s2(5) by (simp_all add: pending_def)
  note go = that
  have idle: thesis if "snd (reconcile E now r s) = snd (reconcile_idle E ?sp c now u)" "view (svEngine u) ?n = c"
    "case c of None \<Rightarrow> True | Some c \<Rightarrow> stopped_old E r c" "map_of (svForeign u) ?n = None"
    "svSched u = []" "svRecords u = svRecords s" "\<And>m. m \<noteq> ?n \<Longrightarrow> map_of (svTrack u) m = map_of (svTrack s) m"
    "tForce (get_t ?n u) \<or> tPhase (get_t ?n u) \<noteq> PhaseFatal \<and> tPhase (get_t ?n u) \<noteq> PhaseBackoff" "\<not> tRestart (get_t ?n u)" for c u
  proof (rule idle_starts [of ?sp u E c now])
    fix s' assume s': "reconcile_idle E ?sp c now u = start E ?sp (c \<noteq> None) now s'" "svSched s' = svSched u" "svRecords s' = svRecords u"
      "svForeign s' = svForeign u" "svEngine s' = svEngine u" "\<And>m. m \<noteq> sName ?sp \<Longrightarrow> map_of (svTrack s') m = map_of (svTrack u) m"
      "\<not> tRestart (get_t (sName ?sp) s')"
    show thesis
      by (rule go [of "c \<noteq> None" s']) (use that(1-7) s' in \<open>auto simp: startable_def split: option.splits\<close>)
  qed (use that(3,8,9) in \<open>auto simp: stopped_old_def split: option.splits\<close>)
  show thesis
  proof (cases "view (svEngine s) ?n")
    case None
    note ob = seen_Some(2) [OF assms(3) None]
    have "reconcile E now r s = reconcile_idle E ?sp None now s2"
      using recreate_matches [of s r None E] ob assms(4) by (simp add: reconcile_def Let_def Running_def Stopped_def s2_def)
    then show thesis using idle [of None s2] None ob s2 s2' ph by simp
  next
    case (Some c)
    have m: "managed c" using assms(5) Some by (simp add: pending_def)
    note ob = seen_Some(1) [OF assms(3) Some m]
    show thesis
    proof (cases "str_at (cLabels c) LabelSpec = envHash E ?sp")
      case True
      then have o: "stopped_old E r c" using assms(5) Some ob by (simp add: pending_def stopped_old_def)
      have "reconcile E now r s = reconcile_idle E ?sp (Some c) now s2"
        using recreate_matches [of s r "Some c" E] ob o True assms(4)
        by (simp add: reconcile_def Let_def Running_def Stopped_def s2_def stopped_old_def)
      then show thesis using idle [of "Some c" s2] Some ob o s2 s2' ph by simp
    next
      case False
      have q: "svSched (tr ?n s) = []" using assms(2) by simp
      obtain en' where rm: "eRemove (envEngine E) ?n (svEngine s) = (None, en')" "view en' = (view (svEngine s))(?n := None)"
        using faithful_remove [OF assms(1)] by blast
      define s3 where "s3 = (tr ?n s)\<lparr>svEngine := en', svObserved := mdel ?n (svObserved s)\<rparr>"
      have s3: "svSched s3 = []" "map_of (svForeign s3) ?n = None" "view (svEngine s3) ?n = None" "svRecords s3 = svRecords s"
        "\<And>m. m \<noteq> ?n \<Longrightarrow> map_of (svTrack s3) m = map_of (svTrack s) m"
        using assms(2) rm(2) ob by (simp_all add: s3_def tr_def split: option.split)
      have rc: "recreate E r ?sp (tr ?n s) = Inr (False, if \<not> tForce (get_t ?n s3) then set_t ?n forced s3 else s3)"
        using ob False rm(1) assms(4) by (simp add: recreate_def quiet_unlocked [OF q] Let_def s3_def)
      define u where "u = upd_t ?n (\<lambda>t. t\<lparr>tRestart := False\<rparr>) (if \<not> tForce (get_t ?n s3) then set_t ?n forced s3 else s3)"
      have "reconcile E now r s = reconcile_idle E ?sp None now u"
        using rc assms(4) by (simp add: reconcile_def Let_def u_def Running_def Stopped_def)
      moreover have "tForce (get_t ?n u)" "\<not> tRestart (get_t ?n u)" by (simp_all add: u_def forced_def)
      moreover have "svSched u = []" "map_of (svForeign u) ?n = None" "view (svEngine u) ?n = None" "svRecords u = svRecords s"
        using s3 by (simp_all add: u_def)
      moreover have "\<And>m. m \<noteq> ?n \<Longrightarrow> map_of (svTrack u) m = map_of (svTrack s) m" using s3(5) by (simp add: u_def upd_t_def)
      ultimately show thesis using idle [of None u] by simp
    qed
  qed
qed

lemma startable_waits:
  assumes "startable E view r ex s" "unready s (normalized (recSpec r)) \<noteq> []"
  shows "pending E view (snd (start E (normalized (recSpec r)) ex now s)) (sName (recSpec r)) r"
  using assms by (auto simp: startable_def start_def pending_def stopped_old_def Let_def split: option.splits)

lemma startable_goes_up:
  assumes "faithful (envEngine E) (envHash E) view" "startable E view r ex s" "unready s (normalized (recSpec r)) = []"
  shows "up E view (snd (start E (normalized (recSpec r)) ex now s)) (sName (recSpec r)) r"
proof -
  let ?n = "sName (recSpec r)" and ?sp = "normalized (recSpec r)"
  have s: "svSched s = []" "map_of (svForeign s) ?n = None" "\<not> tRestart (get_t ?n s)" using assms(2) by (simp_all add: startable_def)
  have "ex \<Longrightarrow> \<exists>c. view (svEngine s) ?n = Some c \<and> managed c \<and> cName c = ?n \<and> str_at (cLabels c) LabelSpec = envHash E ?sp"
    using assms(2) by (auto simp: startable_def stopped_old_def split: option.splits)
  then obtain c' en' where c: "start_call (envEngine E) ?sp ex (svEngine s) = (None, en')" "runs_as ?n (envHash E ?sp) c'"
    "view en' = (view (svEngine s))(?n \<mapsto> c')"
    using faithful_start_call [OF assms(1), of ex "svEngine s" ?sp] by (cases ex) fastforce+
  have g: "get_t ?n (s\<lparr>svEngine := en'\<rparr>) = get_t ?n s" by (simp add: get_t_def)
  have "snd (start E ?sp ex now s)
      = upd_t ?n (\<lambda>t. t\<lparr>tErr := [], tPhase := PhaseStarting\<rparr>) (upd_t ?n (\<lambda>t. t\<lparr>tForce := False\<rparr>) (s\<lparr>svEngine := en'\<rparr>))"
    using s(2) assms(3) c(1) by (cases ex) (simp_all add: start_def quiet_unlocked [OF s(1)] Let_def)
  then show ?thesis using c s(3) g by (simp add: up_def)
qed

section \<open>The visits of a pass\<close>

text \<open>Every container declared running is up or pending, over a map of declarations whose dependencies go down.\<close>

definition coming :: "(string \<Rightarrow> nat) \<Rightarrow> ('d, 'e) env \<Rightarrow> ('e \<Rightarrow> string \<Rightarrow> container option) \<Rightarrow> ('d, 'e) sup \<Rightarrow> bool" where
  "coming rank E view s \<longleftrightarrow> list_all (\<lambda>(n, r). recDesired r = Running \<longrightarrow>
     depends_down rank (svRecords s) n r \<and> (up E view s n r \<or> pending E view s n r)) (svRecords s)"

definition wanted :: "('d, 'e) sup \<Rightarrow> string \<Rightarrow> store_record \<Rightarrow> bool" where
  "wanted s n r \<longleftrightarrow> map_of (svRecords s) n = Some r \<and> recDesired r = Running"

lemma coming_wanted: "coming rank E view s \<Longrightarrow> wanted s n r \<Longrightarrow>
    depends_down rank (svRecords s) n r \<and> (up E view s n r \<or> pending E view s n r)"
  by (auto simp: coming_def wanted_def list_all_iff dest: map_of_SomeD)

lemma coming_iff: "keyed (svRecords s) \<Longrightarrow> coming rank E view s \<longleftrightarrow> (\<forall>n r. wanted s n r \<longrightarrow>
    depends_down rank (svRecords s) n r \<and> (up E view s n r \<or> pending E view s n r))"
  by (auto simp: coming_def wanted_def list_all_iff keyed_def dest: map_of_SomeD)

text \<open>One visit.\<close>

lemma visit_step:
  assumes "faithful (envEngine E) (envHash E) view" "checks_pass (envEngine E)" "svSched s = []" "keyed (svRecords s)"
    "coming rank E view s" "seen view n s" "wanted s n r" "late view clk s n"
  defines "s' \<equiv> snd (reconcile E (clk n) r s)"
  shows "up E view s n r \<Longrightarrow> settled E view s' n r" "deps_settled E view s r \<Longrightarrow> up E view s' n r"
    "up E view s' n r \<or> pending E view s' n r"
proof -
  have n: "sName (recSpec r) = n" using keyed_name [OF assms(4)] assms(7) by (simp add: wanted_def)
  have run: "recDesired r = Running" using assms(7) by (simp add: wanted_def)
  have down: "depends_down rank (svRecords s) n r" and st: "up E view s n r \<or> pending E view s n r"
    using coming_wanted [OF assms(5,7)] by simp_all
  have u: "up E view s n r \<Longrightarrow> settled E view s' n r"
    using up_settles [OF assms(1-3), of r clk] assms(6,8) run n by (simp add: s'_def)
  have p: "(deps_settled E view s r \<longrightarrow> up E view s' n r) \<and> (up E view s' n r \<or> pending E view s' n r)" if "pending E view s n r"
  proof (rule pending_starts [OF assms(1,3), of r "clk n"])
    fix ex s1 assume s1: "snd (reconcile E (clk n) r s) = snd (start E (normalized (recSpec r)) ex (clk n) s1)" "startable E view r ex s1"
      "svRecords s1 = svRecords s" "\<And>m. m \<noteq> sName (recSpec r) \<Longrightarrow> map_of (svTrack s1) m = map_of (svTrack s) m"
    have "\<forall>d \<in> set (sDependsOn (recSpec r)). dName d \<noteq> n"
      using down by (auto simp: depends_down_def list_all_iff split: option.splits)
    then have "unready s1 (normalized (recSpec r)) = unready s (normalized (recSpec r))"
      unfolding unready_def by (intro unready_deps_same s1(3)) (auto simp: ready_normalized s1(4) n)
    moreover have "deps_settled E view s r \<longrightarrow> unready s (normalized (recSpec r)) = []" using settled_ready [OF down] by blast
    ultimately show ?thesis
      using startable_waits [OF s1(2), of "clk n"] startable_goes_up [OF assms(1) s1(2), of "clk n"] n by (auto simp: s'_def s1(1))
  qed (use assms(6) that n run in auto)
  show "up E view s n r \<Longrightarrow> settled E view s' n r" by (rule u)
  show "deps_settled E view s r \<Longrightarrow> up E view s' n r" using u p st by (auto simp: settled_def)
  show "up E view s' n r \<or> pending E view s' n r" using u p st by (auto simp: settled_def)
qed

text \<open>From \<open>s\<close> to \<open>s'\<close> nobody falls back, and those of \<open>N\<close> take their step.\<close>

definition advances :: "(string \<Rightarrow> nat) \<Rightarrow> ('d, 'e) env \<Rightarrow> ('e \<Rightarrow> string \<Rightarrow> container option) \<Rightarrow> string set
    \<Rightarrow> ('d, 'e) sup \<Rightarrow> ('d, 'e) sup \<Rightarrow> bool" where
  "advances rank E view N s s' \<longleftrightarrow> svSched s' = [] \<and> svRecords s' = svRecords s \<and> coming rank E view s'
     \<and> (\<forall>n r. wanted s n r \<longrightarrow> (up E view s n r \<longrightarrow> up E view s' n r) \<and> (settled E view s n r \<longrightarrow> settled E view s' n r)
          \<and> (n \<in> N \<longrightarrow> (up E view s n r \<longrightarrow> settled E view s' n r) \<and> (deps_settled E view s r \<longrightarrow> up E view s' n r)))"

lemma advances_deps:
  assumes "advances rank E view N s s'" "depends_down rank (svRecords s) n r" "deps_settled E view s r"
  shows "deps_settled E view s' r"
proof -
  have "settled E view s' (dName d) q" if "d \<in> set (sDependsOn (recSpec r))" "map_of (svRecords s) (dName d) = Some q" for d q
  proof -
    have "wanted s (dName d) q" using assms(2) that by (auto simp: depends_down_def list_all_iff wanted_def)
    moreover have "settled E view s (dName d) q" using assms(3) that by (simp add: deps_settled_def)
    ultimately show ?thesis using assms(1) by (simp add: advances_def)
  qed
  then show ?thesis using assms(1) by (simp add: deps_settled_def advances_def)
qed

lemma advances_trans:
  assumes "coming rank E view s" "advances rank E view N s s1" "advances rank E view M s1 s2"
  shows "advances rank E view (N \<union> M) s s2"
  unfolding advances_def
proof (intro conjI allI impI)
  fix n r assume w: "wanted s n r"
  then have w1: "wanted s1 n r" using assms(2) by (simp add: advances_def wanted_def)
  note a = assms(2) [unfolded advances_def, THEN conjunct2, THEN conjunct2, THEN conjunct2, rule_format, OF w]
  note b = assms(3) [unfolded advances_def, THEN conjunct2, THEN conjunct2, THEN conjunct2, rule_format, OF w1]
  show "up E view s n r \<Longrightarrow> up E view s2 n r" using a b by blast
  show "settled E view s n r \<Longrightarrow> settled E view s2 n r" using a b by blast
  show "n \<in> N \<union> M \<Longrightarrow> up E view s n r \<Longrightarrow> settled E view s2 n r" using a b by blast
  have "deps_settled E view s r \<Longrightarrow> deps_settled E view s1 r" using advances_deps [OF assms(2)] coming_wanted [OF assms(1) w] by blast
  then show "n \<in> N \<union> M \<Longrightarrow> deps_settled E view s r \<Longrightarrow> up E view s2 n r" using a b by blast
qed (use assms in \<open>simp_all add: advances_def\<close>)

lemma visit_advances:
  assumes "faithful (envEngine E) (envHash E) view" "checks_pass (envEngine E)" "svSched s = []" "keyed (svRecords s)"
    "coming rank E view s" "seen view k s" "late view clk s k"
  shows "advances rank E view {k} s (snd (visit E clk k (t, s)))"
proof -
  let ?s' = "snd (visit E clk k (t, s))"
  have other: "n \<noteq> k \<Longrightarrow> agrees view n s ?s'" for n by (rule visit_agrees [OF assms(1,3,4)])
  have same: "svSched ?s' = []" "svRecords ?s' = svRecords s"
    using other [of "k @ ''x''"] by (simp_all add: agrees_def)
  have facts: "up E view ?s' n r = up E view s n r" "pending E view ?s' n r = pending E view s n r"
      "settled E view ?s' n r = settled E view s n r" if "n \<noteq> k" for n r
  proof -
    have "view (svEngine ?s') n = view (svEngine s) n" "map_of (svTrack ?s') n = map_of (svTrack s) n"
      using other [OF that] by (simp_all add: agrees_def)
    from same_facts [of view ?s' n s, OF this] show "up E view ?s' n r = up E view s n r" "pending E view ?s' n r = pending E view s n r"
      "settled E view ?s' n r = settled E view s n r" by simp_all
  qed
  have self: "(up E view s k r \<longrightarrow> settled E view ?s' k r) \<and> (deps_settled E view s r \<longrightarrow> up E view ?s' k r)
      \<and> (up E view ?s' k r \<or> pending E view ?s' k r)" if "wanted s k r" for r
  proof -
    have "?s' = snd (reconcile E (clk k) r s)" using that by (simp add: visit_def wanted_def split: prod.split)
    then show ?thesis using visit_step [OF assms(1-6) that assms(7)] by simp
  qed
  have w: "wanted ?s' n r = wanted s n r" for n r by (simp add: wanted_def same)
  have "coming rank E view ?s'"
  proof (subst coming_iff, simp add: same assms(4), intro allI impI)
    fix n r assume "wanted ?s' n r"
    then have w': "wanted s n r" by (simp add: w)
    show "depends_down rank (svRecords ?s') n r \<and> (up E view ?s' n r \<or> pending E view ?s' n r)"
      using coming_wanted [OF assms(5) w'] facts [of n r] self [of r] w' by (cases "n = k") (auto simp: same)
  qed
  moreover have "(up E view s n r \<longrightarrow> up E view ?s' n r) \<and> (settled E view s n r \<longrightarrow> settled E view ?s' n r)
      \<and> (n \<in> {k} \<longrightarrow> (up E view s n r \<longrightarrow> settled E view ?s' n r) \<and> (deps_settled E view s r \<longrightarrow> up E view ?s' n r))"
    if "wanted s n r" for n r
    using facts [of n r] self [of r] that by (cases "n = k") (auto simp: settled_def)
  ultimately show ?thesis unfolding advances_def using same by blast
qed

lemma visits_advance:
  assumes "faithful (envEngine E) (envHash E) view" "checks_pass (envEngine E)" "svSched s = []" "keyed (svRecords s)"
    "coming rank E view s" "distinct ks" "\<forall>k \<in> set ks. seen view k s \<and> late view clk s k"
  shows "advances rank E view (set ks) s (snd (visit_all E clk ks (t, s)))"
  using assms(3-7)
proof (induction ks arbitrary: t s)
  case Nil
  then show ?case by (simp add: visit_all_def advances_def)
next
  case (Cons k ks)
  obtain t' s' where v: "visit E clk k (t, s) = (t', s')" by (metis surj_pair)
  have a: "advances rank E view {k} s s'"
    using visit_advances [OF assms(1,2) Cons.prems(1-3), of k clk t] Cons.prems(5) v by simp
  have "\<forall>m \<in> set ks. seen view m s' \<and> late view clk s' m"
  proof
    fix m assume m: "m \<in> set ks"
    then have "agrees view m s s'" using visit_agrees [OF assms(1) Cons.prems(1,2), of m k clk t] Cons.prems(4) v by auto
    then show "seen view m s' \<and> late view clk s' m"
      using Cons.prems(5) m agrees_seen [of view m s s'] same_facts(4) [of view s' m s clk] by (auto simp: agrees_def)
  qed
  then have "advances rank E view (set ks) s' (snd (visit_all E clk ks (t', s')))"
    using Cons.IH [of s' t'] a Cons.prems(2,4) by (simp add: advances_def)
  from advances_trans [OF Cons.prems(3) a this] show ?case by (simp add: visit_all_def v)
qed

lemma pass_advances:
  assumes "faithful (envEngine E) (envHash E) view" "checks_pass (envEngine E)" "svSched s = []" "keyed (svRecords s)"
    "coming rank E view s" "list_all (\<lambda>(n, r). late view clk s n) (svRecords s)"
  shows "advances rank E view (fst ` set (svRecords s)) s (snd (pass E clk pub s))"
proof (rule pass_quiet [OF assms(1,3,4), of clk pub])
  fix s1 assume s1: "svSched s1 = []" "svRecords s1 = svRecords s" "svTrack s1 = svTrack s"
    and seen: "\<And>n. has_key (svRecords s) n \<Longrightarrow> (\<forall>c. view (svEngine s) n = Some c \<longrightarrow> cName c = n) \<Longrightarrow> seen view n s1"
    and eng: "\<And>n. view (svEngine s1) n = (case view (svEngine s) n of
        Some c \<Rightarrow> if managed c \<and> \<not> has_key (svRecords s) n then None else Some c | None \<Rightarrow> None)"
    and p: "snd (pass E clk pub s) = publish pub (remove_networks E (snd (visit_all E clk (sorted_keys (svRecords s)) (0, s1))))"
  let ?v = "snd (visit_all E clk (sorted_keys (svRecords s)) (0, s1))" and ?p = "snd (pass E clk pub s)"
  have before: "up E view s1 n r = up E view s n r" "pending E view s1 n r = pending E view s n r"
      "settled E view s1 n r = settled E view s n r" "late view clk s1 n = late view clk s n" if "has_key (svRecords s) n" for n r
  proof -
    have "view (svEngine s1) n = view (svEngine s) n" "map_of (svTrack s1) n = map_of (svTrack s) n"
      using eng [of n] that s1(3) by (simp_all split: option.split)
    from same_facts [of view s1 n s, OF this] show "up E view s1 n r = up E view s n r" "pending E view s1 n r = pending E view s n r"
      "settled E view s1 n r = settled E view s n r" "late view clk s1 n = late view clk s n" by simp_all
  qed
  have w1: "wanted s1 n r = wanted s n r" for n r by (simp add: wanted_def s1(2))
  have key: "has_key (svRecords s) n" if "wanted s n r" for n r using that by (simp add: wanted_def)
  have c1: "coming rank E view s1"
    using coming_wanted [OF assms(5)] before key assms(4) by (subst coming_iff) (auto simp: s1(2) w1)
  have "seen view n s1 \<and> late view clk s1 n" if "n \<in> set (sorted_keys (svRecords s))" for n
  proof -
    have k: "has_key (svRecords s) n" using that has_key_fst [of "svRecords s" n] by simp
    then show ?thesis using seen faithful_named [OF assms(1)] before(4) that assms(6) by (auto simp: list_all_iff)
  qed
  then have a: "advances rank E view (fst ` set (svRecords s)) s1 ?v"
    using visits_advance [OF assms(1,2) s1(1) _ c1, of "sorted_keys (svRecords s)" clk 0] assms(4) s1(2) by (simp add: keyed_def)
  have q: "svSched ?v = []" "svRecords ?v = svRecords s" using a s1(2) by (simp_all add: advances_def)
  have fin: "svSched ?p = []" "svRecords ?p = svRecords s" "svTrack ?p = svTrack ?v" "view (svEngine ?p) n = view (svEngine ?v) n" for n
    using q by (simp_all add: p publish_def remove_networks_def interfere_def remove_networks_view [OF assms(1)])
  have after: "up E view ?p n r = up E view ?v n r" "pending E view ?p n r = pending E view ?v n r"
      "settled E view ?p n r = settled E view ?v n r" for n r
    using same_facts [of view ?p n ?v] fin(3,4) by simp_all
  have wv: "wanted ?p n r = wanted s n r" "wanted ?v n r = wanted s n r" for n r by (simp_all add: wanted_def fin(2) q(2))
  have "coming rank E view ?p"
  proof (subst coming_iff, simp add: fin(2) assms(4), intro allI impI)
    fix n r assume "wanted ?p n r"
    then have "wanted ?v n r" by (simp add: wv)
    moreover have "coming rank E view ?v" using a by (simp add: advances_def)
    ultimately show "depends_down rank (svRecords ?p) n r \<and> (up E view ?p n r \<or> pending E view ?p n r)"
      using coming_wanted [of rank E view ?v n r] after [of n r] by (simp add: fin(2) q(2))
  qed
  moreover have "deps_settled E view s1 r = deps_settled E view s r" if "wanted s n r" for n r
    using before(3) by (auto simp: deps_settled_def s1(2))
  ultimately show ?thesis using a fin(1,2) after before(1,3) key unfolding advances_def w1 by simp
qed

section \<open>A project comes up\<close>

text \<open>Passes one after the other, each with its readings of the clock, and whether each comes late enough for what runs.\<close>

fun passes :: "('d, 'e) env \<Rightarrow> ((string \<Rightarrow> time) \<times> time) list \<Rightarrow> ('d, 'e) sup \<Rightarrow> ('d, 'e) sup" where
  "passes E [] s = s"
| "passes E ((clk, pub) # ts) s = passes E ts (snd (pass E clk pub s))"

fun in_time :: "('d, 'e) env \<Rightarrow> ('e \<Rightarrow> string \<Rightarrow> container option) \<Rightarrow> ((string \<Rightarrow> time) \<times> time) list \<Rightarrow> ('d, 'e) sup \<Rightarrow> bool" where
  "in_time E view [] s = True"
| "in_time E view ((clk, pub) # ts) s \<longleftrightarrow> list_all (\<lambda>(n, r). late view clk s n) (svRecords s) \<and> in_time E view ts (snd (pass E clk pub s))"

text \<open>After \<open>i\<close> passes a container of rank \<open>k\<close> is up when \<open>2 * k < i\<close>, and settled a pass later.\<close>

definition come_up :: "(string \<Rightarrow> nat) \<Rightarrow> ('d, 'e) env \<Rightarrow> ('e \<Rightarrow> string \<Rightarrow> container option) \<Rightarrow> nat \<Rightarrow> ('d, 'e) sup \<Rightarrow> bool" where
  "come_up rank E view i s \<longleftrightarrow> (\<forall>n r. wanted s n r \<longrightarrow> (2 * rank n + 1 \<le> i \<longrightarrow> up E view s n r) \<and> (2 * rank n + 2 \<le> i \<longrightarrow> settled E view s n r))"

lemma come_up_pass:
  assumes "coming rank E view s" "come_up rank E view i s" "advances rank E view (fst ` set (svRecords s)) s s'"
  shows "come_up rank E view (Suc i) s'"
  unfolding come_up_def
proof (intro allI impI)
  fix n r assume "wanted s' n r"
  then have w: "wanted s n r" using assms(3) by (simp add: wanted_def advances_def)
  then have k: "n \<in> fst ` set (svRecords s)" by (auto simp: wanted_def dest: map_of_SomeD intro: rev_image_eqI)
  have a: "(up E view s n r \<longrightarrow> up E view s' n r) \<and> (settled E view s n r \<longrightarrow> settled E view s' n r)
      \<and> (up E view s n r \<longrightarrow> settled E view s' n r) \<and> (deps_settled E view s r \<longrightarrow> up E view s' n r)"
    using assms(3) w k unfolding advances_def by blast
  have u: "up E view s n r" if "2 * rank n + 1 \<le> i" using assms(2) w that by (simp add: come_up_def)
  have d: "deps_settled E view s r" if "2 * rank n \<le> i"
  proof -
    have "settled E view s (dName d) q" if d: "d \<in> set (sDependsOn (recSpec r))" "map_of (svRecords s) (dName d) = Some q" for d q
    proof -
      have "wanted s (dName d) q" "rank (dName d) < rank n"
        using coming_wanted [OF assms(1) w] d by (auto simp: depends_down_def list_all_iff wanted_def)
      then show ?thesis using assms(2) \<open>2 * rank n \<le> i\<close> by (simp add: come_up_def)
    qed
    then show ?thesis by (simp add: deps_settled_def)
  qed
  show "(2 * rank n + 1 \<le> Suc i \<longrightarrow> up E view s' n r) \<and> (2 * rank n + 2 \<le> Suc i \<longrightarrow> settled E view s' n r)"
    using a u d by auto
qed

lemma passes_come_up:
  assumes "faithful (envEngine E) (envHash E) view" "checks_pass (envEngine E)" "svSched s = []" "keyed (svRecords s)"
    "coming rank E view s" "come_up rank E view i s" "in_time E view ts s"
  shows "come_up rank E view (i + length ts) (passes E ts s) \<and> svRecords (passes E ts s) = svRecords s"
  using assms(3-7)
proof (induction ts arbitrary: s i)
  case (Cons t ts)
  obtain clk pub where t: "t = (clk, pub)" by fastforce
  let ?s = "snd (pass E clk pub s)"
  have a: "advances rank E view (fst ` set (svRecords s)) s ?s"
    using pass_advances [OF assms(1,2) Cons.prems(1-3)] Cons.prems(5) by (simp add: t)
  have "come_up rank E view (Suc i + length ts) (passes E ts ?s) \<and> svRecords (passes E ts ?s) = svRecords ?s"
    using a Cons.prems(2,5) come_up_pass [OF Cons.prems(3,4) a] by (intro Cons.IH) (simp_all add: advances_def t)
  then show ?case using a by (simp add: t advances_def)
qed simp

lemma comes_up:
  assumes "faithful (envEngine E) (envHash E) view" "checks_pass (envEngine E)" "svSched s = []" "keyed (svRecords s)"
    "coming rank E view s" "in_time E view ts s" "wanted s n r" "2 * rank n + 1 \<le> length ts"
  shows "(\<exists>c. view (svEngine (passes E ts s)) n = Some c \<and> runs_as n (envHash E (normalized (recSpec r))) c)
    \<and> (2 * rank n + 2 \<le> length ts \<longrightarrow> (\<exists>t. map_of (svTrack (passes E ts s)) n = Some t
        \<and> tPhase t = PhaseRunning \<and> (sHealth (recSpec r) = None \<or> tHealth t = HealthHealthy)))"
proof -
  have "come_up rank E view 0 s" by (simp add: come_up_def)
  from passes_come_up [OF assms(1-5) this assms(6)]
  have "up E view (passes E ts s) n r \<and> (2 * rank n + 2 \<le> length ts \<longrightarrow> settled E view (passes E ts s) n r)"
    using assms(7,8) by (simp add: come_up_def wanted_def)
  then show ?thesis by (auto simp: up_def settled_def split: option.splits)
qed


text \<open>\<open>a\<close> depends on \<open>b\<close>, and neither exists: \<open>b\<close> comes up in the first pass, \<open>a\<close> by the third.\<close>

definition down_rig :: "(mem, (string \<times> container) list) sup" where
  "down_rig = new_sup mem0 [] [] [leaning ''a'' ''b'', rig_record ''b''] []"

definition four_passes :: "((string \<Rightarrow> time) \<times> time) list" where
  "four_passes = replicate 4 (\<lambda>n. rig_boot + 10 * second, rig_boot + 10 * second)"


end
