(* ===== verification/BootUp.thy ===== *)
theory BootUp
  imports ComesUp
begin

text \<open>
  After a boot everything that is declared comes up: \<open>New\<close> over a store that holds the identifier of another boot
  declares every container running, whatever it was, and the passes after it start them in the order of their
  dependencies.
\<close>

definition made_running :: "(string \<times> store_record) list \<Rightarrow> (string \<times> store_record) list \<Rightarrow> (string \<times> store_record) list" where
  "made_running xs recs = fold (\<lambda>(n, r) recs. mput n (r\<lparr>recDesired := Running\<rparr>) recs) xs recs"

lemma boot_records:
  "foreach (boot_record E) xs s = (None, s') \<Longrightarrow> \<exists>d. s' = s\<lparr>svStore := d, svRecords := made_running xs (svRecords s)\<rparr>"
proof (induction xs arbitrary: s)
  case Nil
  then show ?case by (intro exI [of _ "svStore s"]) (simp add: made_running_def)
next
  case (Cons x xs)
  obtain n r where x: "x = (n, r)" by fastforce
  obtain e d where p: "stPut (envStore E) (r\<lparr>recDesired := Running\<rparr>) (svStore s) = (e, d)" by fastforce
  let ?s = "s\<lparr>svStore := d, svRecords := mput n (r\<lparr>recDesired := Running\<rparr>) (svRecords s)\<rparr>"
  have one: "boot_record E x s = (case e of Some m \<Rightarrow> (Some (EOther m), s\<lparr>svStore := d\<rparr>) | None \<Rightarrow> (None, ?s))"
    using p by (simp add: x boot_record_def Let_def split: option.split)
  then have "e = None" using Cons.prems by (cases e) (simp_all add: and_then_def)
  then have "foreach (boot_record E) xs ?s = (None, s')" using Cons.prems one by (simp add: and_then_def)
  from Cons.IH [OF this] show ?case by (auto simp: x made_running_def)
qed

lemma made_running_at:
  "distinct (map fst xs) \<Longrightarrow> map_of (made_running xs recs) n
     = (case map_of xs n of None \<Rightarrow> map_of recs n | Some r \<Rightarrow> Some (r\<lparr>recDesired := Running\<rparr>))"
proof (induction xs arbitrary: recs)
  case (Cons x xs)
  obtain m r where x: "x = (m, r)" by fastforce
  have "m = n \<Longrightarrow> map_of xs n = None" using Cons.prems by (auto simp: x map_of_eq_None_iff)
  moreover have "made_running (x # xs) recs = made_running xs (mput m (r\<lparr>recDesired := Running\<rparr>) recs)" by (simp add: made_running_def x)
  ultimately show ?case using Cons by (auto simp: x split: option.split)
qed (simp add: made_running_def)

lemma made_running_keys: "distinct (map fst recs) \<Longrightarrow> distinct (map fst (made_running xs recs))"
  by (induction xs arbitrary: recs) (auto simp: made_running_def distinct_mput split: prod.split)

lemma booted:
  assumes "stLoad (envStore E) d = Inr (recs, bad)" and "keyed recs" and "new E d en [] = (None, s)"
    and "oBootID (envOpts E) \<noteq> []" and "stBootID (envStore E) d \<noteq> Inr (oBootID (envOpts E))"
  shows "svEngine s = en" "svTrack s = []" "svSched s = []" "keyed (svRecords s)"
    "map_of (svRecords s) n = map_option (\<lambda>r. r\<lparr>recDesired := Running\<rparr>) (map_of recs n)"
proof -
  have dist: "distinct (map fst recs)" using assms(2) by (simp add: keyed_def)
  obtain projs last where p: "stProjects (envStore E) d = Inr projs" "stBootID (envStore E) d = Inr last"
    using assms(1,3) by (auto simp: new_def Let_def split: sum.splits)
  then have b: "boot E (new_sup d en [] recs projs) = (None, s)" using assms by (simp add: new_def)
  obtain s1 where s1: "foreach (boot_record E) recs (new_sup d en [] recs projs) = (None, s1)" "\<exists>d. s = s1\<lparr>svStore := d\<rparr>"
  proof (cases "foreach (boot_record E) recs (new_sup d en [] recs projs)")
    case (Pair e s1)
    then show thesis using that b by (cases e) (auto simp: boot_def and_then_def new_sup_def split: prod.splits option.splits)
  qed
  then obtain d' where s: "s = (new_sup d en [] recs projs)\<lparr>svStore := d', svRecords := made_running recs recs\<rparr>"
    using boot_records [OF s1(1)] by (auto simp: new_sup_def)
  then show "svEngine s = en" "svTrack s = []" "svSched s = []" by (simp_all add: new_sup_def)
  show at: "map_of (svRecords s) n = map_option (\<lambda>r. r\<lparr>recDesired := Running\<rparr>) (map_of recs n)" for n
    using made_running_at [OF dist, of recs n] by (simp add: s split: option.split)
  have "distinct (map fst (svRecords s))" using made_running_keys [OF dist] by (simp add: s)
  moreover have "sName (recSpec r) = m" if "(m, r) \<in> set (svRecords s)" for m r
  proof -
    have "map_of (svRecords s) m = Some r" using that calculation by simp
    then obtain q where "map_of recs m = Some q" "r = q\<lparr>recDesired := Running\<rparr>" using at [of m] by auto
    then show ?thesis using keyed_name [OF assms(2)] by simp
  qed
  ultimately show "keyed (svRecords s)" by (auto simp: keyed_def)
qed

text \<open>The dependencies of what is stored go down, whatever state is stored of them.\<close>

definition stored_down :: "(string \<Rightarrow> nat) \<Rightarrow> (string \<times> store_record) list \<Rightarrow> bool" where
  "stored_down rank recs \<longleftrightarrow> list_all (\<lambda>(n, r). list_all (\<lambda>d. case map_of recs (dName d) of None \<Rightarrow> False
     | Some q \<Rightarrow> rank (dName d) < rank n \<and> (dReady d = ReadyHealthy \<longrightarrow> sHealth (recSpec q) \<noteq> None)) (sDependsOn (recSpec r))) recs"

text \<open>Nothing of the engine under a declared name was started since the boot, and what there is is managed.\<close>

definition none_since_boot :: "time \<Rightarrow> (string \<Rightarrow> container option) \<Rightarrow> (string \<times> store_record) list \<Rightarrow> bool" where
  "none_since_boot booted view recs \<longleftrightarrow> list_all (\<lambda>(n, r). case view n of None \<Rightarrow> True
     | Some c \<Rightarrow> managed c \<and> \<not> running c \<and> (is_zero (cStartedAt c) \<or> cStartedAt c < booted)) recs"

lemma booted_coming:
  assumes "svTrack s = []" and "keyed recs" and "keyed (svRecords s)"
    and "\<And>n. map_of (svRecords s) n = map_option (\<lambda>r. r\<lparr>recDesired := Running\<rparr>) (map_of recs n)"
    and "stored_down rank recs" and "none_since_boot (oBootTime (envOpts E)) (view (svEngine s)) recs"
  shows "coming rank E view s"
proof (subst coming_iff [OF assms(3)], intro allI impI)
  fix n q assume "wanted s n q"
  then obtain r where r: "map_of recs n = Some r" "q = r\<lparr>recDesired := Running\<rparr>" using assms(4) by (auto simp: wanted_def)
  then have nr: "(n, r) \<in> set recs" by (auto dest: map_of_SomeD)
  have d: "list_all (\<lambda>d. case map_of recs (dName d) of None \<Rightarrow> False
     | Some q \<Rightarrow> rank (dName d) < rank n \<and> (dReady d = ReadyHealthy \<longrightarrow> sHealth (recSpec q) \<noteq> None)) (sDependsOn (recSpec r))"
    using assms(5) nr unfolding stored_down_def by (auto simp: list_all_iff)
  then have "depends_down rank (svRecords s) n q" using r(2)
    by (fastforce simp: depends_down_def list_all_iff assms(4) split: option.splits)
  moreover have "case view (svEngine s) n of None \<Rightarrow> True
     | Some c \<Rightarrow> managed c \<and> \<not> running c \<and> (is_zero (cStartedAt c) \<or> cStartedAt c < oBootTime (envOpts E))"
    using assms(6) nr unfolding none_since_boot_def by (auto simp: list_all_iff)
  then have "pending E view s n q"
    by (auto simp: pending_def get_t_def assms(1) zero_tracking_def split: option.splits)
  ultimately show "depends_down rank (svRecords s) n q \<and> (up E view s n q \<or> pending E view s n q)" by blast
qed

text \<open>
  C8: After a boot everything comes up. When the daemon starts for the first time since a boot, over a store whose
  records it can load and with an engine that has started nothing of them since, then, whatever desired state
  was stored, after \<open>2 * k + 1\<close> passes over a faithful engine whose checks pass, each late enough, every stored container of
  rank \<open>k\<close> runs with the label of its declaration; and after one more the supervisor tracks it as running, and as
  healthy when it has a health check.
\<close>

theorem boot_brings_up:
  assumes "new E d en [] = (None, s)" and "stLoad (envStore E) d = Inr (recs, bad)" and "keyed recs"
    and "oBootID (envOpts E) \<noteq> []" and "stBootID (envStore E) d \<noteq> Inr (oBootID (envOpts E))"
    and "faithful (envEngine E) (envHash E) view" and "checks_pass (envEngine E)"
    and "none_since_boot (oBootTime (envOpts E)) (view en) recs" and "stored_down rank recs" and "in_time E view ts s"
    and "map_of recs n = Some r" and "2 * rank n + 1 \<le> length ts"
  shows "(\<exists>c. view (svEngine (passes E ts s)) n = Some c \<and> runs_as n (envHash E (normalized (recSpec r))) c)
    \<and> (2 * rank n + 2 \<le> length ts \<longrightarrow> (\<exists>t. map_of (svTrack (passes E ts s)) n = Some t
        \<and> tPhase t = PhaseRunning \<and> (sHealth (recSpec r) = None \<or> tHealth t = HealthHealthy)))"
proof -
  note b = booted [OF assms(2,3,1,4,5)]
  have c: "coming rank E view s"
    by (rule booted_coming [OF b(2) assms(3) b(4,5) assms(9)]) (simp add: b(1) assms(8))
  have "wanted s n (r\<lparr>recDesired := Running\<rparr>)" by (simp add: wanted_def b(5) assms(11))
  from comes_up [OF assms(6,7) b(3,4) c assms(10) this assms(12)] show ?thesis by simp
qed

text \<open>A store of another boot, where \<open>a\<close>, which depends on \<open>b\<close>, was stopped.\<close>

definition other_boot :: mem where
  "other_boot = mem0\<lparr>mRecords := [(fst (leaning ''a'' ''b''), (snd (leaning ''a'' ''b''))\<lparr>recDesired := Stopped\<rparr>), rig_record ''b''], mBoot := ''boot-0''\<rparr>"

definition new_boot :: "(mem, (string \<times> container) list) sup" where
  "new_boot = snd (new steady_env other_boot [] [])"

lemma boot_brings_up_witness:
  "(\<exists>c. steady_view (svEngine (passes steady_env four_passes new_boot)) ''a'' = Some c \<and> runs_as ''a'' ''img'' c)
   \<and> (\<exists>t. map_of (svTrack (passes steady_env four_passes new_boot)) ''a'' = Some t \<and> tPhase t = PhaseRunning)"
proof -
  let ?r = "(snd (leaning ''a'' ''b''))\<lparr>recDesired := Stopped\<rparr>" and ?rank = "\<lambda>n. if n = ''a'' then 1 else 0 :: nat"
  have "fst (new steady_env other_boot [] []) = None" by code_simp
  then have n: "new steady_env other_boot [] [] = (None, new_boot)" by (simp add: new_boot_def prod_eq_iff)
  have l: "stLoad (envStore steady_env) other_boot = Inr (mRecords other_boot, [])"
    "stBootID (envStore steady_env) other_boot = Inr ''boot-0''" "oBootID (envOpts steady_env) = ''boot-1''"
    by (simp_all add: steady_env_def rig_plain_def memory_def other_boot_def default_options_def)
  have k: "keyed (mRecords other_boot)" by code_simp
  have c: "checks_pass (envEngine steady_env)" by (simp add: checks_pass_def steady_env_def steady_def)
  have e: "none_since_boot (oBootTime (envOpts steady_env)) (steady_view []) (mRecords other_boot)" by code_simp
  have o: "stored_down ?rank (mRecords other_boot)" by code_simp
  have i: "in_time steady_env steady_view four_passes new_boot" by code_simp
  have m: "map_of (mRecords other_boot) ''a'' = Some ?r" by (simp add: other_boot_def leaning_def)
  have "(\<exists>c. steady_view (svEngine (passes steady_env four_passes new_boot)) ''a'' = Some c
      \<and> runs_as ''a'' (envHash steady_env (normalized (recSpec ?r))) c)
    \<and> (2 * ?rank ''a'' + 2 \<le> length four_passes \<longrightarrow> (\<exists>t. map_of (svTrack (passes steady_env four_passes new_boot)) ''a'' = Some t
        \<and> tPhase t = PhaseRunning \<and> (sHealth (recSpec ?r) = None \<or> tHealth t = HealthHealthy)))"
    by (rule boot_brings_up [OF n l(1) k _ _ steady_rig_ok(3) c e o i m]) (simp_all add: l(2,3) four_passes_def)
  then show ?thesis by (auto simp: four_passes_def leaning_def steady_env_def rig_spec_def)
qed

end
