(* ===== verification/History.thy ===== *)
theory History
  imports Daemon BootUp
begin

text \<open>
  What is declared survives: the history of a store since it was set up, over every call of the API that succeeded,
  everything else the daemon does, the power losses and the starts after them.
\<close>

section \<open>The sections of the API, with their result\<close>

fun api_result :: "('d, 'e) env \<Rightarrow> api_op \<Rightarrow> ('d, 'e) sup \<Rightarrow> sup_error option \<times> ('d, 'e) sup" where
  "api_result E (OpPutProject n p specs) s = put_project_locked E n p specs s"
| "api_result E (OpPutProjects files loaded) s = put_projects_locked E files loaded s"
| "api_result E (OpDeleteProject n) s = delete_project E n s"
| "api_result E (OpSetDesired n d) s = set_desired E n d s"
| "api_result E (OpMarkRestart n) s = (None, mark_restart n s)"

lemma api_result_step: "snd (api_result E p s) = api_step E p s"
  by (cases p) simp_all

text \<open>The directories of the projects are of those that come back from the disk as they were.\<close>

fun storable_op :: "api_op \<Rightarrow> bool" where
  "storable_op (OpPutProject n p specs) \<longleftrightarrow> storable_project p"
| "storable_op (OpPutProjects files loaded) \<longleftrightarrow> list_all (storable_project \<circ> snd) files"
| "storable_op _ \<longleftrightarrow> True"

section \<open>The start\<close>

lemma boot_projects: "boot E s = (None, s') \<Longrightarrow> svProjects s' = svProjects s"
proof -
  assume "boot E s = (None, s')"
  then obtain s1 where 1: "foreach (boot_record E) (svRecords s) s = (None, s1)"
    and b: "(case stSetBootID (envStore E) (oBootID (envOpts E)) (svStore s1) of
      (Some e, d) \<Rightarrow> (Some (EOther e), s1\<lparr>svStore := d\<rparr>) | (None, d) \<Rightarrow> (None, s1\<lparr>svStore := d\<rparr>)) = (None, s')"
    by (auto simp: boot_def and_then_None)
  have "svProjects s1 = svProjects s"
    by (rule foreach_None_inv [where P = "\<lambda>u. svProjects u = svProjects s", OF _ _ 1])
       (auto simp: boot_record_def Let_def split: prod.splits option.splits)
  then show ?thesis using b by (auto split: prod.splits option.splits)
qed

text \<open>\<open>New\<close> declares what the disk does, every container running after a boot.\<close>

definition as_booted :: "('d, 'e) env \<Rightarrow> 'd \<Rightarrow> store_record \<Rightarrow> store_record" where
  "as_booted E d r = (if boots E d then r\<lparr>recDesired := Running\<rparr> else r)"

lemma as_booted_cases:
  "boots E d \<Longrightarrow> as_booted E d = (\<lambda>r. r\<lparr>recDesired := Running\<rparr>)" "\<not> boots E d \<Longrightarrow> as_booted E d = (\<lambda>r. r)"
  by (simp_all add: as_booted_def fun_eq_iff)

lemma new_reads:
  assumes "envStore E = disk_store text bad_text" and "durable d"
    and "\<forall>n r. on_disk d n = Some r \<longrightarrow> storable_spec (recSpec r)" and "new E d en [] = (None, s)"
  shows "on_disk_in_step s" and "map_of (svRecords s) n = map_option (as_booted E d) (on_disk d n)"
    and "map_of (svProjects s) = projects_on d"
proof -
  obtain rs bad where l: "store_load d = Inr (rs, bad)" and m: "map_of rs = on_disk d"
    using store_load_reads [OF durable_sel(2) [OF assms(2)]] by (auto simp: on_disk_def)
  have le: "stLoad (envStore E) d = Inr (rs, map bad_text bad)" using l by (simp add: assms(1) disk_store_def)
  obtain projs where pe: "stProjects (envStore E) d = Inr projs"
    using assms(4) le by (auto simp: new_def split: sum.splits)
  then have p: "store_projects d = Inr projs" by (cases "store_projects d") (simp_all add: assms(1) disk_store_def)
  note pm = store_projects_reads [OF durable_sel(2) [OF assms(2)] p]
  have t: "distinct (map fst rs)" "list_all record_ok rs"
    using disk_stores_typed [OF assms(1)] le unfolding stores_typed_def by blast+
  have st: "storable_spec (recSpec r)" if "(n, r) \<in> set rs" for n r
    using map_of_is_SomeI [OF t(1) that] assms(3) m by simp
  have ok: "list_all (\<lambda>(n, r). sName (recSpec r) = n \<and> storable_spec (recSpec r)) rs"
    using st t(2) by (auto simp: list_all_iff record_ok_def)
  let ?s = "new_sup d en [] rs projs"
  have "sName (recSpec r) = k \<and> desired_ok r" if "on_disk d k = Some r" for k r
    using record_at [OF t(2), of k r] that m by (simp add: record_ok_def desired_ok_def)
  then have s0: "on_disk_in_step ?s"
    using assms(2,3) m pm unfolding in_step_def new_sup_def by simp
  have k: "keyed rs" using t by (auto simp: keyed_def list_all_iff record_ok_def)
  show "on_disk_in_step s" "map_of (svRecords s) n = map_option (as_booted E d) (on_disk d n)" "map_of (svProjects s) = projects_on d"
  proof (atomize (full), cases "boots E d")
    case True
    then have b: "boot E ?s = (None, s)" "oBootID (envOpts E) \<noteq> []" "stBootID (envStore E) d \<noteq> Inr (oBootID (envOpts E))"
      using assms(4) by (auto simp: new_def le pe Let_def boots_def split: sum.splits)
    have "on_disk_in_step s"
      by (rule files.boot_in_step [OF s0 assms(1) _ b(1)]) (use ok in \<open>simp add: new_sup_def\<close>)
    moreover have "map_of (svProjects s) = projects_on d" using boot_projects [OF b(1)] pm by (simp add: new_sup_def)
    ultimately show "on_disk_in_step s \<and> map_of (svRecords s) n = map_option (as_booted E d) (on_disk d n) \<and> map_of (svProjects s) = projects_on d"
      using booted(5) [OF le k assms(4) b(2,3), of n] True m by (simp add: as_booted_cases)
  next
    case False
    then have "s = ?s" using assms(4) by (auto simp: new_def le pe Let_def boots_def split: sum.splits)
    then show "on_disk_in_step s \<and> map_of (svRecords s) n = map_option (as_booted E d) (on_disk d n) \<and> map_of (svProjects s) = projects_on d"
      using s0 m pm False by (simp add: new_sup_def as_booted_cases option.map_ident)
  qed
qed

section \<open>A history without a failure\<close>

text \<open>
  A store is set up: an empty directory, or one with what such a store holds. From then on sections of the API
  succeed, one after the other; anything happens that is no change of what is declared (the passes, refused calls, the
  containers, the followers of events); the power is lost and the daemon starts on what is left.
\<close>

inductive unfailing :: "(disk, 'e) env \<Rightarrow> (disk, 'e) sup \<Rightarrow> bool" for E :: "(disk, 'e) env" where
  set_up: "durable d \<Longrightarrow> \<forall>n r. on_disk d n = Some r \<longrightarrow> storable_spec (recSpec r) \<Longrightarrow> new E d en [] = (None, s) \<Longrightarrow> unfailing E s"
| succeeds: "unfailing E s \<Longrightarrow> section_of E p \<Longrightarrow> storable_op p \<Longrightarrow> api_result E p s = (None, s') \<Longrightarrow> unfailing E s'"
| beside_it: "unfailing E s \<Longrightarrow> svStore s' = svStore s \<Longrightarrow> svRecords s' = svRecords s \<Longrightarrow> svProjects s' = svProjects s \<Longrightarrow>
    unfailing E s'"
| starts_again: "unfailing E s \<Longrightarrow> crashed (svStore s) d \<Longrightarrow> readable d \<Longrightarrow> new E d en [] = (None, s') \<Longrightarrow> unfailing E s'"

lemma put_project_unfailing:
  assumes "unfailing E s" and "storable_project p" and "put_project E n p s = (None, s')"
  shows "unfailing E s'"
proof -
  obtain specs s1 where l: "envLoad E n p = Inr specs" and 1: "unmanaged E specs s = (None, s1)" and 2: "put_project_locked E n p specs s1 = (None, s')"
    using assms(3) by (auto simp: put_project_def and_then_None split: sum.splits)
  obtain en where "s1 = s\<lparr>svEngine := en\<rparr>" using unmanaged_done [OF 1] by blast
  then have "unfailing E s1" using beside_it [OF assms(1), of s1] by simp
  then show ?thesis using succeeds [of E s1 "OpPutProject n p specs" s'] l assms(2) 2 by simp
qed

text \<open>A pass in which no section of the API runs is one of the things beside it.\<close>

definition stays :: "('d, 'e) sup \<Rightarrow> ('d, 'e) sup \<Rightarrow> bool" where
  "stays s0 s \<longleftrightarrow> svSched s = [] \<and> svStore s = svStore s0 \<and> svRecords s = svRecords s0 \<and> svProjects s = svProjects s0"

interpretation keeps_declared: reconcile_steps E r "stays s0" for E r s0
  by unfold_locales (auto simp: stays_def quiet_unlocked set_t_def)

lemma pass_stays:
  assumes "svSched s = []"
  shows "stays s (snd (pass E clk pub s))"
proof -
  have scan: "stays s (fold (scan_one E) l u)" if "stays s u" for l u
    using that by (induction l arbitrary: u) (auto simp: scan_one_def stays_def quiet_unlocked)
  have visits: "stays s (snd (visit_all E clk ks (t, u)))" if "stays s u" for ks t u
    using that unfolding visit_all_def
  proof (induction ks arbitrary: t u)
    case (Cons k ks)
    obtain t' u' where v: "visit E clk k (t, u) = (t', u')" by fastforce
    have "stays s u'"
    proof (cases "map_of (svRecords u) k")
      case (Some r)
      then show ?thesis using v keeps_declared.reconcile_kept [OF Cons.prems, of E "clk k" r] by (auto simp: visit_def split: prod.splits)
    qed (use v Cons.prems in \<open>simp add: visit_def\<close>)
    then show ?case using Cons.IH v by simp
  qed simp
  have "interfere E (s\<lparr>svEngine := en\<rparr>) = s\<lparr>svEngine := en\<rparr>" "stays s (s\<lparr>svEngine := en\<rparr>)" for en
    using assms by (simp_all add: interfere_def stays_def)
  note begun = this
  have cleared: "stays s (scan E l (s\<lparr>svEngine := en\<rparr>))" for l en
    unfolding scan_def by (rule scan) (use assms in \<open>simp add: stays_def\<close>)
  have nets: "stays s (publish pub (remove_networks E u))" if "stays s u" for u
    using that by (simp add: stays_def publish_def remove_networks_def interfere_def)
  have all: "visit_all E clk ks (0, scan E l (s\<lparr>svEngine := en\<rparr>)) = (t, u) \<Longrightarrow> stays s (publish pub (remove_networks E u))"
    for ks l en t u
    using nets visits [OF cleared [of l en], of ks 0] by simp
  show ?thesis
    using begun all by (auto simp: pass_def Let_def split: sum.split prod.splits)
qed

lemma pass_unfailing: "unfailing E s \<Longrightarrow> svSched s = [] \<Longrightarrow> unfailing E (snd (pass E clk pub s))"
  using pass_stays [of s E clk pub] beside_it [of E s] by (simp add: stays_def)

lemma crashed_on_disk: "durable d \<Longrightarrow> crashed d d' \<Longrightarrow> on_disk d' = on_disk d \<and> projects_on d' = projects_on d"
  using crashed_durable(1) by (simp add: on_disk_def projects_on_def)

lemma unfailing_in_step:
  assumes "unfailing E s" and "envStore E = disk_store text bad_text"
    and "\<forall>n p specs. envLoad E n p = Inr specs \<longrightarrow> list_all storable_spec specs"
  shows "on_disk_in_step s"
  using assms(1)
proof induction
  case (set_up d en s)
  show ?case by (rule new_reads(1) [OF assms(2) set_up])
next
  case (succeeds s p s')
  show ?case
  proof (cases p)
    case (OpPutProject n q specs)
    then show ?thesis using succeeds files.put_project_in_step [OF succeeds.IH assms(2), of specs q n s'] assms(3) by simp
  next
    case (OpPutProjects fs loaded)
    then show ?thesis using succeeds files.put_projects_in_step [OF succeeds.IH assms(2,3), of fs loaded s'] by simp
  next
    case (OpDeleteProject n)
    then show ?thesis using succeeds files.delete_project_in_step [OF succeeds.IH assms(2), of n s'] by simp
  next
    case (OpSetDesired n x)
    then show ?thesis using succeeds files.set_desired_in_step [OF succeeds.IH assms(2), of x n s'] by simp
  next
    case (OpMarkRestart n)
    then show ?thesis using succeeds by (auto simp: mark_restart_def upd_t_def in_step_def touch_def poke_def set_t_def)
  qed
next
  case (beside_it s s')
  then show ?case by (simp add: in_step_def)
next
  case (starts_again s d en s')
  have g: "durable (svStore s)" and st: "\<forall>n r. on_disk (svStore s) n = Some r \<longrightarrow> storable_spec (recSpec r)"
    using starts_again.IH unfolding in_step_def by blast+
  show ?case
    by (rule new_reads(1) [OF assms(2) crashed_durable(2) [OF g starts_again(2,3)] _ starts_again(4)])
       (use st crashed_on_disk [OF g starts_again(2)] in simp)
qed

text \<open>
  C32: What is declared survives. As long as every section of the API that touched the store since it was set up has
  succeeded, whatever else happened and however often the power was lost, the disk declares what the supervisor does, containers
  and projects; a power loss at any moment takes none of it: \<open>Load\<close> reads every container as it was declared, and
  the daemon, started again, declares the same containers and the same projects, desired as they were or, after a boot,
  running. (A spec comes back as \<open>stored\<close> says, with no empty list or map; the directories of the projects neither begin nor end
  with a space.)
\<close>

theorem declared_survives:
  assumes "unfailing E s" and "envStore E = disk_store text bad_text"
    and "\<forall>n p specs. envLoad E n p = Inr specs \<longrightarrow> list_all storable_spec specs"
    and "crashed (svStore s) d" and "readable d"
  shows "(\<forall>n. map_option (keep stored) (on_disk (svStore s) n) = map_option (keep stored) (map_of (svRecords s) n))
    \<and> projects_on (svStore s) = map_of (svProjects s)
    \<and> (\<exists>rs bad. store_load d = Inr (rs, bad)
        \<and> (\<forall>n. map_option (keep stored) (map_of rs n) = map_option (keep stored) (map_of (svRecords s) n)))
    \<and> (\<forall>en s2. new E d en [] = (None, s2) \<longrightarrow> map_of (svProjects s2) = map_of (svProjects s)
        \<and> (\<forall>n. map_option (keep stored) (map_of (svRecords s2) n)
             = map_option (as_booted E d \<circ> keep stored) (map_of (svRecords s) n)))"
proof -
  have i: "on_disk_in_step s" by (rule unfailing_in_step [OF assms(1-3)])
  then have g: "durable (svStore s)" and st: "\<forall>n r. on_disk (svStore s) n = Some r \<longrightarrow> storable_spec (recSpec r)"
    and m: "\<forall>n. map_option (keep stored) (on_disk (svStore s) n) = map_option (keep stored) (map_of (svRecords s) n)"
    and p: "map_of (svProjects s) = projects_on (svStore s)"
    unfolding in_step_def by blast+
  note c = crashed_on_disk [OF g assms(4)]
  have k: "keep stored \<circ> as_booted E d = as_booted E d \<circ> keep stored" by (rule ext) (simp add: keep_def as_booted_def)
  have n: "map_of (svProjects s2) = map_of (svProjects s)
      \<and> map_option (keep stored) (map_of (svRecords s2) n) = map_option (as_booted E d \<circ> keep stored) (map_of (svRecords s) n)"
    if "new E d en [] = (None, s2)" for en s2 n
  proof -
    have "\<forall>n r. on_disk d n = Some r \<longrightarrow> storable_spec (recSpec r)" using st c by simp
    note r = new_reads(2,3) [OF assms(2) crashed_durable(2) [OF g assms(4,5)] this that]
    have "map_option (keep stored) (map_of (svRecords s2) n) = map_option (as_booted E d) (map_option (keep stored) (on_disk (svStore s) n))"
      using r(1) [of n] c k by (simp add: option.map_comp)
    then show ?thesis using r(2) m c p by (simp add: option.map_comp)
  qed
  then show ?thesis using m p in_step_survives [OF i assms(4,5)] by simp
qed

text \<open>An empty store; a project is declared, and the power is lost.\<close>

definition web_env :: "(disk, fake) env" where
  "web_env = \<lparr>envStore = disk_store (\<lambda>_. ''error'') (\<lambda>_. ''bad file''), envEngine = fake sImage, envHash = sImage,
     envOpts = default_options \<lparr>oBootID = [], oBootTime = rig_boot, oResync = 0, oStopTimeout = 0, oVolumes = []\<rparr>,
     envLoad = (\<lambda>n p. Inr [one_spec])\<rparr>"

definition web_sup :: "(disk, fake) sup" where
  "web_sup = snd (put_project web_env ''web'' \<lparr>prjCompose = ''services: {}'', prjDir = ''/srv''\<rparr> (new_sup empty_disk fake0 [] [] []))"

lemma declared_survives_witness:
  "\<exists>rs bad. store_load (StoreCrash.settled (svStore web_sup)) = Inr (rs, bad) \<and> map_of rs ''web-app-1'' \<noteq> None"
proof -
  have e: "envStore web_env = disk_store (\<lambda>_. ''error'') (\<lambda>_. ''bad file'')" by (simp add: web_env_def)
  have "storable_spec one_spec" using one_storable storable_iff [of one_record] by (simp add: one_record_def)
  then have l: "\<forall>n p specs. envLoad web_env n p = Inr specs \<longrightarrow> list_all storable_spec specs" by (simp add: web_env_def)
  have r: "store_load empty_disk = Inr ([], [])" "store_projects empty_disk = Inr []" "store_boot_id empty_disk = Inr []" by code_simp+
  have "new web_env empty_disk fake0 [] = (None, new_sup empty_disk fake0 [] [] [])"
    by (simp add: new_def web_env_def disk_store_def r default_options_def)
  then have u: "unfailing web_env (new_sup empty_disk fake0 [] [] [])"
    by (rule set_up [OF empty_durable, rotated]) (simp add: empty_holds)
  have "fst (put_project web_env ''web'' \<lparr>prjCompose = ''services: {}'', prjDir = ''/srv''\<rparr> (new_sup empty_disk fake0 [] [] [])) = None"
    by code_simp
  then have p: "put_project web_env ''web'' \<lparr>prjCompose = ''services: {}'', prjDir = ''/srv''\<rparr> (new_sup empty_disk fake0 [] [] []) = (None, web_sup)"
    unfolding web_sup_def by (metis prod.collapse)
  have "storable_project \<lparr>prjCompose = ''services: {}'', prjDir = ''/srv''\<rparr>" by code_simp
  note w = put_project_unfailing [OF u this p]
  have g: "durable (svStore web_sup)" using unfailing_in_step [OF w e l] unfolding in_step_def by blast
  have c: "crashed (svStore web_sup) (StoreCrash.settled (svStore web_sup))" "readable (StoreCrash.settled (svStore web_sup))"
    using durable_sel(1,2) [OF g] crashed_settled by (auto simp: readable_def StoreCrash.settled_def)
  have h: "map_of (svRecords web_sup) ''web-app-1'' \<noteq> None" by code_simp
  obtain rs bad where rs: "store_load (StoreCrash.settled (svStore web_sup)) = Inr (rs, bad)"
    "map_option (keep stored) (map_of rs ''web-app-1'') = map_option (keep stored) (map_of (svRecords web_sup) ''web-app-1'')"
    using declared_survives [OF w e l c] by blast
  then have "map_of rs ''web-app-1'' \<noteq> None" using h by (cases "map_of rs ''web-app-1''") auto
  then show ?thesis using rs(1) by blast
qed

end
