(* ===== verification/CtlTables.thy ===== *)
theory CtlTables
  imports CtlPromises
begin

text \<open>
  The tables of \<open>ctl list\<close>, \<open>ctl projects\<close> and \<open>ctl apply\<close>: the JSON the server writes of a status, decoded
  by the client into the part its tables show, is that part of the status.
\<close>

section \<open>Reading a status back\<close>

lemma skip_member: "field_for fs k = None \<Longrightarrow> d_members False fs ((k, j) # ms) r = d_members False fs ms r"
  by simp

lemma skip_omit: "field_for fs k = None \<Longrightarrow> d_members False fs (omit c k j @ ms) r = d_members False fs ms r"
  by (simp add: omit_def)

lemma skip_all: "list_all (\<lambda>(k, j). field_for fs k = None) ms \<Longrightarrow> d_members False fs ms r = Some r"
  by (induction ms) auto

lemma list_all_omit [simp]: "list_all P (omit c k j) \<longleftrightarrow> c \<or> P (k, j)"
  by (simp add: omit_def)

lemma entry_spec_keys:
  "field_for entry_spec_fields ''name'' = Some (fld d_str esName esName_update)"
  "field_for entry_spec_fields ''image'' = Some (fld d_str esImage esImage_update)"
  "list_all (\<lambda>k. field_for entry_spec_fields k = None) [''project'', ''service'', ''entrypoint'', ''user'', ''working_dir'', ''command'',
     ''environment'', ''publish'', ''volumes'', ''network'', ''aliases'', ''network_mode'', ''cap_add'', ''cap_drop'', ''devices'',
     ''device_cgroup_rules'', ''limits'', ''restart'', ''health'', ''depends_on'']"
  by (simp_all add: entry_spec_fields_def field_for_def upper_def)

lemma entry_spec_back:
  "d_struct False entry_spec_fields (spec_json s) r = Some \<lparr>esName = sName s, esImage = sImage s\<rparr>"
proof -
  note k = entry_spec_keys(3) [unfolded list.pred_inject]
  obtain n i where r: "r = \<lparr>esName = n, esImage = i\<rparr>" by (cases r)
  show ?thesis
    unfolding spec_json_def d_struct.simps r
    by (cases "sHealth s")
       (simp_all add: entry_spec_keys(1,2) k fld_def skip_all)
qed

lemma entry_keys:
  "field_for entry_fields ''project'' = Some (fld d_str enProject enProject_update)"
  "field_for entry_fields ''spec'' = Some (fld (d_struct False entry_spec_fields) enSpec enSpec_update)"
  "field_for entry_fields ''desired'' = Some (fld d_str enDesired enDesired_update)"
  "field_for entry_fields ''phase'' = Some (fld d_str enPhase enPhase_update)"
  "field_for entry_fields ''restarts'' = Some (fld (d_int 64) enRestarts enRestarts_update)"
  "field_for entry_fields ''exit_code'' = Some (fld (d_int 64) enExitCode enExitCode_update)"
  "field_for entry_fields ''error'' = Some (fld d_str enError enError_update)"
  "list_all (\<lambda>k. field_for entry_fields k = None)
     [''service'', ''health'', ''exists'', ''image_id'', ''started_at'', ''exited_at'', ''start_attempts'', ''next_attempt'']"
  by (simp_all add: entry_fields_def field_for_def upper_def)

text \<open>What the tables show of a status.\<close>

definition entry_of :: "status \<Rightarrow> entry" where
  "entry_of st = \<lparr>enProject = stsProject st, enSpec = \<lparr>esName = sName (stsSpec st), esImage = sImage (stsSpec st)\<rparr>,
     enDesired = stsDesired st, enPhase = phase_text (stsPhase st), enRestarts = stsRestarts st,
     enExitCode = stsExitCode st, enError = stsError st\<rparr>"

definition countable :: "status \<Rightarrow> bool" where
  "countable st \<longleftrightarrow> in_int64 (stsRestarts st) \<and> in_int64 (stsExitCode st)"

lemma entry_back:
  assumes "countable st"
  shows "d_struct False entry_fields (status_json stamp st) zero_entry = Some (entry_of st)"
proof -
  note k = entry_keys(8) [unfolded list.pred_inject]
  have e: "d_members False entry_fields (omit (stsError st = []) ''error'' (JStr (stsError st))) (r\<lparr>enError := []\<rparr>)
      = Some (r\<lparr>enError := stsError st\<rparr>)" for r
    by (simp add: omit_def entry_keys fld_def)
  show ?thesis
    unfolding status_json_def d_struct.simps zero_entry_def
    using assms e [of "\<lparr>enProject = stsProject st, enSpec = \<lparr>esName = sName (stsSpec st), esImage = sImage (stsSpec st)\<rparr>,
     enDesired = stsDesired st, enPhase = phase_text (stsPhase st), enRestarts = stsRestarts st,
     enExitCode = stsExitCode st, enError = []\<rparr>"]
    by (simp add: entry_keys k fld_def skip_omit entry_spec_back decode_simps countable_def entry_of_def)
qed

section \<open>Reading a list back\<close>

lemma integral_spec: "integral (spec_json sp)"
  by (auto simp: spec_json_def list_all_iff [of integral] split: option.splits)

lemma integral_status: "integral (status_json stamp st)"
  by (simp add: status_json_def integral_spec)

lemma integral_project: "integral (project_json stamp p)"
  by (simp add: project_json_def list_all_iff [of integral] integral_status)

lemma decode_reply:
  assumes "integral j" and "utf8_json j"
  shows "decode_first d (rsBody (reply code j)) x = d j x"
proof -
  have "stops [CHR 0x0A]" by (simp add: stops_def is_digit_def)
  then have "parse_value (Suc (length (rsBody (reply code j)))) (rsBody (reply code j)) = Some (j, [CHR 0x0A])"
    using parse_encoded(1) [OF assms(1), of "[CHR 0x0A]" "Some 0"] clean_json_id [OF assms(2)]
    by (simp add: reply_def del: parse_value.simps)
  then show ?thesis by (simp add: decode_first_def del: parse_value.simps)
qed

lemma entries_back:
  assumes "list_all countable sts"
  shows "d_entries (JArr (map (status_json stamp) sts)) es = Some (map entry_of sts)"
  using assms all_some_map [of sts "\<lambda>st. d_struct False entry_fields (status_json stamp st) zero_entry" entry_of]
  by (simp add: d_entries_def comp_def list_all_iff entry_back del: d_struct.simps)

lemma list_field: "list_of k d (JObj [(k, j)]) m = d j m"
  by (simp add: list_of_def field_for_def fld_def option.map_ident split: option.split)

lemma services_back:
  assumes "list_all countable (psServices p)"
  shows "list_of ''services'' d_entries (project_json stamp p) [] = Some (map entry_of (psServices p))"
proof -
  have f: "field_for [(''services'', g)] k = None" if "List.member [''name'', ''projectDir'', ''compose''] k" for g :: "json \<Rightarrow> entry list \<Rightarrow> entry list option" and k
    using that by (auto simp: field_for_def upper_def)
  show ?thesis
    using entries_back [OF assms, of stamp "[]"]
    by (simp add: list_of_def project_json_def f skip_omit)
       (simp add: field_for_def fld_def option.map_ident)
qed

section \<open>The tables\<close>

text \<open>A request that is answered at once, and how it is shown.\<close>

lemma shown_answer:
  assumes "command w [c] = Send ''GET'' url [] True how" and "read_arg c = NoFlag"
    and "request_of ''GET'' url [] = Some rq" and "rqMethod rq = ''GET''" and "route ''GET'' (rqPath rq) = Endpoint ep v"
    and "serve S ep v rq s = (reply 200 j, s)" and "print_as how (rsBody (reply 200 j)) = Inr printed"
  shows "ctl (to_server S) w [c] s = (\<lparr>clCode = 0, clOut = printed, clErr = []\<rparr>, s)"
proof -
  have h: "to_server S defaultSocket rq s = (Inr (reply 200 j), s)" using assms(4-6) by (simp add: to_server_def handle_def)
  then have f: "fetch (to_server S defaultSocket) 9 True rq s = (Inr (reply 200 j), s)"
    by (subst fetch.simps) (simp add: h redirected_def)
  have "rsCode (reply 200 j) = 200" by (simp add: reply_def)
  then show ?thesis using assms(1,3,7) f parse_command [OF assms(2)]
    by (simp add: ctl_def client_do_def del: fetch.simps)
qed

lemma request_of_fixed:
  "request_of ''GET'' ''/v1/containers'' [] = Some \<lparr>rqMethod = ''GET'', rqPath = ''/v1/containers'', rqQuery = [], rqBody = [], rqChanges = []\<rparr>"
  "request_of ''GET'' ''/v1/projects'' [] = Some \<lparr>rqMethod = ''GET'', rqPath = ''/v1/projects'', rqQuery = [], rqBody = [], rqChanges = []\<rparr>"
  using request_of_sent(1) [of "''/v1/containers''" "[]" "''GET''" "[]" "[]"] request_of_sent(1) [of "''/v1/projects''" "[]" "''GET''" "[]" "[]"]
  by (simp_all add: sent_def unreserved_def alnum_byte_def is_digit_def)

text \<open>A table of plain cells is one line for each row, the columns aligned.\<close>

definition plain_entry :: "entry \<Rightarrow> bool" where
  "plain_entry e \<longleftrightarrow> list_all plain_cell (entry_row e)"

lemma table_rows:
  assumes "list_all plain_entry es"
  shows "table es = table_text (header_row # map entry_row es)"
proof -
  have "list_all plain_cell header_row" by code_simp
  then have "list_all (list_all plain_cell) (header_row # map entry_row es)"
    using assms by (simp add: list_all_iff plain_entry_def)
  moreover have "list_all (\<lambda>r. length r = Suc 7) (header_row # map entry_row es)"
    by (simp add: list_all_iff header_row_def entry_row_def)
  ultimately show ?thesis unfolding table_def by (rule tabwriter_rows)
qed

text \<open>What an error of podman's can do to the table: a form feed begins another line, and the widths anew.\<close>

definition broken_entry :: entry where
  "broken_entry = zero_entry\<lparr>enSpec := \<lparr>esName = ''web'', esImage = ''img''\<rparr>, enError := ''no'' @ [CHR 0x0C] @ ''space''\<rparr>"

lemma form_feed_breaks_row: "length (filter (\<lambda>c. c = CHR 0x0A) (table [broken_entry])) = 3"
  by code_simp

text \<open>
  C37: The tables show what the supervisor reports. When every text is UTF-8 and the tallies
  are \<open>int\<close>s, then \<open>ctl list\<close> prints the table of the declared containers, in the order of the names, and
  \<open>ctl projects\<close> that of the services of each project, with the name, project, desired state, phase,
  restarts, exit code, image and error the supervisor has; both exit with 0 and change nothing. A table of texts without
  tabs, vertical tabs and form feeds is one line for each container, with the columns aligned.
\<close>

theorem tables_show:
  assumes "list_all (\<lambda>(n, r). countable (status_of s r)) (svRecords s)"
    and "list_all (\<lambda>st. utf8_json (status_json (srvStamp S) st)) (list_status s)"
    and "list_all (\<lambda>p. utf8_json (project_json (srvStamp S) p)) (list_projects (srvEnv S) s)"
  shows "ctl (to_server S) w [''list''] s
      = (\<lparr>clCode = 0, clOut = table (map entry_of (list_status s)), clErr = []\<rparr>, s)
    \<and> ctl (to_server S) w [''projects''] s
      = (\<lparr>clCode = 0, clOut = table (concat (map (\<lambda>p. map entry_of (psServices p)) (list_projects (srvEnv S) s))), clErr = []\<rparr>, s)
    \<and> (\<forall>es. list_all plain_entry es \<longrightarrow> table es = table_text (header_row # map entry_row es))"
proof (intro conjI)
  show "\<forall>es. list_all plain_entry es \<longrightarrow> table es = table_text (header_row # map entry_row es)" using table_rows by blast
next
  let ?sts = "list_status s" and ?ps = "list_projects (srvEnv S) s"
  have c: "list_all countable ?sts" using assms(1) by (auto simp: list_status_def list_all_iff)
  have r: "countable (status_of s r)" if "(n, r) \<in> set (svRecords s)" for n r
    using assms(1) that by (fastforce simp: list_all_iff)
  have "list_all countable (psServices (project_of (srvEnv S) s n))" for n
    using r by (auto simp: project_of_def list_all_iff)
  then have "list_all countable (psServices p)" if "p \<in> set ?ps" for p
    using that by (auto simp: list_projects_def Let_def)
  then have pc: "\<forall>p \<in> set ?ps. list_of ''services'' d_entries (project_json (srvStamp S) p) [] = Some (map entry_of (psServices p))"
    using services_back by blast
  let ?j = "JObj [(''containers'', JArr (map (status_json (srvStamp S)) ?sts))]"
  have "utf8 ''containers''" "utf8 ''projects''" by code_simp+
  then have u: "utf8_json ?j" "utf8_json (JObj [(''projects'', JArr (map (project_json (srvStamp S)) ?ps))])"
    using assms(2,3) by (simp_all add: list_all_iff del: utf8.simps)
  have "decode_first (list_of ''containers'' d_entries) (rsBody (reply 200 ?j)) [] = Some (map entry_of ?sts)"
    using decode_reply [OF _ u(1), where d = "list_of ''containers'' d_entries"] entries_back [OF c]
    by (simp add: list_all_iff [of integral] integral_status list_field)
  then have p1: "print_as Containers (rsBody (reply 200 ?j)) = Inr (table (map entry_of ?sts))" by (simp add: print_defs)
  show "ctl (to_server S) w [''list''] s = (\<lparr>clCode = 0, clOut = table (map entry_of ?sts), clErr = []\<rparr>, s)"
    by (rule shown_answer [where j = ?j and ep = GetContainers and v = "[]" and how = Containers, OF _ _ request_of_fixed(1)])
       (simp_all add: p1 command_def route_fixed serve_def h_list_def read_arg_def)
  let ?k = "JObj [(''projects'', JArr (map (project_json (srvStamp S)) ?ps))]"
  have "d_services (JArr (map (project_json (srvStamp S)) ?ps)) [] = Some (map (\<lambda>p. map entry_of (psServices p)) ?ps)"
    using pc all_some_map [of ?ps "\<lambda>p. list_of ''services'' d_entries (project_json (srvStamp S) p) []"]
    by (simp add: d_services_def comp_def)
  then have "decode_first (list_of ''projects'' d_services) (rsBody (reply 200 ?k)) []
      = Some (map (\<lambda>p. map entry_of (psServices p)) ?ps)"
    using decode_reply [OF _ u(2), where d = "list_of ''projects'' d_services"] by (simp add: list_all_iff [of integral] integral_project list_field)
  then have p2: "print_as Projects (rsBody (reply 200 ?k)) = Inr (table (concat (map (\<lambda>p. map entry_of (psServices p)) ?ps)))"
    by (simp add: print_defs)
  show "ctl (to_server S) w [''projects''] s
      = (\<lparr>clCode = 0, clOut = table (concat (map (\<lambda>p. map entry_of (psServices p)) ?ps)), clErr = []\<rparr>, s)"
    by (rule shown_answer [where j = ?k and ep = GetProjects and v = "[]" and how = Projects, OF _ _ request_of_fixed(2)])
       (simp_all add: p2 command_def route_fixed serve_def h_projects_def read_arg_def)
qed

lemma tables_show_witness:
  "ctl (to_server rig_server) rig_world [''list''] declared_rig
     = (\<lparr>clCode = 0, clOut = table_text [header_row, [''b'', ''p'', ''stopped'', ''stopped'', ''0'', ''0'', ''img'', []]], clErr = []\<rparr>, declared_rig)"
proof -
  have "list_all (\<lambda>(n, r). countable (status_of declared_rig r)) (svRecords declared_rig)"
    "list_all (\<lambda>st. utf8_json (status_json (srvStamp rig_server) st)) (list_status declared_rig)"
    "list_all (\<lambda>p. utf8_json (project_json (srvStamp rig_server) p)) (list_projects (srvEnv rig_server) declared_rig)"
    by code_simp+
  note t = tables_show [OF this, of rig_world]
  have r: "map entry_row (map entry_of (list_status declared_rig)) = [[''b'', ''p'', ''stopped'', ''stopped'', ''0'', ''0'', ''img'', []]]"
    "list_all plain_entry (map entry_of (list_status declared_rig))" by code_simp+
  show ?thesis using t r by metis
qed

end
