(* ===== verification/Run.thy ===== *)
theory Run
  imports Kept
begin

text \<open>
  \<open>Supervisor.Run\<close>, the loop of the daemon, and \<open>restartEvents\<close>: a pass, then a \<open>select\<close> over the wake-up, the
  timer, the engine's events and the end. Where the loop is, is a \<open>stage\<close>; what happens to it is a relation, for
  which case of a \<open>select\<close> runs when several are ready is not determined. Calls of the API come at any time.
\<close>

section \<open>The loop\<close>

datatype run_stage = Passing | Selecting time | Restarting time | Returned

text \<open>
  The state of the loop: where it is, the time, whether the event channel is one that yields (it is nil once
  it was closed), whether the context has ended, and the supervisor. \<open>rnMark\<close> and \<open>rnEnd\<close> are history: the supervisor as the last
  pass found it and the time the pass ended.
\<close>

record ('d, 'e) run =
  rnStage :: run_stage
  rnNow :: time
  rnEvents :: bool
  rnDone :: bool
  rnSup :: "('d, 'e) sup"
  rnMark :: "('d, 'e) sup"
  rnEnd :: time

text \<open>The next iteration: the pass begins with what the supervisor is then.\<close>

definition next_pass :: "('d, 'e) run \<Rightarrow> ('d, 'e) run" where
  "next_pass l = l\<lparr>rnStage := Passing, rnMark := rnSup l\<rparr>"

text \<open>A pass with sections of the API inside, ending at a time of its own; the timer is set after it.\<close>

definition after_pass :: "('d, 'e) env \<Rightarrow> (string \<Rightarrow> time) \<Rightarrow> time \<Rightarrow> api_op list list \<Rightarrow> time \<Rightarrow> ('d, 'e) run \<Rightarrow> ('d, 'e) run" where
  "after_pass E clk pub sched now l =
     (case pass E clk pub ((rnSup l)\<lparr>svSched := sched\<rparr>) of (result, s) \<Rightarrow>
        l\<lparr>rnStage := Selecting (now + run_wait (oResync (envOpts E)) now result), rnNow := now, rnSup := s, rnEnd := now\<rparr>)"

inductive run_step :: "('d, 'e) env \<Rightarrow> ('d, 'e) run \<Rightarrow> ('d, 'e) run \<Rightarrow> bool" for E where
  passes: "rnStage l = Passing \<Longrightarrow> rnNow l \<le> now \<Longrightarrow> run_step E l (after_pass E clk pub sched now l)"
| woken: "rnStage l = Selecting d \<Longrightarrow> svWake (rnSup l) \<Longrightarrow>
    run_step E l (next_pass (l\<lparr>rnSup := (rnSup l)\<lparr>svWake := False\<rparr>\<rparr>))"
| timer: "rnStage l = Selecting d \<Longrightarrow> d \<le> rnNow l \<Longrightarrow> run_step E l (next_pass l)"
| event: "rnStage l = Selecting d \<Longrightarrow> rnEvents l \<Longrightarrow> run_step E l (next_pass l)"
| no_events: "rnStage l = Selecting d \<Longrightarrow> rnEvents l \<Longrightarrow> run_step E l (next_pass (l\<lparr>rnEvents := False\<rparr>))"
| broken: "rnStage l = Selecting d \<Longrightarrow> run_step E l (l\<lparr>rnStage := Restarting (rnNow l + second)\<rparr>)"
| restarted: "rnStage l = Restarting d \<Longrightarrow> d \<le> rnNow l \<or> rnDone l \<Longrightarrow> run_step E l (next_pass (l\<lparr>rnEvents := True\<rparr>))"
| cancelled: "run_step E l (l\<lparr>rnDone := True\<rparr>)"
| ended: "rnStage l = Selecting d \<Longrightarrow> rnDone l \<Longrightarrow> run_step E l (l\<lparr>rnStage := Returned\<rparr>)"
| called: "rnStage l \<noteq> Passing \<Longrightarrow> run_step E l (l\<lparr>rnSup := api_step E p (rnSup l)\<rparr>)"
| later: "rnNow l \<le> now \<Longrightarrow> run_step E l (l\<lparr>rnNow := now\<rparr>)"

inductive runs :: "('d, 'e) env \<Rightarrow> ('d, 'e) run \<Rightarrow> bool" for E where
  start: "runs E \<lparr>rnStage = Passing, rnNow = now, rnEvents = True, rnDone = False, rnSup = s, rnMark = s, rnEnd = now\<rparr>"
| step: "runs E l \<Longrightarrow> run_step E l l' \<Longrightarrow> runs E l'"

section \<open>No wake-up is lost\<close>

text \<open>Nothing was declared, deleted, started, stopped or marked for a restart since \<open>s0\<close>.\<close>

definition same_orders :: "('d, 'e) sup \<Rightarrow> ('d, 'e) sup \<Rightarrow> bool" where
  "same_orders s0 s \<longleftrightarrow> svRecords s = svRecords s0 \<and> svSeq s = svSeq s0"

definition heard :: "('d, 'e) sup \<Rightarrow> ('d, 'e) sup \<Rightarrow> bool" where
  "heard s0 s \<longleftrightarrow> svWake s \<or> same_orders s0 s"

interpretation hearing: kept "heard s0" "\<lambda>_. True" "\<lambda>_. True" "\<lambda>_. True" for s0
  by unfold_locales (auto simp: heard_def same_orders_def touch_def poke_def set_t_def publish_def subscribe_def unsubscribe_def
      Let_def admissible_def list_all_iff split: api_op.split)

lemma heard_sched: "heard s0 (s\<lparr>svSched := x\<rparr>) \<longleftrightarrow> heard s0 s" by (simp add: heard_def same_orders_def)

lemma heard_refl: "heard s s" "heard s (s\<lparr>svWake := False\<rparr>)" by (simp_all add: heard_def same_orders_def)

lemma run_wait_bound: "run_wait resync now result \<le> max resync (100 * millisecond)"
  by (auto simp: run_wait_def Let_def)

text \<open>What holds of the loop wherever it is.\<close>

definition run_ok :: "('d, 'e) env \<Rightarrow> ('d, 'e) run \<Rightarrow> bool" where
  "run_ok E l \<longleftrightarrow> heard (rnMark l) (rnSup l)
     \<and> (\<forall>d. rnStage l = Selecting d \<longrightarrow> d \<le> rnEnd l + max (oResync (envOpts E)) (100 * millisecond))
     \<and> (\<forall>d. rnStage l = Restarting d \<longrightarrow> d \<le> rnNow l + second)"

lemma run_ok_next: "run_ok E (next_pass l)"
  by (simp add: run_ok_def next_pass_def heard_refl)

lemma run_ok_pass: "run_ok E l \<Longrightarrow> run_ok E (after_pass E clk pub sched now l)"
proof -
  assume l: "run_ok E l"
  obtain x s where p: "pass E clk pub ((rnSup l)\<lparr>svSched := sched\<rparr>) = (x, s)" by fastforce
  have "heard (rnMark l) (snd (pass E clk pub ((rnSup l)\<lparr>svSched := sched\<rparr>)))"
    by (rule hearing.pass_kept) (use l in \<open>simp add: heard_sched run_ok_def\<close>)
  then show ?thesis using run_wait_bound by (simp add: after_pass_def p run_ok_def)
qed

lemma run_ok_step: "run_step E l l' \<Longrightarrow> run_ok E l \<Longrightarrow> run_ok E l'"
proof (induction rule: run_step.induct)
  case (called l p)
  have "admissible (\<lambda>_. True) (\<lambda>_. True) p" by (cases p) (simp_all add: admissible_def list_all_iff)
  then have "heard (rnMark l) (api_step E p (rnSup l))"
    using hearing.api_step_kept [of "rnMark l" "rnSup l" p E] called(2) unfolding run_ok_def by blast
  then show ?case using called(2) by (simp add: run_ok_def)
next
  case (passes l now clk pub sched)
  then show ?case by (simp add: run_ok_pass)
next
  case (later l now)
  then show ?case by (fastforce simp: run_ok_def)
qed (simp_all only: run_ok_next, simp_all add: run_ok_def)

lemma runs_ok: "runs E l \<Longrightarrow> run_ok E l"
  by (induction rule: runs.induct) (simp_all add: run_ok_step, simp add: run_ok_def heard_refl)

text \<open>
  C39: No order is slept on. Whenever \<open>Run\<close> waits in its \<open>select\<close>, either nothing was declared, deleted,
  started, stopped or marked for a restart since the last pass began, not even while it ran, or the wake-up
  is there and the next pass can begin at once; and in any case the timer goes off within the resync period
  of the end of the last pass, or 100 ms when that is shorter, and then the next pass can begin.
\<close>

theorem no_order_slept_on:
  assumes "runs E l" and "rnStage l = Selecting d"
  shows "(same_orders (rnMark l) (rnSup l) \<or> run_step E l (next_pass (l\<lparr>rnSup := (rnSup l)\<lparr>svWake := False\<rparr>\<rparr>)))
    \<and> d \<le> rnEnd l + max (oResync (envOpts E)) (100 * millisecond)
    \<and> run_step E (l\<lparr>rnNow := max d (rnNow l)\<rparr>) (next_pass (l\<lparr>rnNow := max d (rnNow l)\<rparr>))"
proof (intro conjI)
  note ok = runs_ok [OF assms(1), unfolded run_ok_def heard_def]
  show "same_orders (rnMark l) (rnSup l) \<or> run_step E l (next_pass (l\<lparr>rnSup := (rnSup l)\<lparr>svWake := False\<rparr>\<rparr>))"
    using ok run_step.woken [OF assms(2)] by blast
  show "d \<le> rnEnd l + max (oResync (envOpts E)) (100 * millisecond)" using ok assms(2) by blast
  show "run_step E (l\<lparr>rnNow := max d (rnNow l)\<rparr>) (next_pass (l\<lparr>rnNow := max d (rnNow l)\<rparr>))"
    by (rule run_step.timer [where d = d]) (simp_all add: assms(2))
qed

text \<open>A loop that has made its first pass, and was then told to restart a container.\<close>

definition idle_run :: "(mem, fake \<times> call list) run" where
  "idle_run = after_pass rig_env (\<lambda>_. rig_boot) rig_boot [] rig_boot
     \<lparr>rnStage = Passing, rnNow = rig_boot, rnEvents = True, rnDone = False, rnSup = rig_sup [rig_record ''a''] fake0,
      rnMark = rig_sup [rig_record ''a''] fake0, rnEnd = rig_boot\<rparr>"

definition told_run :: "(mem, fake \<times> call list) run" where
  "told_run = idle_run\<lparr>rnSup := api_step rig_env (OpMarkRestart ''a'') (rnSup idle_run)\<rparr>"

lemma no_order_slept_on_witness:
  "runs rig_env told_run \<and> \<not> same_orders (rnMark told_run) (rnSup told_run)
   \<and> run_step rig_env told_run (next_pass (told_run\<lparr>rnSup := (rnSup told_run)\<lparr>svWake := False\<rparr>\<rparr>))"
proof -
  have st: "rnStage idle_run = Selecting (rig_boot + second)" and q: "svSeq (rnSup idle_run) = 0" by code_simp+
  have "runs rig_env idle_run"
    unfolding idle_run_def by (rule runs.step [OF runs.start run_step.passes]) simp_all
  then have r: "runs rig_env told_run"
    unfolding told_run_def by (rule runs.step [OF _ run_step.called]) (simp add: st)
  have t: "rnStage told_run = Selecting (rig_boot + second)" by (simp add: told_run_def st)
  have "svSeq (rnSup told_run) = 1" by (simp add: told_run_def mark_restart_def touch_def poke_def Let_def q)
  moreover have "svSeq (rnMark told_run) = 0"
    by (simp add: told_run_def idle_run_def after_pass_def rig_sup_def new_sup_def split: prod.split)
  ultimately have n: "\<not> same_orders (rnMark told_run) (rnSup told_run)" by (simp add: same_orders_def)
  from no_order_slept_on [OF r t] n r show ?thesis by blast
qed

end
