(* ===== verification/Listen.thy ===== *)
theory Listen
  imports GoPath
begin

unbundle bit_operations_syntax

text \<open>
  \<open>api.Listen\<close> and \<open>umask\<close>: the system calls that open the API's socket, over a process with a umask
  and a tree of files with modes. A call fails when the next of \<open>prFaults\<close> says so, or for the reason
  the call has; \<open>prSeen\<close> keeps the files after each call, so that a property can speak of every moment
  another process may connect at.
\<close>

type_synonym mode = "32 word"

text \<open>The flag of a socket says whether a process listens on it.\<close>

datatype node = Folder mode | Plain mode | Socket mode bool

record proc =
  prMask :: mode
  prFiles :: "(string \<times> node) list"
  prFaults :: "string option list"
  prSeen :: "(string \<times> node) list list"

type_synonym tree = "(string \<times> node) list"

section \<open>System calls\<close>

definition syscall :: "(tree \<Rightarrow> string option \<times> tree) \<Rightarrow> proc \<Rightarrow> string option \<times> proc" where
  "syscall act p =
     (let fault = (case prFaults p of [] \<Rightarrow> None | f # _ \<Rightarrow> f); p1 = p\<lparr>prFaults := tl (prFaults p)\<rparr> in
      case fault of
        Some e \<Rightarrow> (Some e, p1\<lparr>prSeen := prFiles p # prSeen p\<rparr>)
      | None \<Rightarrow> (case act (prFiles p) of (e, fs) \<Rightarrow> (e, p1\<lparr>prFiles := fs, prSeen := fs # prSeen p\<rparr>)))"

definition allowed :: "mode \<Rightarrow> mode \<Rightarrow> mode" where
  "allowed um m = m AND NOT um"

definition is_folder :: "tree \<Rightarrow> string \<Rightarrow> bool" where
  "is_folder fs path \<longleftrightarrow> (case map_of fs path of Some (Folder m) \<Rightarrow> True | _ \<Rightarrow> False)"

text \<open>\<open>os.MkdirAll\<close>: the folders from the root down that are missing.\<close>

definition ancestors :: "string \<Rightarrow> string list" where
  "ancestors path = map (\<lambda>n. slash # join ''/'' (take n (tl (split_on slash path)))) [1..<length (split_on slash path)]"

definition sys_mkdir :: "mode \<Rightarrow> string \<Rightarrow> tree \<Rightarrow> string option \<times> tree" where
  "sys_mkdir m path fs = (case map_of fs path of
     None \<Rightarrow> (None, mput path (Folder m) fs)
   | Some (Folder _) \<Rightarrow> (None, fs)
   | Some _ \<Rightarrow> (Some ''not a directory'', fs))"

definition mkdir_all :: "string \<Rightarrow> mode \<Rightarrow> proc \<Rightarrow> string option \<times> proc" where
  "mkdir_all path m p = foreach (\<lambda>d p. syscall (sys_mkdir (allowed (prMask p) m) d) p) (ancestors path) p"

text \<open>\<open>os.Remove\<close> where a missing file is no error: a folder goes only when it is empty.\<close>

definition sys_remove :: "string \<Rightarrow> tree \<Rightarrow> string option \<times> tree" where
  "sys_remove path fs =
     (if is_folder fs path \<and> list_ex (\<lambda>(q, n). has_prefix q (path @ ''/'')) fs then (Some ''directory not empty'', fs)
      else (None, mdel path fs))"

text \<open>\<open>umask\<close> sets the mask and returns the old one; it cannot fail.\<close>

definition umask :: "mode \<Rightarrow> proc \<Rightarrow> mode \<times> proc" where
  "umask m p = (prMask p, p\<lparr>prMask := m\<rparr>)"

text \<open>\<open>net.Listen\<close>: the socket is made by \<open>bind\<close>, with what the mask leaves of 0777, and listened on.\<close>

definition sys_bind :: "mode \<Rightarrow> string \<Rightarrow> tree \<Rightarrow> string option \<times> tree" where
  "sys_bind m path fs =
     (if has_key fs path then (Some ''address already in use'', fs)
      else if \<not> is_folder fs (path_dir path) then (Some ''no such file or directory'', fs)
      else (None, mput path (Socket m False) fs))"

definition sys_listen :: "string \<Rightarrow> tree \<Rightarrow> string option \<times> tree" where
  "sys_listen path fs = (case map_of fs path of
     Some (Socket m _) \<Rightarrow> (None, mput path (Socket m True) fs) | _ \<Rightarrow> (Some ''invalid argument'', fs))"

definition net_listen :: "string \<Rightarrow> proc \<Rightarrow> string option \<times> proc" where
  "net_listen path p =
     and_then (syscall (sys_bind (allowed (prMask p) 0x1FF) path) p) (syscall (sys_listen path))"

definition set_mode :: "mode \<Rightarrow> node \<Rightarrow> node" where
  "set_mode m n = (case n of Folder _ \<Rightarrow> Folder m | Plain _ \<Rightarrow> Plain m | Socket _ live \<Rightarrow> Socket m live)"

definition sys_chmod :: "mode \<Rightarrow> string \<Rightarrow> tree \<Rightarrow> string option \<times> tree" where
  "sys_chmod m path fs = (case map_of fs path of
     None \<Rightarrow> (Some ''no such file or directory'', fs) | Some n \<Rightarrow> (None, mput path (set_mode m n) fs))"

text \<open>\<open>Close\<close> of the listener unlinks its socket; its error is dropped.\<close>

definition close_listener :: "string \<Rightarrow> proc \<Rightarrow> proc" where
  "close_listener path p =
     (let p = p\<lparr>prFiles := (case map_of (prFiles p) path of
                Some (Socket m _) \<Rightarrow> mput path (Socket m False) (prFiles p) | _ \<Rightarrow> prFiles p)\<rparr>
      in snd (syscall (\<lambda>fs. (None, mdel path fs)) p))"

section \<open>Listen\<close>

definition Listen :: "string \<Rightarrow> proc \<Rightarrow> string option \<times> proc" where
  "Listen path p =
     and_then (mkdir_all (path_dir path) 0x1ED p) (\<lambda>p.
     and_then (syscall (sys_remove path) p) (\<lambda>p.
       let (old, p) = umask 0x7F p;
           (err, p) = net_listen path p;
           (_, p) = umask old p
       in case err of Some e \<Rightarrow> (Some e, p)
          | None \<Rightarrow> (case syscall (sys_chmod 0x180 path) p of
               (Some e, p) \<Rightarrow> (Some e, close_listener path p)
             | (None, p) \<Rightarrow> (None, p))))"

section \<open>The socket is private\<close>

text \<open>No one listens on a socket at \<open>path\<close> that more than its owner may use.\<close>

definition owner_only :: "string \<Rightarrow> tree \<Rightarrow> bool" where
  "owner_only path fs \<longleftrightarrow> (case map_of fs path of Some (Socket m live) \<Rightarrow> live \<longrightarrow> m AND NOT 0x180 = 0 | _ \<Rightarrow> True)"

definition quiet_at :: "string \<Rightarrow> tree \<Rightarrow> bool" where
  "quiet_at path fs \<longleftrightarrow> (case map_of fs path of Some (Socket m live) \<Rightarrow> \<not> live | _ \<Rightarrow> True)"

lemma quiet_owner_only: "quiet_at path fs \<Longrightarrow> owner_only path fs"
  by (auto simp: quiet_at_def owner_only_def split: option.splits node.splits)

lemma syscall_sel [simp]:
  "prMask (snd (syscall act p)) = prMask p"
  "prSeen (snd (syscall act p)) = prFiles (snd (syscall act p)) # prSeen p"
  by (simp_all add: syscall_def Let_def split: option.split list.split prod.split)

lemma syscall_keeps:
  "P (prFiles p) \<Longrightarrow> (\<And>fs. P fs \<Longrightarrow> P (snd (act fs))) \<Longrightarrow> P (prFiles (snd (syscall act p)))"
  by (simp add: syscall_def Let_def split: option.split list.split prod.split) (metis snd_conv)

text \<open>Nothing listens at the path, and nothing too open was ever seen there.\<close>

definition closed :: "string \<Rightarrow> mode \<Rightarrow> proc \<Rightarrow> bool" where
  "closed path um p \<longleftrightarrow> prMask p = um \<and> quiet_at path (prFiles p) \<and> list_all (owner_only path) (prSeen p)"

lemma closed_syscall:
  assumes "closed path um p" and "\<And>fs. quiet_at path fs \<Longrightarrow> quiet_at path (snd (act fs))"
  shows "closed path um (snd (syscall act p))"
  using assms syscall_keeps [of "quiet_at path" p act] quiet_owner_only by (auto simp: closed_def)

lemma quiet_steps:
  "quiet_at path fs \<Longrightarrow> quiet_at path (snd (sys_mkdir m d fs))"
  "quiet_at path fs \<Longrightarrow> quiet_at path (snd (sys_remove q fs))"
  "quiet_at path fs \<Longrightarrow> quiet_at path (snd (sys_bind m q fs))"
  "quiet_at path fs \<Longrightarrow> quiet_at path (mdel q fs)"
  by (auto simp: quiet_at_def sys_mkdir_def sys_remove_def sys_bind_def split: option.splits node.splits)

lemma closed_mkdir_all: "closed path um p \<Longrightarrow> closed path um (snd (mkdir_all d m p))"
  unfolding mkdir_all_def by (rule foreach_inv) (auto intro: closed_syscall quiet_steps)

lemma bind_done: "syscall (sys_bind m path) p = (None, p') \<Longrightarrow> map_of (prFiles p') path = Some (Socket m False)"
  by (auto simp: syscall_def Let_def sys_bind_def split: option.splits list.splits prod.splits if_splits)

text \<open>\<open>listen\<close> makes the socket of \<open>bind\<close> live, or fails and leaves it as it is.\<close>

lemma listen_after_bind:
  assumes "map_of (prFiles p) path = Some (Socket m False)"
  shows "case syscall (sys_listen path) p of
     (None, p') \<Rightarrow> map_of (prFiles p') path = Some (Socket m True) | (Some e, p') \<Rightarrow> prFiles p' = prFiles p"
  using assms by (auto simp: syscall_def Let_def sys_listen_def split: option.splits list.splits prod.splits)

lemma net_listen_private:
  assumes "closed path 0x7F p" and "net_listen path p = (e, p')"
  shows "prMask p' = 0x7F \<and> list_all (owner_only path) (prSeen p')
    \<and> (case e of None \<Rightarrow> map_of (prFiles p') path = Some (Socket 0x180 True) | Some _ \<Rightarrow> quiet_at path (prFiles p'))"
proof -
  obtain e1 p1 where b: "syscall (sys_bind (allowed (prMask p) 0x1FF) path) p = (e1, p1)" by fastforce
  have "closed path 0x7F (snd (syscall (sys_bind (allowed (prMask p) 0x1FF) path) p))"
    by (rule closed_syscall [OF assms(1)]) (rule quiet_steps)
  then have c: "closed path 0x7F p1" by (simp add: b)
  show ?thesis
  proof (cases e1)
    case None
    have m: "map_of (prFiles p1) path = Some (Socket 0x180 False)"
      using bind_done [OF b [unfolded None]] assms(1) by (simp add: closed_def allowed_def)
    have l: "syscall (sys_listen path) p1 = (e, p')" using assms(2) b None by (simp add: net_listen_def)
    then have "prSeen p' = prFiles p' # prSeen p1" "prMask p' = prMask p1" by (metis snd_conv syscall_sel)+
    then show ?thesis using listen_after_bind [OF m] l c m
      by (cases e) (simp_all add: closed_def owner_only_def quiet_at_def)
  next
    case (Some x)
    then show ?thesis using assms(2) b c by (auto simp: net_listen_def closed_def)
  qed
qed

text \<open>
  Whatever calls fail, nobody finds a socket that is listened on at the path with more than the owner's 0600, not
  even between its creation and the change of its mode; the umask is what it was, and \<open>Listen\<close> returns
  either with the socket open and 0600 or with nothing listening.
\<close>

lemma listen_private:
  assumes "closed path (prMask p) p"
  shows "case Listen path p of (e, p') \<Rightarrow>
    prMask p' = prMask p \<and> list_all (owner_only path) (prSeen p')
    \<and> (if e = None then map_of (prFiles p') path = Some (Socket 0x180 True) else quiet_at path (prFiles p'))"
proof -
  obtain e1 p1 where 1: "mkdir_all (path_dir path) 0x1ED p = (e1, p1)" by fastforce
  have c1: "closed path (prMask p) p1" using closed_mkdir_all [OF assms, of "path_dir path" "0x1ED"] unfolding 1 by simp
  obtain e2 p2 where 2: "syscall (sys_remove path) p1 = (e2, p2)" by fastforce
  have "closed path (prMask p) (snd (syscall (sys_remove path) p1))" by (rule closed_syscall [OF c1]) (rule quiet_steps)
  then have c2: "closed path (prMask p) p2" by (simp add: 2)
  obtain e3 p3 where 3: "net_listen path (p2\<lparr>prMask := 0x7F\<rparr>) = (e3, p3)" by fastforce
  have "closed path 0x7F (p2\<lparr>prMask := 0x7F\<rparr>)" using c2 by (simp add: closed_def)
  note n = net_listen_private [OF this 3]
  have l: "list_all (owner_only path) (prSeen p3)"
    "case e3 of None \<Rightarrow> map_of (prFiles p3) path = Some (Socket 0x180 True) | Some _ \<Rightarrow> quiet_at path (prFiles p3)"
    using n by blast+
  let ?p3 = "p3\<lparr>prMask := prMask p\<rparr>"
  obtain e4 p4 where 4: "syscall (sys_chmod 0x180 path) ?p3 = (e4, p4)" by fastforce
  have L: "Listen path p = (if e1 \<noteq> None then (e1, p1) else if e2 \<noteq> None then (e2, p2) else if e3 \<noteq> None then (e3, ?p3)
      else if e4 \<noteq> None then (e4, close_listener path p4) else (None, p4))"
    using 1 2 3 4 c2 by (cases e1; cases e2; cases e3; cases e4; simp add: Listen_def umask_def closed_def)
  have s4: "e3 = None \<Longrightarrow> map_of (prFiles p4) path = Some (Socket 0x180 True)"
    "prSeen p4 = prFiles p4 # prSeen p3" "prMask p4 = prMask p"
  proof -
    show "prSeen p4 = prFiles p4 # prSeen p3" "prMask p4 = prMask p"
      using syscall_sel [of "sys_chmod 0x180 path" ?p3] 4 by simp_all
    have "e3 = None \<Longrightarrow> map_of (prFiles (snd (syscall (sys_chmod 0x180 path) ?p3))) path = Some (Socket 0x180 True)"
      using l(2) by (intro syscall_keeps [where P = "\<lambda>fs. map_of fs path = Some (Socket 0x180 True)"])
        (auto simp: sys_chmod_def set_mode_def)
    then show "e3 = None \<Longrightarrow> map_of (prFiles p4) path = Some (Socket 0x180 True)" using 4 by simp
  qed
  have o4: "e3 = None \<Longrightarrow> list_all (owner_only path) (prSeen p4)"
    using s4 l(1) by (simp add: owner_only_def)
  have cl: "closed path (prMask p) (close_listener path p4)" if "e3 = None"
    unfolding close_listener_def Let_def
    by (rule closed_syscall) (use s4 o4 that quiet_steps(4) in \<open>auto simp: closed_def quiet_at_def\<close>)
  show ?thesis unfolding L using c1 c2 l s4 o4 cl by (auto simp: closed_def)
qed

end
