(* ===== verification/Startup.thy ===== *)
theory Startup
  imports Daemon Listen Podman
begin

text \<open>
  \<open>daemon\<close> of \<open>main.go\<close>: the flags, the boot, the folders, the supervisor over the store and podman, the socket, and
  what the end of serving is reported as. It puts the parts of the model together as the program does:
  \<open>disk_store\<close>, \<open>podman_engine\<close>, \<open>Hash\<close> and \<open>compose_loader\<close>. The wording of the errors of the flags is not
  modelled; \<open>time.ParseDuration\<close>, whose fractions are floating point, is a parameter.
\<close>

section \<open>Flags\<close>

record daemon_flags =
  dfSocket :: string
  dfStore :: string
  dfLogDir :: string
  dfLogMax :: string
  dfVolumes :: string
  dfPodman :: string
  dfResync :: duration
  dfStopTimeout :: duration
  dfVersion :: bool

definition default_flags :: daemon_flags where
  "default_flags = \<lparr>dfSocket = defaultSocket, dfStore = ''/var/lib/mica/containerd'', dfLogDir = ''/run/mica-containerd/logs'',
     dfLogMax = ''1mb'', dfVolumes = defaultVolumes, dfPodman = ''/usr/bin/podman'', dfResync = 60 * second,
     dfStopTimeout = 10 * second, dfVersion = False\<rparr>"

definition duration_flag :: "(string \<Rightarrow> duration option) \<Rightarrow> ((duration \<Rightarrow> duration) \<Rightarrow> 'r \<Rightarrow> 'r) \<Rightarrow> bool \<times> 'r setter" where
  "duration_flag dur upd = (False, \<lambda>v r. map_option (\<lambda>d. upd (\<lambda>_. d) r) (dur v))"

definition df_flags :: "(string \<Rightarrow> duration option) \<Rightarrow> daemon_flags flags" where
  "df_flags dur =
     [(''socket'', str_flag dfSocket_update), (''store'', str_flag dfStore_update), (''log-dir'', str_flag dfLogDir_update),
      (''log-max-size'', str_flag dfLogMax_update), (''volumes'', str_flag dfVolumes_update), (''podman'', str_flag dfPodman_update),
      (''resync'', duration_flag dur dfResync_update), (''stop-timeout'', duration_flag dur dfStopTimeout_update),
      (''version'', bool_flag dfVersion_update)]"

section \<open>The start\<close>

text \<open>
  What the daemon runs on: files to read, the parser of durations, compose-go and the file system it looks at, the
  commands it runs, the clock, and the words of its errors. \<open>mcWords\<close> gives the parameters of the API's answers.
\<close>

record 'w machine =
  mcRead :: "string \<Rightarrow> string + string"
  mcDuration :: "string \<Rightarrow> duration option"
  mcLib :: lib
  mcFs :: fs
  mcDigest :: "string \<Rightarrow> string"
  mcCommands :: "'w Podman.world"
  mcNow :: time
  mcVersion :: string
  mcStoreWords :: "store_failure \<Rightarrow> string"
  mcBadWords :: "string \<times> bad_file \<Rightarrow> string"
  mcWords :: "(disk, 'w) server"

text \<open>\<open>store.Open\<close>.\<close>

definition store_open :: "string \<Rightarrow> proc \<Rightarrow> string option \<times> proc" where
  "store_open dir p = mkdir_all (path_join [dir, ''projects'']) 0x1C0 p"

definition daemon_env :: "'w machine \<Rightarrow> daemon_flags \<Rightarrow> string \<Rightarrow> time \<Rightarrow> (disk, 'w) env" where
  "daemon_env M f boot_id boot_time =
     (let opts = default_options \<lparr>oBootID = boot_id, oBootTime = boot_time, oResync = dfResync f,
                   oStopTimeout = dfStopTimeout f, oVolumes = dfVolumes f\<rparr> in
      \<lparr>envStore = disk_store (mcStoreWords M) (mcBadWords M),
       envEngine = podman_engine \<lparr>pmBin = dfPodman f, pmLogDir = dfLogDir f, pmLogMaxSize = dfLogMax f\<rparr> (mcDigest M) (mcCommands M),
       envHash = Hash (mcDigest M), envOpts = opts, envLoad = compose_loader (mcLib M) (mcFs M) (oVolumes opts)\<rparr>)"

definition daemon_server :: "'w machine \<Rightarrow> daemon_flags \<Rightarrow> string \<Rightarrow> time \<Rightarrow> (disk, 'w) server" where
  "daemon_server M f boot_id boot_time = (mcWords M)\<lparr>srvEnv := daemon_env M f boot_id boot_time,
     srvInfo := \<lparr>infVersion = mcVersion M, infStore = dfStore f, infBootID = boot_id, infStarted = mcNow M\<rparr>\<rparr>"

text \<open>The daemon refuses to start, prints its version, or serves.\<close>

datatype 'w daemon_start = NotStarted string | Printed string | Serving "(disk, 'w) server" "(disk, 'w) sup"

definition sup_words :: "sup_error \<Rightarrow> string" where
  "sup_words e = (case e of EOther m \<Rightarrow> m | _ \<Rightarrow> [])"

text \<open>From the boot on, when the flags are read.\<close>

definition daemon_boot :: "'w machine \<Rightarrow> daemon_flags \<Rightarrow> disk \<Rightarrow> 'w \<Rightarrow> proc \<Rightarrow> 'w daemon_start \<times> proc" where
  "daemon_boot M f d w p =
     (case mcRead M ''/proc/sys/kernel/random/boot_id'' of Inl e \<Rightarrow> (NotStarted e, p) | Inr b \<Rightarrow>
      case readBootTime (mcRead M) ''/proc/stat'' of Inl e \<Rightarrow> (NotStarted e, p) | Inr boot_time \<Rightarrow>
      case mkdir_all (dfLogDir f) 0x1ED p of (Some e, p) \<Rightarrow> (NotStarted e, p) | (None, p) \<Rightarrow>
      case store_open (dfStore f) p of (Some e, p) \<Rightarrow> (NotStarted e, p) | (None, p) \<Rightarrow>
      case new (daemon_env M f (trim_space b) boot_time) d w [] of (Some e, s) \<Rightarrow> (NotStarted (sup_words e), p) | (None, s) \<Rightarrow>
      case Listen (dfSocket f) p of (Some e, p) \<Rightarrow> (NotStarted e, p) | (None, p) \<Rightarrow>
        (Serving (daemon_server M f (trim_space b) boot_time) s, p))"

definition daemon :: "'w machine \<Rightarrow> string list \<Rightarrow> disk \<Rightarrow> 'w \<Rightarrow> proc \<Rightarrow> 'w daemon_start \<times> proc" where
  "daemon M args d w p = (case parse_flags (df_flags (mcDuration M)) args default_flags of
     None \<Rightarrow> (NotStarted ''flags'', p)
   | Some (f, left) \<Rightarrow> if dfVersion f then (Printed (mcVersion M), p) else daemon_boot M f d w p)"

text \<open>What ends serving: a signal, the server or the supervisor. Only the errors of the last two, but for those of a shutdown, are reported.\<close>

datatype daemon_end = Signalled | ServerClosed | Cancelled | Broke string

fun daemon_error :: "daemon_end \<Rightarrow> string option" where
  "daemon_error (Broke e) = Some e"
| "daemon_error _ = None"

section \<open>What serves\<close>

lemma boot_cases:
  assumes "daemon_boot M f d w p = (r, p')"
  shows "(\<exists>e. r = NotStarted e \<and> p' = p)
    \<or> (\<exists>e. r = NotStarted e \<and> p' = snd (mkdir_all (dfLogDir f) 0x1ED p))
    \<or> (\<exists>e. r = NotStarted e \<and> p' = snd (store_open (dfStore f) (snd (mkdir_all (dfLogDir f) 0x1ED p))))
    \<or> (\<exists>e. Listen (dfSocket f) (snd (store_open (dfStore f) (snd (mkdir_all (dfLogDir f) 0x1ED p)))) = (e, p')
        \<and> (case e of Some x \<Rightarrow> r = NotStarted x | None \<Rightarrow>
            (\<exists>b t s. mcRead M ''/proc/sys/kernel/random/boot_id'' = Inr b \<and> readBootTime (mcRead M) ''/proc/stat'' = Inr t
               \<and> new (daemon_env M f (trim_space b) t) d w [] = (None, s) \<and> r = Serving (daemon_server M f (trim_space b) t) s)))"
  using assms unfolding daemon_boot_def
  by (auto split: sum.splits prod.splits option.splits)

definition served :: "string \<Rightarrow> mode \<Rightarrow> 'w daemon_start \<times> proc \<Rightarrow> bool" where
  "served path um rp \<longleftrightarrow> prMask (snd rp) = um \<and> list_all (owner_only path) (prSeen (snd rp))
     \<and> (case fst rp of Serving S s \<Rightarrow> map_of (prFiles (snd rp)) path = Some (Socket 0x180 True) \<and> reached S s
        | _ \<Rightarrow> quiet_at path (prFiles (snd rp)))"

lemma boot_serves:
  assumes "closed (dfSocket f) (prMask p) p" shows "served (dfSocket f) (prMask p) (daemon_boot M f d w p)"
proof -
  let ?p1 = "snd (mkdir_all (dfLogDir f) 0x1ED p)" and ?q = "dfSocket f"
  let ?p2 = "snd (store_open (dfStore f) ?p1)"
  have c: "closed ?q (prMask p) ?p1" "closed ?q (prMask p) ?p2"
    using assms by (simp_all add: closed_mkdir_all store_open_def)
  then have m: "prMask ?p2 = prMask p" by (simp add: closed_def)
  obtain r p' where b: "daemon_boot M f d w p = (r, p')" by fastforce
  have l: "prMask p' = prMask p \<and> list_all (owner_only ?q) (prSeen p')
      \<and> (if e = None then map_of (prFiles p') ?q = Some (Socket 0x180 True) else quiet_at ?q (prFiles p'))"
    if "Listen ?q ?p2 = (e, p')" for e
    using listen_private [of ?q ?p2] c(2) that m by simp
  from boot_cases [OF b] show ?thesis
  proof (elim disjE exE conjE)
    fix e
    assume e: "Listen ?q ?p2 = (e, p')" "case e of Some x \<Rightarrow> r = NotStarted x | None \<Rightarrow>
      (\<exists>b t s. mcRead M ''/proc/sys/kernel/random/boot_id'' = Inr b \<and> readBootTime (mcRead M) ''/proc/stat'' = Inr t
         \<and> new (daemon_env M f (trim_space b) t) d w [] = (None, s) \<and> r = Serving (daemon_server M f (trim_space b) t) s)"
    show ?thesis
    proof (cases e)
      case None
      then obtain b t s where n: "new (daemon_env M f (trim_space b) t) d w [] = (None, s)"
        "r = Serving (daemon_server M f (trim_space b) t) s" using e(2) by auto
      have "reached (daemon_server M f (trim_space b) t) s"
        by (rule reached.started [where d = d and en = w]) (use n(1) in \<open>simp add: daemon_server_def\<close>)
      then show ?thesis using l [OF e(1)] None b n(2) by (simp add: served_def)
    qed (use l [OF e(1)] b e(2) in \<open>simp add: served_def\<close>)
  qed (use c assms b in \<open>simp_all add: served_def closed_def\<close>)
qed

text \<open>
  C34: The daemon serves on a private socket or not at all. Whatever fails on the way, the flags, the boot files, a
  folder, the store, the supervisor or a call for the socket: at no moment does the daemon listen at its
  socket's path with more than the owner's 0600, not even between the creation and the change of the mode; the umask
  is what it was; and it serves a supervisor that started, over a socket that is open and 0600, or nobody
  listens there.
\<close>

theorem daemon_serves_privately:
  assumes "parse_flags (df_flags (mcDuration M)) args default_flags = Some (f, left)"
    and "quiet_at (dfSocket f) (prFiles p)" and "list_all (owner_only (dfSocket f)) (prSeen p)"
  shows "case daemon M args d w p of (r, p') \<Rightarrow>
    prMask p' = prMask p \<and> list_all (owner_only (dfSocket f)) (prSeen p')
    \<and> (case r of Serving S s \<Rightarrow> map_of (prFiles p') (dfSocket f) = Some (Socket 0x180 True) \<and> reached S s
       | _ \<Rightarrow> quiet_at (dfSocket f) (prFiles p'))"
proof -
  have "closed (dfSocket f) (prMask p) p" using assms by (simp add: closed_def)
  note b = this boot_serves [OF this, of M d w]
  have "served (dfSocket f) (prMask p) (daemon M args d w p)"
  proof (cases "dfVersion f")
    case True
    then show ?thesis using assms by (simp add: daemon_def served_def)
  next
    case False
    then show ?thesis using b(2) assms(1) by (simp add: daemon_def)
  qed
  then show ?thesis by (cases "daemon M args d w p") (auto simp: served_def split: daemon_start.splits)
qed

section \<open>A daemon that serves\<close>

definition rig_machine :: "unit machine" where
  "rig_machine = \<lparr>mcRead = (\<lambda>f. if f = ''/proc/stat'' then Inr (''cpu 1'' @ CHR 0x0A # ''btime 5'' @ [CHR 0x0A]) else Inr (''3f2a'' @ [CHR 0x0A])),
     mcDuration = (\<lambda>_. None), mcLib = one_lib, mcFs = link_fs, mcDigest = (\<lambda>t. t),
     mcCommands = \<lparr>wExec = (\<lambda>_ _ w. (undefined, w)), wMkdirAll = (\<lambda>_ w. (None, w)), wEvalSymlinks = (\<lambda>p w. Inr p)\<rparr>,
     mcNow = rig_boot, mcVersion = ''dev'', mcStoreWords = (\<lambda>_. ''error''), mcBadWords = (\<lambda>_. ''bad file''),
     mcWords = undefined\<rparr>"

definition rig_proc :: proc where
  "rig_proc = \<lparr>prMask = 0x12, prFiles = [], prFaults = [], prSeen = []\<rparr>"

definition rig_flags :: daemon_flags where
  "rig_flags = default_flags\<lparr>dfSocket := ''/r/s''\<rparr>"

lemma daemon_serves_privately_witness:
  "\<exists>S s p'. daemon rig_machine [''-socket'', ''/r/s''] empty_disk () rig_proc = (Serving S s, p')
     \<and> map_of (prFiles p') ''/r/s'' = Some (Socket 0x180 True) \<and> reached S s"
proof -
  have f: "parse_flags (df_flags (mcDuration rig_machine)) [''-socket'', ''/r/s''] default_flags = Some (rig_flags, [])"
    using parse_valued(1) [of "''socket''" "df_flags (mcDuration rig_machine)" "\<lambda>v r. Some (r\<lparr>dfSocket := v\<rparr>)" "''/r/s''" "[]" default_flags]
    by (simp add: df_flags_def flag_name_def str_flag_def rig_flags_def)
  have v: "dfVersion rig_flags = False" "dfSocket rig_flags = ''/r/s''" by (simp_all add: rig_flags_def default_flags_def)
  have r: "mcRead rig_machine ''/proc/sys/kernel/random/boot_id'' = Inr (''3f2a'' @ [CHR 0x0A])" by (simp add: rig_machine_def)
  have i: "trim_space (''3f2a'' @ [CHR 0x0A]) = ''3f2a''" by code_simp
  have t: "readBootTime (mcRead rig_machine) ''/proc/stat'' = Inr (unix 5)" unfolding rig_machine_def by code_simp
  let ?E = "daemon_env rig_machine rig_flags ''3f2a'' (unix 5)"
  have st: "store_load empty_disk = Inr ([], [])" "store_projects empty_disk = Inr []" "store_boot_id empty_disk = Inr []"
    "fst (store_set_boot_id ''3f2a'' empty_disk) = None" by code_simp+
  have "\<exists>s. new ?E empty_disk () [] = (None, s)"
    using st(4) by (cases "store_set_boot_id ''3f2a'' empty_disk")
      (simp add: new_def boot_def new_sup_def daemon_env_def disk_store_def st(1-3) default_options_def rig_machine_def Let_def)
  then obtain s where n: "new ?E empty_disk () [] = (None, s)" by blast
  have "fst (mkdir_all (dfLogDir rig_flags) 0x1ED rig_proc) = None"
    "fst (store_open (dfStore rig_flags) (snd (mkdir_all (dfLogDir rig_flags) 0x1ED rig_proc))) = None"
    "fst (Listen ''/r/s'' (snd (store_open (dfStore rig_flags) (snd (mkdir_all (dfLogDir rig_flags) 0x1ED rig_proc))))) = None"
    by code_simp+
  then obtain p1 p2 p3 where p: "mkdir_all (dfLogDir rig_flags) 0x1ED rig_proc = (None, p1)" "store_open (dfStore rig_flags) p1 = (None, p2)"
    "Listen ''/r/s'' p2 = (None, p3)" by (metis prod.collapse)
  have d: "daemon rig_machine [''-socket'', ''/r/s''] empty_disk () rig_proc = (Serving (daemon_server rig_machine rig_flags ''3f2a'' (unix 5)) s, p3)"
    unfolding daemon_def daemon_boot_def f r t by (simp add: v p n i [simplified])
  have "quiet_at (dfSocket rig_flags) (prFiles rig_proc)" "list_all (owner_only (dfSocket rig_flags)) (prSeen rig_proc)"
    by (simp_all add: rig_proc_def quiet_at_def v)
  from daemon_serves_privately [OF f this, of empty_disk "()"] d v(2) show ?thesis by auto
qed

end
