(* ===== verification/Serve.thy ===== *)
theory Serve
  imports Startup
begin

text \<open>
  The end of \<open>daemon\<close> in \<open>main.go\<close>: it serves until a signal, the server or the supervisor ends it, then gives the
  requests in flight five seconds and leaves. What ends it comes in any order, so it is a relation.
\<close>

datatype serve_stage = Serving_on | Closing time daemon_end | Left "string option"

text \<open>
  Where \<open>daemon\<close> is, the time, whether the context is done (by a signal or \<open>cancel\<close>), what \<open>Serve\<close> and \<open>Run\<close> returned that was
  not yet received, how many requests are in flight, and, as history, the errors \<open>Serve\<close> returned.
\<close>

record serving =
  sgStage :: serve_stage
  sgNow :: time
  sgDone :: bool
  sgServed :: "daemon_end option"
  sgSupervised :: "daemon_end option"
  sgActive :: nat
  sgBroke :: "string list"

definition serving0 :: "time \<Rightarrow> serving" where
  "serving0 now = \<lparr>sgStage = Serving_on, sgNow = now, sgDone = False, sgServed = None, sgSupervised = None, sgActive = 0, sgBroke = []\<rparr>"

text \<open>The select is over: \<open>cancel\<close>, and \<open>Shutdown\<close> with its deadline.\<close>

definition select_over :: "daemon_end \<Rightarrow> serving \<Rightarrow> serving" where
  "select_over e g = g\<lparr>sgStage := Closing (sgNow g + 5 * second) e, sgDone := True\<rparr>"

inductive serve_step :: "serving \<Rightarrow> serving \<Rightarrow> bool" where
  signal: "serve_step g (g\<lparr>sgDone := True\<rparr>)"
| breaks: "serve_step g (g\<lparr>sgServed := Some (Broke e), sgBroke := e # sgBroke g\<rparr>)"
| closed: "sgStage g = Closing d e \<Longrightarrow> serve_step g (g\<lparr>sgServed := Some ServerClosed\<rparr>)"
| run_ends: "sgDone g \<Longrightarrow> serve_step g (g\<lparr>sgSupervised := Some Cancelled\<rparr>)"
| on_done: "sgStage g = Serving_on \<Longrightarrow> sgDone g \<Longrightarrow> serve_step g (select_over Signalled g)"
| on_served: "sgStage g = Serving_on \<Longrightarrow> sgServed g = Some e \<Longrightarrow> serve_step g (select_over e (g\<lparr>sgServed := None\<rparr>))"
| on_supervised: "sgStage g = Serving_on \<Longrightarrow> sgSupervised g = Some e \<Longrightarrow> serve_step g (select_over e (g\<lparr>sgSupervised := None\<rparr>))"
| drained: "sgStage g = Closing d e \<Longrightarrow> sgActive g = 0 \<or> d \<le> sgNow g \<Longrightarrow> serve_step g (g\<lparr>sgStage := Left (daemon_error e)\<rparr>)"
| begins: "sgStage g = Serving_on \<Longrightarrow> serve_step g (g\<lparr>sgActive := sgActive g + 1\<rparr>)"
| ends: "serve_step g (g\<lparr>sgActive := sgActive g - 1\<rparr>)"
| time: "sgNow g \<le> now \<Longrightarrow> serve_step g (g\<lparr>sgNow := now\<rparr>)"

inductive serves :: "serving \<Rightarrow> bool" where
  start: "serves (serving0 now)"
| step: "serves g \<Longrightarrow> serve_step g g' \<Longrightarrow> serves g'"

text \<open>
  It leaves with an error only when the server broke. Once the select is over the context is done, so \<open>Run\<close>
  returns after the pass it is in, and five seconds later at the latest it may leave.
\<close>

definition blamed :: "serving \<Rightarrow> daemon_end option \<Rightarrow> bool" where
  "blamed g x \<longleftrightarrow> (case x of Some (Broke e) \<Rightarrow> List.member (sgBroke g) e | _ \<Rightarrow> True)"

definition serving_ok :: "serving \<Rightarrow> bool" where
  "serving_ok g \<longleftrightarrow> (case sgStage g of Serving_on \<Rightarrow> True
     | Closing d e \<Rightarrow> sgDone g \<and> d \<le> sgNow g + 5 * second \<and> blamed g (Some e)
     | Left e \<Rightarrow> sgDone g \<and> blamed g (map_option Broke e))
   \<and> blamed g (sgServed g) \<and> (sgSupervised g = None \<or> sgSupervised g = Some Cancelled)"

lemma serve_ok_step: "serve_step g g' \<Longrightarrow> serving_ok g \<Longrightarrow> serving_ok g'"
  by (induction rule: serve_step.induct) (auto simp: serving_ok_def blamed_def select_over_def split: serve_stage.splits option.splits daemon_end.splits)

lemma serves_ok: "serves g \<Longrightarrow> serving_ok g"
  by (induction rule: serves.induct) (auto simp: serve_ok_step, simp add: serving_ok_def serving0_def blamed_def)

theorem leaves_in_time:
  assumes "serves g" and "sgStage g = Closing d e"
  shows "sgDone g \<and> d \<le> sgNow g + 5 * second
    \<and> serve_step (g\<lparr>sgNow := max d (sgNow g)\<rparr>) (g\<lparr>sgNow := max d (sgNow g), sgStage := Left (daemon_error e)\<rparr>)"
proof -
  have "serve_step (g\<lparr>sgNow := max d (sgNow g)\<rparr>) ((g\<lparr>sgNow := max d (sgNow g)\<rparr>)\<lparr>sgStage := Left (daemon_error e)\<rparr>)"
    by (rule serve_step.drained [where d = d]) (simp_all add: assms(2))
  then show ?thesis using serves_ok [OF assms(1)] assms(2) by (simp add: serving_ok_def)
qed

theorem leaves_blaming_the_server:
  "serves g \<Longrightarrow> sgStage g = Left (Some e) \<Longrightarrow> e \<in> set (sgBroke g)"
  using serves_ok [of g] by (simp add: serving_ok_def blamed_def)

end
