(* ===== verification/Streams.thy ===== *)
theory Streams
  imports Podman "HOL-Library.Sublist"
begin

text \<open>
  The streams of \<open>engine/podman.go\<close>: \<open>Events\<close>, whose goroutine reads \<open>podman events\<close> line by line and sends on
  what is an event, and \<open>Logs\<close>, which copies \<open>podman logs\<close> to its reader. Both run beside podman, which writes
  into a pipe of the operating system, and beside who receives: the three take turns in any order, so what
  happens is a relation between states. What was written, sent and read is kept as history.
\<close>

section \<open>Lines\<close>

text \<open>
  \<open>bufio.ScanLines\<close>: the first line of the buffer and what follows it, or at the end of the file what is left;
  \<open>dropCR\<close>. The lines of a whole output, as they are before \<open>dropCR\<close>.
\<close>

definition newline :: char where "newline = CHR 0x0A"

definition max_token :: nat where "max_token = 1024 * 1024"

definition ScanLines :: "bool \<Rightarrow> string \<Rightarrow> (string \<times> string) option" where
  "ScanLines eof b = (if List.member b newline then Some (takeWhile (\<lambda>c. c \<noteq> newline) b, tl (dropWhile (\<lambda>c. c \<noteq> newline) b))
     else if eof \<and> b \<noteq> [] then Some (b, []) else None)"

definition drop_cr :: "string \<Rightarrow> string" where
  "drop_cr l = (if l \<noteq> [] \<and> last l = CHR 0x0D then butlast l else l)"

fun lines_from :: "string \<Rightarrow> string \<Rightarrow> string list" where
  "lines_from l [] = (if l = [] then [] else [l])"
| "lines_from l (c # cs) = (if c = newline then l # lines_from [] cs else lines_from (l @ [c]) cs)"

abbreviation lines :: "string \<Rightarrow> string list" where "lines \<equiv> lines_from []"

abbreviation unlines :: "string list \<Rightarrow> string" where "unlines ls \<equiv> concat (map (\<lambda>l. l @ [newline]) ls)"

lemma long_not_empty: "max_token \<le> length b \<Longrightarrow> b \<noteq> []"
  by (cases b) (simp_all add: max_token_def)

lemma lines_from_line: "newline \<notin> set r \<Longrightarrow> lines_from l (r @ newline # s) = (l @ r) # lines s"
  by (induction r arbitrary: l) auto

lemma lines_from_last: "newline \<notin> set r \<Longrightarrow> lines_from l r = (if l @ r = [] then [] else [l @ r])"
  by (induction r arbitrary: l) auto

lemma lines_unlines: "\<forall>r \<in> set rs. newline \<notin> set r \<Longrightarrow> lines (unlines rs @ s) = rs @ lines s"
  by (induction rs) (auto simp: lines_from_line)

lemma lines_long: "newline \<notin> set b \<Longrightarrow> b \<noteq> [] \<Longrightarrow> \<exists>l ls. lines (b @ s) = (b @ l) # ls"
proof (cases "newline \<in> set s")
  case True
  assume b: "newline \<notin> set b"
  from True obtain u v where "s = u @ newline # v" "newline \<notin> set u" by (meson split_list_first)
  then have "lines (b @ s) = (b @ u) # lines v" using lines_from_line [of "b @ u" "[]" v] b by simp
  then show ?thesis by blast
next
  case False
  assume "newline \<notin> set b" "b \<noteq> []"
  then show ?thesis using False lines_from_last [of "b @ s" "[]"] by simp
qed

lemma ScanLines_first: "newline \<notin> set l \<Longrightarrow> ScanLines eof (l @ newline # s) = Some (l, s)"
  by (auto simp: ScanLines_def takeWhile_tail dropWhile_append)

lemma ScanLines_line:
  assumes "ScanLines False b = Some (r, s)"
  shows "b = r @ newline # s \<and> newline \<notin> set r"
proof -
  from assms have "newline \<in> set b" by (auto simp: ScanLines_def split: if_splits)
  then obtain u v where b: "b = u @ newline # v" "newline \<notin> set u" by (meson split_list_first)
  then show ?thesis using assms ScanLines_first by auto
qed

lemma ScanLines_none: "ScanLines False b = None \<longleftrightarrow> newline \<notin> set b"
  by (simp add: ScanLines_def)

lemma ScanLines_last: "ScanLines False b = None \<Longrightarrow> ScanLines True b = (if b = [] then None else Some (b, []))"
  by (auto simp: ScanLines_def split: if_splits)

text \<open>
  What is read of whole lines: the lines up to the first that does not fit the scanner's buffer of a mebibyte,
  and of those the events. The errors are what is sent when the command ended, unless the context had.
\<close>

definition events_args :: "string list" where
  "events_args = [''events'', ''--format'', ''json'', ''--filter'', ''type=container'', ''--filter'', ''label='' @ LabelManaged @ ''=1'']"

definition scanned :: "string list \<Rightarrow> string list" where
  "scanned ls = takeWhile (\<lambda>l. length l < max_token) ls"

definition line_events :: "string \<Rightarrow> event list" where
  "line_events l = (case ParseEvent (drop_cr l) of Inr (Some e) \<Rightarrow> [e] | _ \<Rightarrow> [])"

definition wait_text :: "string option \<Rightarrow> string" where
  "wait_text r = (case r of None \<Rightarrow> ''<nil>'' | Some t \<Rightarrow> t)"

definition read_events :: "string list \<Rightarrow> bool \<Rightarrow> string option \<Rightarrow> event list \<times> string list" where
  "read_events ls cancelled r =
     (concat (map line_events (scanned ls)), if cancelled then [] else [''podman events ended: '' @ wait_text r])"

section \<open>Podman beside the daemon\<close>

text \<open>
  A command that was started: what it wrote so far, what of that is still in the pipe, what it is writing now
  and, when it ended, the error of \<open>Wait\<close> or none. A write blocks while the pipe, of \<open>cap\<close> bytes, is full. The
  command ends by itself when it is not writing; it is killed when its context is done (\<open>exec.CommandContext\<close>),
  by \<open>SIGPIPE\<close> when it writes and nobody may read any more, and, where \<open>k\<close> allows it, by anybody else. That
  nothing else holds its end of the pipe open is assumed.
\<close>

record child =
  cdWritten :: string
  cdPipe :: string
  cdPending :: string
  cdEnded :: "string option option"

definition started_child :: child where
  "started_child = \<lparr>cdWritten = [], cdPipe = [], cdPending = [], cdEnded = None\<rparr>"

inductive child_step :: "bool \<Rightarrow> nat \<Rightarrow> bool \<Rightarrow> bool \<Rightarrow> child \<Rightarrow> child \<Rightarrow> bool" for k cap cancelled shut where
  writing: "cdEnded c = None \<Longrightarrow> cdPending c = [] \<Longrightarrow> child_step k cap cancelled shut c (c\<lparr>cdPending := xs\<rparr>)"
| wrote: "cdEnded c = None \<Longrightarrow> 0 < n \<Longrightarrow> n \<le> length (cdPending c) \<Longrightarrow> length (cdPipe c) + n \<le> cap \<Longrightarrow> \<not> shut \<Longrightarrow>
    child_step k cap cancelled shut c (c\<lparr>cdWritten := cdWritten c @ take n (cdPending c), cdPipe := cdPipe c @ take n (cdPending c),
      cdPending := drop n (cdPending c)\<rparr>)"
| exits: "cdEnded c = None \<Longrightarrow> cdPending c = [] \<Longrightarrow> child_step k cap cancelled shut c (c\<lparr>cdEnded := Some r\<rparr>)"
| dies: "cdEnded c = None \<Longrightarrow> cancelled \<or> k \<or> shut \<and> cdPending c \<noteq> [] \<Longrightarrow>
    child_step k cap cancelled shut c (c\<lparr>cdEnded := Some (Some t)\<rparr>)"

lemma child_grows:
  "child_step k cap cancelled shut c c' \<Longrightarrow> cdEnded c = None \<and> (\<exists>xs. cdWritten c' = cdWritten c @ xs \<and> cdPipe c' = cdPipe c @ xs)"
  by (induction rule: child_step.induct) auto

section \<open>Events\<close>

text \<open>
  Where the goroutine of \<open>Events\<close> is: before the command started, in \<open>Scan\<close>, in the \<open>select\<close> with an event, in
  \<open>Wait\<close>, before \<open>errs\<close> is closed, before \<open>events\<close> is closed, and at its end.
\<close>

datatype feed_stage = Starting | Scanning | Sending event | Waiting | ClosingErrs | ClosingEvents | FeedOver

record feed =
  fdAt :: feed_stage
  fdDone :: bool
  fdChild :: "child option"
  fdBuf :: string
  fdErrs :: "string list"
  fdLines :: "string list"
  fdSent :: "event list"
  fdRaised :: "string list"

definition feed0 :: "bool \<Rightarrow> feed" where
  "feed0 cancelled = \<lparr>fdAt = Starting, fdDone = cancelled, fdChild = None, fdBuf = [], fdErrs = [], fdLines = [], fdSent = [], fdRaised = []\<rparr>"

text \<open>One line was scanned; an error is put into the channel, which has room for one.\<close>

definition got_line :: "string \<Rightarrow> string \<Rightarrow> feed \<Rightarrow> feed" where
  "got_line l b f = f\<lparr>fdBuf := b, fdLines := fdLines f @ [l],
     fdAt := (case ParseEvent (drop_cr l) of Inr (Some e) \<Rightarrow> Sending e | _ \<Rightarrow> Scanning)\<rparr>"

definition raise :: "string \<Rightarrow> feed \<Rightarrow> feed" where
  "raise e f = f\<lparr>fdErrs := fdErrs f @ [e], fdRaised := fdRaised f @ [e]\<rparr>"

definition errs_room :: "feed \<Rightarrow> bool" where "errs_room f \<longleftrightarrow> fdErrs f = []"

definition waited :: "string option \<Rightarrow> feed \<Rightarrow> feed" where
  "waited r f = (if fdDone f then f else raise (''podman events ended: '' @ wait_text r) f)\<lparr>fdAt := ClosingErrs\<rparr>"

text \<open>
  The steps of the goroutine (the first ten), of podman, of who receives and of the context. \<open>StdoutPipe\<close> and
  \<open>Start\<close> may fail, and \<open>Start\<close> does when the context is done.
\<close>

inductive feed_step :: "bool \<Rightarrow> nat \<Rightarrow> feed \<Rightarrow> feed \<Rightarrow> bool" for k cap where
  no_pipe: "fdAt f = Starting \<Longrightarrow> errs_room f \<Longrightarrow> feed_step k cap f ((raise e f)\<lparr>fdAt := ClosingErrs\<rparr>)"
| no_start: "fdAt f = Starting \<Longrightarrow> errs_room f \<Longrightarrow> feed_step k cap f ((raise (''podman events: '' @ e) f)\<lparr>fdAt := ClosingErrs\<rparr>)"
| starts: "fdAt f = Starting \<Longrightarrow> \<not> fdDone f \<Longrightarrow> feed_step k cap f (f\<lparr>fdChild := Some started_child, fdAt := Scanning\<rparr>)"
| token: "fdAt f = Scanning \<Longrightarrow> ScanLines False (fdBuf f) = Some (l, b) \<Longrightarrow> feed_step k cap f (got_line l b f)"
| reads: "fdAt f = Scanning \<Longrightarrow> fdChild f = Some c \<Longrightarrow> ScanLines False (fdBuf f) = None \<Longrightarrow> 0 < n \<Longrightarrow> n \<le> length (cdPipe c) \<Longrightarrow>
    length (fdBuf f) + n \<le> max_token \<Longrightarrow>
    feed_step k cap f (f\<lparr>fdBuf := fdBuf f @ take n (cdPipe c), fdChild := Some (c\<lparr>cdPipe := drop n (cdPipe c)\<rparr>)\<rparr>)"
| at_eof: "fdAt f = Scanning \<Longrightarrow> fdChild f = Some c \<Longrightarrow> ScanLines False (fdBuf f) = None \<Longrightarrow> length (fdBuf f) < max_token \<Longrightarrow>
    cdPipe c = [] \<Longrightarrow> cdEnded c \<noteq> None \<Longrightarrow>
    feed_step k cap f (case ScanLines True (fdBuf f) of None \<Rightarrow> f\<lparr>fdAt := Waiting\<rparr> | Some (l, b) \<Rightarrow> got_line l b f)"
| too_long: "fdAt f = Scanning \<Longrightarrow> ScanLines False (fdBuf f) = None \<Longrightarrow> max_token \<le> length (fdBuf f) \<Longrightarrow>
    feed_step k cap f (f\<lparr>fdAt := Waiting\<rparr>)"
| sends: "fdAt f = Sending e \<Longrightarrow> feed_step k cap f (f\<lparr>fdAt := Scanning, fdSent := fdSent f @ [e]\<rparr>)"
| drops: "fdAt f = Sending e \<Longrightarrow> fdDone f \<Longrightarrow> feed_step k cap f (f\<lparr>fdAt := Scanning\<rparr>)"
| waits: "fdAt f = Waiting \<Longrightarrow> fdChild f = Some c \<Longrightarrow> cdEnded c = Some r \<Longrightarrow> errs_room f \<Longrightarrow> feed_step k cap f (waited r f)"
| closes_errs: "fdAt f = ClosingErrs \<Longrightarrow> feed_step k cap f (f\<lparr>fdAt := ClosingEvents\<rparr>)"
| closes_events: "fdAt f = ClosingEvents \<Longrightarrow> feed_step k cap f (f\<lparr>fdAt := FeedOver\<rparr>)"
| podman: "fdChild f = Some c \<Longrightarrow> child_step k cap (fdDone f) False c c' \<Longrightarrow> feed_step k cap f (f\<lparr>fdChild := Some c'\<rparr>)"
| takes: "fdErrs f = e # es \<Longrightarrow> feed_step k cap f (f\<lparr>fdErrs := es\<rparr>)"
| cancels: "feed_step k cap f (f\<lparr>fdDone := True\<rparr>)"

inductive feeds :: "bool \<Rightarrow> nat \<Rightarrow> feed \<Rightarrow> bool" for k cap where
  start: "feeds k cap (feed0 cancelled)"
| step: "feeds k cap f \<Longrightarrow> feed_step k cap f f' \<Longrightarrow> feeds k cap f'"

text \<open>
  Of what podman wrote, the lines scanned come first, then what is in the buffer, then what is in the pipe; the
  last line may have ended with the command instead of a newline.
\<close>

definition whole :: "string \<Rightarrow> string list \<Rightarrow> string \<Rightarrow> bool \<Rightarrow> bool" where
  "whole w ls rest ended \<longleftrightarrow> list_all (\<lambda>l. newline \<notin> set l \<and> length l < max_token) ls
     \<and> (w = unlines ls @ rest \<or> ended \<and> rest = [] \<and> ls \<noteq> [] \<and> last ls \<noteq> [] \<and> w = unlines (butlast ls) @ last ls)"

lemma whole_lines: "whole w ls rest ended \<Longrightarrow> lines w = ls @ lines rest"
proof -
  assume w: "whole w ls rest ended"
  then have n: "\<forall>l \<in> set ls. newline \<notin> set l" by (simp add: whole_def list_all_iff)
  from w consider "w = unlines ls @ rest" | "rest = []" "ls \<noteq> []" "last ls \<noteq> []" "w = unlines (butlast ls) @ last ls"
    by (auto simp: whole_def)
  then show ?thesis
  proof cases
    case 2
    have "lines w = butlast ls @ lines (last ls)" using lines_unlines [of "butlast ls" "last ls"] n 2(4) by (simp add: in_set_butlastD)
    moreover have "lines (last ls) = [last ls]" using lines_from_last [of "last ls" "[]"] n 2 by simp
    ultimately show ?thesis using 2(1,2) by simp
  qed (simp add: lines_unlines n)
qed

lemma whole_scanned: "whole w ls rest ended \<Longrightarrow> scanned (lines w) = ls @ scanned (lines rest)"
proof -
  assume w: "whole w ls rest ended"
  then have "\<forall>l \<in> set ls. length l < max_token" by (simp add: whole_def list_all_iff)
  then show ?thesis by (simp add: whole_lines [OF w] scanned_def)
qed

text \<open>What holds of the goroutine wherever it is.\<close>

definition in_hand :: "feed \<Rightarrow> event list" where
  "in_hand f = (case fdAt f of Sending e \<Rightarrow> [e] | _ \<Rightarrow> [])"

definition scan_over :: "feed \<Rightarrow> child \<Rightarrow> bool" where
  "scan_over f c \<longleftrightarrow> fdBuf f = [] \<and> cdPipe c = [] \<and> cdEnded c \<noteq> None \<or> newline \<notin> set (fdBuf f) \<and> max_token \<le> length (fdBuf f)"

definition feed_reads :: "feed \<Rightarrow> bool" where
  "feed_reads f \<longleftrightarrow> length (fdBuf f) \<le> max_token \<and> (case fdChild f of
     None \<Rightarrow> fdLines f = [] \<and> fdBuf f = []
   | Some c \<Rightarrow> whole (cdWritten c) (fdLines f) (fdBuf f @ cdPipe c) (cdEnded c \<noteq> None)
       \<and> (fdAt f \<in> {Waiting, ClosingErrs, ClosingEvents, FeedOver} \<longrightarrow> scan_over f c))"

definition feed_sends :: "feed \<Rightarrow> bool" where
  "feed_sends f \<longleftrightarrow> subseq (fdSent f @ in_hand f) (concat (map line_events (fdLines f)))
     \<and> (\<not> fdDone f \<longrightarrow> fdSent f @ in_hand f = concat (map line_events (fdLines f)))"

definition feed_tells :: "feed \<Rightarrow> bool" where
  "feed_tells f \<longleftrightarrow> (if fdAt f \<in> {ClosingErrs, ClosingEvents, FeedOver}
     then (fdErrs f = [] \<or> fdErrs f = fdRaised f) \<and> (case fdChild f of None \<Rightarrow> length (fdRaised f) = 1
       | Some c \<Rightarrow> \<exists>r. cdEnded c = Some r \<and> (fdRaised f = [''podman events ended: '' @ wait_text r] \<or> fdDone f \<and> fdRaised f = []))
     else fdErrs f = [] \<and> fdRaised f = [] \<and> (fdChild f = None \<longleftrightarrow> fdAt f = Starting))"

lemma whole_line:
  "whole w ls (l @ newline # s) ended \<Longrightarrow> newline \<notin> set l \<Longrightarrow> length l < max_token \<Longrightarrow> whole w (ls @ [l]) s ended"
  by (simp add: whole_def)

lemma whole_last:
  "whole w ls b ended \<Longrightarrow> b \<noteq> [] \<Longrightarrow> newline \<notin> set b \<Longrightarrow> length b < max_token \<Longrightarrow> whole w (ls @ [b]) [] True"
  by (simp add: whole_def)

lemma whole_grows: "whole w ls b False \<Longrightarrow> whole (w @ xs) ls (b @ xs) ended"
  by (simp add: whole_def)

lemma got_line_at: "fdAt (got_line l b f) \<in> {Scanning} \<union> range Sending"
  by (auto simp: got_line_def split: sum.split option.split)

lemma got_line_in_hand: "in_hand (got_line l b f) = line_events l"
  by (auto simp: got_line_def in_hand_def line_events_def split: sum.split option.split)

lemma got_line_same [simp]:
  "fdDone (got_line l b f) = fdDone f" "fdChild (got_line l b f) = fdChild f" "fdBuf (got_line l b f) = b"
  "fdErrs (got_line l b f) = fdErrs f" "fdLines (got_line l b f) = fdLines f @ [l]" "fdSent (got_line l b f) = fdSent f"
  "fdRaised (got_line l b f) = fdRaised f"
  by (simp_all add: got_line_def)

lemma raise_same [simp]:
  "fdDone (raise e f) = fdDone f" "fdChild (raise e f) = fdChild f" "fdBuf (raise e f) = fdBuf f" "fdAt (raise e f) = fdAt f"
  "fdErrs (raise e f) = fdErrs f @ [e]" "fdLines (raise e f) = fdLines f" "fdSent (raise e f) = fdSent f"
  "fdRaised (raise e f) = fdRaised f @ [e]"
  by (simp_all add: raise_def)

lemma waited_same [simp]:
  "fdDone (waited r f) = fdDone f" "fdChild (waited r f) = fdChild f" "fdBuf (waited r f) = fdBuf f" "fdAt (waited r f) = ClosingErrs"
  "fdLines (waited r f) = fdLines f" "fdSent (waited r f) = fdSent f"
  by (simp_all add: waited_def)

lemma subseq_appendD1: "subseq (xs @ ys) zs \<Longrightarrow> subseq xs zs"
  by (rule subseq_order.trans [of _ "xs @ ys"]) (simp_all add: prefix_imp_subseq)

lemma got_line_sends: "feed_sends f \<Longrightarrow> fdAt f = Scanning \<Longrightarrow> feed_sends (got_line l b f)"
  by (simp add: feed_sends_def got_line_in_hand) (simp add: in_hand_def subseq_append')

lemma feed_sends_step: "feed_step k cap f f' \<Longrightarrow> feed_sends f \<Longrightarrow> feed_sends f'"
proof (induction rule: feed_step.induct)
  case (at_eof f c)
  then show ?case by (auto simp: got_line_sends ScanLines_last) (simp add: feed_sends_def in_hand_def)
next
  case (drops f e)
  then show ?case by (auto simp: feed_sends_def in_hand_def dest: subseq_appendD1)
qed (simp_all add: got_line_sends, simp_all add: feed_sends_def in_hand_def)

lemma feed_tells_step: "feed_step k cap f f' \<Longrightarrow> feed_tells f \<Longrightarrow> feed_tells f'"
proof (induction rule: feed_step.induct)
  case (token f l b)
  then show ?case using got_line_at [of l b f] by (auto simp: feed_tells_def)
next
  case (at_eof f c)
  then show ?case using got_line_at [of "fdBuf f" "[]" f] by (auto simp: ScanLines_last feed_tells_def)
next
  case (podman f c c')
  then show ?case by (auto simp: feed_tells_def dest: child_grows)
next
  case (waits f c r)
  then show ?case by (simp add: feed_tells_def waited_def)
next
  case (takes f e es)
  then have "length (fdRaised f) = 1 \<or> fdRaised f = []" by (auto simp: feed_tells_def split: if_splits option.splits)
  then have "es = []" using takes by (auto simp: feed_tells_def length_Suc_conv split: if_splits)
  then show ?case using takes by (auto simp: feed_tells_def split: if_splits option.splits)
qed (auto simp: feed_tells_def errs_room_def split: if_splits option.splits)

lemma feed_reads_step: "feed_step k cap f f' \<Longrightarrow> feed_reads f \<Longrightarrow> feed_tells f \<Longrightarrow> feed_reads f'"
proof (induction rule: feed_step.induct)
  case (token f l b)
  have l: "fdBuf f = l @ newline # b" "newline \<notin> set l" using ScanLines_line [OF token(2)] by simp_all
  then have n: "length l < max_token" using token(3) by (simp add: feed_reads_def)
  obtain c where c: "fdChild f = Some c" using token(1,4) by (auto simp: feed_tells_def)
  have "whole (cdWritten c) (fdLines f @ [l]) (b @ cdPipe c) (cdEnded c \<noteq> None)"
    by (rule whole_line [OF _ l(2) n]) (use token(3) c l(1) in \<open>simp add: feed_reads_def\<close>)
  then show ?case using token(3) c l(1) got_line_at [of l b f] by (auto simp: feed_reads_def)
next
  case (reads f c n)
  then show ?case by (simp add: feed_reads_def)
next
  case (at_eof f c)
  show ?case
  proof (cases "fdBuf f = []")
    case True
    then have "ScanLines True (fdBuf f) = None" by (simp add: ScanLines_def)
    then show ?thesis using at_eof(2,5-7) True by (simp add: feed_reads_def scan_over_def)
  next
    case False
    have "whole (cdWritten c) (fdLines f @ [fdBuf f]) [] True"
      by (rule whole_last) (use at_eof False in \<open>simp_all add: feed_reads_def ScanLines_none\<close>)
    then show ?thesis using at_eof(2,5,6) False got_line_at [of "fdBuf f" "[]" f]
      by (auto simp: ScanLines_last [OF at_eof(3)] feed_reads_def)
  qed
next
  case (too_long f)
  then show ?case by (auto simp: feed_reads_def scan_over_def ScanLines_none split: option.splits)
next
  case (podman f c c')
  obtain xs where x: "cdEnded c = None" "cdWritten c' = cdWritten c @ xs" "cdPipe c' = cdPipe c @ xs"
    using child_grows [OF podman(2)] by blast
  have "whole (cdWritten c @ xs) (fdLines f) ((fdBuf f @ cdPipe c) @ xs) (cdEnded c' \<noteq> None)"
    by (rule whole_grows) (use podman(1,3) x(1) in \<open>simp add: feed_reads_def\<close>)
  then show ?case using podman(1,3) x by (simp add: feed_reads_def scan_over_def)
qed (auto simp: feed_reads_def feed_tells_def scan_over_def started_child_def whole_def split: option.splits)

definition feed_ok :: "feed \<Rightarrow> bool" where
  "feed_ok f \<longleftrightarrow> feed_reads f \<and> feed_sends f \<and> feed_tells f"

lemma feeds_ok: "feeds k cap f \<Longrightarrow> feed_ok f"
proof (induction rule: feeds.induct)
  case (start cancelled)
  show ?case by (simp add: feed_ok_def feed_reads_def feed_sends_def feed_tells_def feed0_def in_hand_def)
next
  case (step f f')
  then show ?case by (simp add: feed_ok_def feed_reads_step feed_sends_step feed_tells_step)
qed

text \<open>
  C36: The event stream delivers in order, loses nothing and says when it is over. At any moment what was
  received is, while the context lives, in order and without a gap the events of the first lines podman wrote,
  and room is left in the channel for the error that is to come; once the goroutine is over and the context
  lives, podman has ended or was not started, what was received and what was said are exactly what reading the
  whole output gives, up to a line of a mebibyte, and there is one error, which has \<open>Run\<close> start the stream again.
\<close>

theorem stream_delivers:
  assumes "feeds k cap f" and "\<not> fdDone f"
  shows "case fdChild f of
      None \<Rightarrow> fdSent f = [] \<and> length (fdRaised f) = (if fdAt f = Starting then 0 else 1)
    | Some c \<Rightarrow> prefix (fdSent f) (fst (read_events (lines (cdWritten c)) False None))
        \<and> (fdAt f = Waiting \<longrightarrow> errs_room f)
        \<and> (fdAt f = FeedOver \<longrightarrow> (\<exists>r. cdEnded c = Some r
            \<and> (fdSent f, fdRaised f) = read_events (lines (cdWritten c)) False r \<and> length (fdRaised f) = 1))"
proof -
  have ok: "feed_reads f" "feed_sends f" "feed_tells f" using feeds_ok [OF assms(1)] by (simp_all add: feed_ok_def)
  have sent: "fdSent f @ in_hand f = concat (map line_events (fdLines f))" using ok(2) assms(2) by (simp add: feed_sends_def)
  show ?thesis
  proof (cases "fdChild f")
    case None
    then show ?thesis using ok sent by (auto simp: feed_reads_def feed_tells_def split: if_splits)
  next
    case (Some c)
    have w: "whole (cdWritten c) (fdLines f) (fdBuf f @ cdPipe c) (cdEnded c \<noteq> None)" using ok(1) Some by (simp add: feed_reads_def)
    have p: "prefix (fdSent f) (fst (read_events (lines (cdWritten c)) False None))"
      by (simp add: read_events_def whole_scanned [OF w] sent [symmetric])
    have e: "\<exists>r. cdEnded c = Some r \<and> (fdSent f, fdRaised f) = read_events (lines (cdWritten c)) False r \<and> length (fdRaised f) = 1"
      if a: "fdAt f = FeedOver"
    proof -
      have "scan_over f c" using ok(1) Some a by (simp add: feed_reads_def)
      then consider "fdBuf f @ cdPipe c = []" | "newline \<notin> set (fdBuf f)" "max_token \<le> length (fdBuf f)" "fdBuf f \<noteq> []"
        using long_not_empty by (auto simp: scan_over_def)
      then have "scanned (lines (fdBuf f @ cdPipe c)) = []"
      proof cases
        case 2
        then obtain l ls where "lines (fdBuf f @ cdPipe c) = (fdBuf f @ l) # ls" using lines_long by blast
        then show ?thesis using 2(2) by (simp add: scanned_def)
      qed (simp add: scanned_def)
      then show ?thesis using ok(3) sent Some a assms(2)
        by (auto simp: feed_tells_def read_events_def whole_scanned [OF w] in_hand_def)
    qed
    show ?thesis using Some p e ok(3) by (simp add: feed_tells_def errs_room_def)
  qed
qed

text \<open>Podman reports one event and ends.\<close>

definition event_line :: string where
  "event_line = ''{\"Name\":\"a\",\"Status\":\"died\",\"Type\":\"container\",\"timeNano\":1}''"

definition one_event :: feed where
  "one_event = \<lparr>fdAt = FeedOver, fdDone = False,
     fdChild = Some \<lparr>cdWritten = event_line @ [newline], cdPipe = [], cdPending = [], cdEnded = Some None\<rparr>, fdBuf = [],
     fdErrs = [''podman events ended: <nil>''], fdLines = [event_line], fdSent = line_events event_line,
     fdRaised = [''podman events ended: <nil>'']\<rparr>"

lemma one_event_read: "line_events event_line = [\<lparr>eName = ''a'', eStatus = ''died'', eExitCode = None, eTime = unix 0 + 1\<rparr>]"
  by code_simp

lemma one_event_reached: "feeds False 65536 one_event"
proof -
  let ?s = "\<lambda>w p q r at b ls es. \<lparr>fdAt = at, fdDone = False,
     fdChild = Some \<lparr>cdWritten = w, cdPipe = p, cdPending = q, cdEnded = r\<rparr>, fdBuf = b, fdErrs = [], fdLines = ls, fdSent = es, fdRaised = []\<rparr>"
  let ?l = "event_line @ [newline]"
  have len: "length ?l = 61" by (simp add: event_line_def)
  have nl: "newline \<notin> set event_line" by code_simp
  obtain e where e: "line_events event_line = [e]" using one_event_read by blast
  have "feeds False 65536 (?s [] [] [] None Scanning [] [] [])"
    using feeds.step [OF feeds.start feed_step.starts, of False False 65536] by (simp add: feed0_def started_child_def)
  then have "feeds False 65536 (?s [] [] ?l None Scanning [] [] [])"
    by (rule feeds.step) (use feed_step.podman [OF _ child_step.writing, of "?s [] [] [] None Scanning [] [] []" started_child False 65536 ?l] in \<open>simp add: started_child_def\<close>)
  then have "feeds False 65536 (?s ?l ?l [] None Scanning [] [] [])"
    by (rule feeds.step) (use feed_step.podman [OF _ child_step.wrote, of "?s [] [] ?l None Scanning [] [] []" "started_child\<lparr>cdPending := ?l\<rparr>" "length ?l" 65536 False] len
      in \<open>simp add: started_child_def\<close>)
  then have "feeds False 65536 (?s ?l ?l [] (Some None) Scanning [] [] [])"
    by (rule feeds.step) (use feed_step.podman [OF _ child_step.exits, of "?s ?l ?l [] None Scanning [] [] []" "\<lparr>cdWritten = ?l, cdPipe = ?l, cdPending = [], cdEnded = None\<rparr>" False 65536 None]
      in simp)
  then have "feeds False 65536 (?s ?l [] [] (Some None) Scanning ?l [] [])"
    by (rule feeds.step) (use feed_step.reads [of "?s ?l ?l [] (Some None) Scanning [] [] []" "\<lparr>cdWritten = ?l, cdPipe = ?l, cdPending = [], cdEnded = Some None\<rparr>" "length ?l" False 65536] len
      in \<open>simp add: ScanLines_none max_token_def\<close>)
  then have "feeds False 65536 (?s ?l [] [] (Some None) (Sending e) [] [event_line] [])"
    by (rule feeds.step) (use feed_step.token [of "?s ?l [] [] (Some None) Scanning ?l [] []" event_line "[]" False 65536] e
        ScanLines_first [OF nl, of False "[]"]
      in \<open>auto simp: got_line_def line_events_def split: sum.splits option.splits\<close>)
  then have "feeds False 65536 (?s ?l [] [] (Some None) Scanning [] [event_line] [e])"
    by (rule feeds.step) (use feed_step.sends [of "?s ?l [] [] (Some None) (Sending e) [] [event_line] []" e False 65536] in simp)
  then have "feeds False 65536 (?s ?l [] [] (Some None) Waiting [] [event_line] [e])"
    by (rule feeds.step) (use feed_step.at_eof [of "?s ?l [] [] (Some None) Scanning [] [event_line] [e]" "\<lparr>cdWritten = ?l, cdPipe = [], cdPending = [], cdEnded = Some None\<rparr>" False 65536]
      in \<open>simp add: ScanLines_def max_token_def\<close>)
  from feeds.step [OF feeds.step [OF feeds.step [OF this
      feed_step.waits [where c = "\<lparr>cdWritten = ?l, cdPipe = [], cdPending = [], cdEnded = Some None\<rparr>" and r = None]] feed_step.closes_errs] feed_step.closes_events]
  show ?thesis by (simp add: errs_room_def waited_def raise_def wait_text_def one_event_def e)
qed

lemma stream_delivers_witness:
  "feeds False 65536 one_event \<and> \<not> fdDone one_event \<and> length (fdRaised one_event) = 1
   \<and> (\<exists>c. fdChild one_event = Some c \<and> prefix (fdSent one_event) (fst (read_events (lines (cdWritten c)) False None)))"
proof -
  have d: "\<not> fdDone one_event" "fdChild one_event \<noteq> None" by (simp_all add: one_event_def)
  from stream_delivers [OF one_event_reached d(1)] d one_event_reached
  show ?thesis by (auto simp: one_event_def)
qed

text \<open>
  A line that does not fit ends the scanning, and the goroutine waits for podman while it is all that reads the
  pipe. When podman writes on until the pipe is full, it waits for the goroutine: unless it is killed or the
  context ends, nothing happens ever after, and \<open>Run\<close> is never told.
\<close>

definition stalled :: "nat \<Rightarrow> feed \<Rightarrow> bool" where
  "stalled cap f \<longleftrightarrow> fdAt f = Waiting \<and> \<not> fdDone f \<and> fdErrs f = []
     \<and> (case fdChild f of None \<Rightarrow> False | Some c \<Rightarrow> cdEnded c = None \<and> cdPending c \<noteq> [] \<and> cap \<le> length (cdPipe c))"

lemma stalled_stays: "feed_step False cap f f' \<Longrightarrow> stalled cap f \<Longrightarrow> f' = f\<lparr>fdDone := True\<rparr>"
proof (induction rule: feed_step.induct)
  case (podman f c c')
  have "\<not> child_step False cap False False c c'"
    using podman(1,3) by (auto simp: stalled_def elim: child_step.cases)
  then show ?case using podman by (simp add: stalled_def)
qed (auto simp: stalled_def)

text \<open>One long line brings this about.\<close>

definition long_feed :: "string \<Rightarrow> nat \<Rightarrow> nat \<Rightarrow> string \<Rightarrow> feed" where
  "long_feed w b p q = (feed0 False)\<lparr>fdAt := Scanning, fdBuf := replicate b CHR ''x'',
     fdChild := Some \<lparr>cdWritten = w, cdPipe = replicate p CHR ''x'', cdPending = q, cdEnded = None\<rparr>\<rparr>"

lemma x_is_no_newline: "newline \<noteq> CHR ''x''" by (simp add: newline_def)

lemma long_writes:
  assumes "feeds k cap (long_feed w b p (CHR ''x'' # q))" and "p < cap"
  shows "feeds k cap (long_feed (w @ ''x'') b (Suc p) q)"
proof -
  have "long_feed (w @ ''x'') b (Suc p) q = (long_feed w b p (CHR ''x'' # q))\<lparr>fdChild := Some (\<lparr>cdWritten = w, cdPipe = replicate p CHR ''x'',
      cdPending = CHR ''x'' # q, cdEnded = None\<rparr>\<lparr>cdWritten := w @ ''x'', cdPipe := replicate p CHR ''x'' @ ''x'', cdPending := q\<rparr>)\<rparr>"
    by (simp add: long_feed_def replicate_append_same)
  moreover have "feed_step k cap (long_feed w b p (CHR ''x'' # q)) \<dots>"
    by (rule feed_step.podman, simp add: long_feed_def)
      (use child_step.wrote [of "\<lparr>cdWritten = w, cdPipe = replicate p CHR ''x'', cdPending = CHR ''x'' # q, cdEnded = None\<rparr>" 1 cap False k "fdDone (long_feed w b p (CHR ''x'' # q))"]
        assms(2) in simp)
  ultimately show ?thesis using feeds.step [OF assms(1)] by simp
qed

lemma long_reads:
  assumes "feeds k cap (long_feed w b (Suc p) q)" and "b < max_token"
  shows "feeds k cap (long_feed w (Suc b) p q)"
proof -
  have "feed_step k cap (long_feed w b (Suc p) q) (long_feed w (Suc b) p q)"
    using feed_step.reads [of "long_feed w b (Suc p) q" "\<lparr>cdWritten = w, cdPipe = replicate (Suc p) CHR ''x'', cdPending = q, cdEnded = None\<rparr>" 1 k cap]
      assms(2) by (simp add: long_feed_def ScanLines_none x_is_no_newline replicate_append_same)
  then show ?thesis by (rule feeds.step [OF assms(1)])
qed

lemma long_buffer:
  assumes "feeds k cap (long_feed [] 0 0 (replicate (b + q) CHR ''x''))" and "b \<le> max_token" and "0 < cap"
  shows "\<exists>w. feeds k cap (long_feed w b 0 (replicate q CHR ''x''))"
  using assms(1,2)
proof (induction b arbitrary: q)
  case (Suc b)
  then obtain w where "feeds k cap (long_feed w b 0 (replicate (Suc q) CHR ''x''))" using Suc.IH [of "Suc q"] by auto
  then show ?case using long_writes [of k cap w b 0 "replicate q CHR ''x''"] long_reads Suc.prems(2) assms(3) by fastforce
qed auto

lemma long_pipe:
  assumes "feeds k cap (long_feed w b 0 (replicate (p + q) CHR ''x''))" and "p \<le> cap"
  shows "\<exists>w'. feeds k cap (long_feed w' b p (replicate q CHR ''x''))"
  using assms
proof (induction p arbitrary: q)
  case (Suc p)
  then obtain w' where "feeds k cap (long_feed w' b p (replicate (Suc q) CHR ''x''))" using Suc.IH [of "Suc q"] by auto
  then show ?case using long_writes [of k cap w' b p "replicate q CHR ''x''"] Suc.prems(2) by fastforce
qed auto

lemma stream_stalls: "0 < cap \<Longrightarrow> \<exists>f. feeds k cap f \<and> stalled cap f"
proof -
  assume cap: "0 < cap"
  let ?x = "\<lambda>n. replicate n CHR ''x''"
  have "feeds k cap (long_feed [] 0 0 [])"
    using feeds.step [OF feeds.start feed_step.starts, of False k cap] by (simp add: feed0_def long_feed_def started_child_def)
  moreover have "feed_step k cap (long_feed [] 0 0 []) (long_feed [] 0 0 (?x (max_token + (cap + 1))))"
    using feed_step.podman [OF _ child_step.writing, of "long_feed [] 0 0 []" "started_child" k cap "?x (max_token + (cap + 1))"]
    by (simp add: long_feed_def started_child_def)
  ultimately have "feeds k cap (long_feed [] 0 0 (?x (max_token + (cap + 1))))" by (rule feeds.step)
  then obtain w where "feeds k cap (long_feed w max_token 0 (?x (cap + 1)))" using long_buffer [of k cap max_token "cap + 1"] cap by auto
  then obtain w' where f: "feeds k cap (long_feed w' max_token cap (?x 1))" using long_pipe by blast
  have "feeds k cap ((long_feed w' max_token cap (?x 1))\<lparr>fdAt := Waiting\<rparr>)"
    by (rule feeds.step [OF f feed_step.too_long]) (simp_all add: long_feed_def ScanLines_none x_is_no_newline)
  moreover have "stalled cap ((long_feed w' max_token cap (?x 1))\<lparr>fdAt := Waiting\<rparr>)"
    by (simp add: stalled_def long_feed_def feed0_def)
  ultimately show ?thesis by blast
qed

section \<open>Logs\<close>

text \<open>
  \<open>Logs\<close> starts \<open>podman logs\<close> with both outputs on one \<open>io.Pipe\<close>: a goroutine of \<open>os/exec\<close> copies what
  podman writes into it, chunk by chunk, each until the reader has taken all of it; when podman has ended and
  the copying is over, the pipe is closed with the error of \<open>Wait\<close>, or none.
\<close>

definition logs_args :: "string \<Rightarrow> int \<Rightarrow> bool \<Rightarrow> string list" where
  "logs_args name tail follow = [''logs'', ''--tail'', show_int tail] @ (if follow then [''--follow''] else []) @ [name]"

record log_copy =
  lgChild :: child
  lgCopying :: bool
  lgChunk :: string
  lgEnd :: "string option option"
  lgDone :: bool
  lgShut :: bool
  lgGot :: string

definition open_logs :: "string option \<Rightarrow> string + log_copy" where
  "open_logs failed = (case failed of
     Some e \<Rightarrow> Inl (''podman logs: '' @ e)
   | None \<Rightarrow> Inr \<lparr>lgChild = started_child, lgCopying = True, lgChunk = [], lgEnd = None, lgDone = False, lgShut = False, lgGot = []\<rparr>)"

text \<open>
  What one \<open>Read\<close> of at most \<open>n\<close> bytes gives, and what it leaves: bytes, the end (\<open>io.EOF\<close>), an error, or
  nothing yet.
\<close>

datatype log_read = Bytes string | Eof | Failed string | Blocks

definition read_log :: "nat \<Rightarrow> log_copy \<Rightarrow> log_read \<times> log_copy" where
  "read_log n g = (if lgShut g then (Failed ''io: read/write on closed pipe'', g)
     else if lgChunk g \<noteq> [] then (Bytes (take n (lgChunk g)), g\<lparr>lgChunk := drop n (lgChunk g), lgGot := lgGot g @ take n (lgChunk g)\<rparr>)
     else (case lgEnd g of None \<Rightarrow> (Blocks, g) | Some None \<Rightarrow> (Eof, g) | Some (Some t) \<Rightarrow> (Failed t, g)))"

inductive log_step :: "bool \<Rightarrow> nat \<Rightarrow> log_copy \<Rightarrow> log_copy \<Rightarrow> bool" for k cap where
  copies: "lgCopying g \<Longrightarrow> lgChunk g = [] \<Longrightarrow> n \<le> length (cdPipe (lgChild g)) \<Longrightarrow>
    log_step k cap g (g\<lparr>lgChunk := take n (cdPipe (lgChild g)), lgChild := (lgChild g)\<lparr>cdPipe := drop n (cdPipe (lgChild g))\<rparr>\<rparr>)"
| copied: "lgCopying g \<Longrightarrow> lgChunk g = [] \<Longrightarrow> cdPipe (lgChild g) = [] \<Longrightarrow> cdEnded (lgChild g) \<noteq> None \<Longrightarrow>
    log_step k cap g (g\<lparr>lgCopying := False\<rparr>)"
| broken: "lgCopying g \<Longrightarrow> lgChunk g \<noteq> [] \<Longrightarrow> lgShut g \<Longrightarrow> log_step k cap g (g\<lparr>lgCopying := False, lgChunk := []\<rparr>)"
| ends: "\<not> lgCopying g \<Longrightarrow> cdEnded (lgChild g) = Some r \<Longrightarrow> lgEnd g = None \<Longrightarrow> log_step k cap g (g\<lparr>lgEnd := Some r\<rparr>)"
| reads: "log_step k cap g (snd (read_log n g))"
| shuts: "log_step k cap g (g\<lparr>lgShut := True\<rparr>)"
| cancels: "log_step k cap g (g\<lparr>lgDone := True\<rparr>)"
| podman: "child_step k cap (lgDone g) (\<not> lgCopying g) (lgChild g) c \<Longrightarrow> log_step k cap g (g\<lparr>lgChild := c\<rparr>)"

inductive logs :: "bool \<Rightarrow> nat \<Rightarrow> log_copy \<Rightarrow> bool" for k cap where
  start: "open_logs None = Inr g \<Longrightarrow> logs k cap g"
| step: "logs k cap g \<Longrightarrow> log_step k cap g g' \<Longrightarrow> logs k cap g'"

definition log_ok :: "log_copy \<Rightarrow> bool" where
  "log_ok g \<longleftrightarrow> (if lgShut g then prefix (lgGot g) (cdWritten (lgChild g))
       else cdWritten (lgChild g) = lgGot g @ lgChunk g @ cdPipe (lgChild g))
     \<and> (\<not> lgCopying g \<and> \<not> lgShut g \<longrightarrow> lgChunk g = [] \<and> cdPipe (lgChild g) = [] \<and> cdEnded (lgChild g) \<noteq> None)
     \<and> (lgEnd g \<noteq> None \<longrightarrow> \<not> lgCopying g \<and> cdEnded (lgChild g) = lgEnd g)"

lemma log_ok_step: "log_step k cap g g' \<Longrightarrow> log_ok g \<Longrightarrow> log_ok g'"
proof (induction rule: log_step.induct)
  case (podman g c)
  then show ?case using child_grows [OF podman(1)] by (auto simp: log_ok_def intro: prefix_prefix)
next
  case (reads g n)
  then show ?case by (auto simp: log_ok_def read_log_def split: option.split)
qed (auto simp: log_ok_def split: if_splits)

lemma logs_ok: "logs k cap g \<Longrightarrow> log_ok g"
proof (induction rule: logs.induct)
  case (start g)
  then show ?case by (auto simp: open_logs_def log_ok_def started_child_def)
qed (simp add: log_ok_step)

text \<open>
  C25: A log is read in order and whole. What a reader got is at any moment the beginning of what podman wrote;
  a read that gives the end means that podman ended without an error and that everything it wrote was read; a
  reader that has not shut the log gets an error only when podman ended with that error, again after everything.
\<close>

theorem log_read_whole:
  assumes "logs k cap g"
  shows "prefix (lgGot g) (cdWritten (lgChild g))
    \<and> (fst (read_log n g) = Eof \<longrightarrow> cdEnded (lgChild g) = Some None \<and> lgGot g = cdWritten (lgChild g))
    \<and> (fst (read_log n g) = Failed t \<and> \<not> lgShut g \<longrightarrow> cdEnded (lgChild g) = Some (Some t) \<and> lgGot g = cdWritten (lgChild g))"
  using logs_ok [OF assms] by (auto simp: log_ok_def read_log_def split: if_splits option.splits)

text \<open>Podman writes a line and fails.\<close>

definition failed_log :: log_copy where
  "failed_log = \<lparr>lgChild = \<lparr>cdWritten = ''up'', cdPipe = [], cdPending = [], cdEnded = Some (Some ''exit status 125'')\<rparr>,
     lgCopying = False, lgChunk = [], lgEnd = Some (Some ''exit status 125''), lgDone = False, lgShut = False, lgGot = ''up''\<rparr>"

lemma failed_log_reached: "logs True 65536 failed_log"
proof -
  let ?g = "\<lambda>w p q r run b r' got. \<lparr>lgChild = \<lparr>cdWritten = w, cdPipe = p, cdPending = q, cdEnded = r\<rparr>, lgCopying = run, lgChunk = b,
     lgEnd = r', lgDone = False, lgShut = False, lgGot = got\<rparr>"
  let ?r = "Some (Some ''exit status 125'')"
  have "logs True 65536 (?g [] [] [] None True [] None [])"
    by (rule logs.start) (simp add: open_logs_def started_child_def)
  then have "logs True 65536 (?g [] [] ''up'' None True [] None [])"
    by (rule logs.step) (use log_step.podman [OF child_step.writing, of "?g [] [] [] None True [] None []" True 65536 "''up''"] in simp)
  then have "logs True 65536 (?g ''up'' ''up'' [] None True [] None [])"
    by (rule logs.step) (use log_step.podman [OF child_step.wrote, of "?g [] [] ''up'' None True [] None []" 2 65536 True] in simp)
  then have "logs True 65536 (?g ''up'' ''up'' [] ?r True [] None [])"
    by (rule logs.step) (use log_step.podman [OF child_step.exits, of "?g ''up'' ''up'' [] None True [] None []" True 65536 "Some ''exit status 125''"] in simp)
  then have "logs True 65536 (?g ''up'' [] [] ?r True ''up'' None [])"
    by (rule logs.step) (use log_step.copies [of "?g ''up'' ''up'' [] ?r True [] None []" 2 True 65536] in simp)
  then have "logs True 65536 (?g ''up'' [] [] ?r True [] None ''up'')"
    by (rule logs.step) (use log_step.reads [of True 65536 "?g ''up'' [] [] ?r True ''up'' None []" 2] in \<open>simp add: read_log_def\<close>)
  then have "logs True 65536 (?g ''up'' [] [] ?r False [] None ''up'')"
    by (rule logs.step) (use log_step.copied [of "?g ''up'' [] [] ?r True [] None ''up''" True 65536] in simp)
  then have "logs True 65536 (?g ''up'' [] [] ?r False [] ?r ''up'')"
    by (rule logs.step) (use log_step.ends [of "?g ''up'' [] [] ?r False [] None ''up''" "Some ''exit status 125''" True 65536] in simp)
  then show ?thesis by (simp add: failed_log_def)
qed

lemma log_read_whole_witness:
  "logs True 65536 failed_log \<and> fst (read_log 4096 failed_log) = Failed ''exit status 125'' \<and> prefix (lgGot failed_log) ''up''
   \<and> lgGot failed_log = ''up''"
  using log_read_whole [OF failed_log_reached, of 4096 "''exit status 125''"] failed_log_reached
  by (simp add: failed_log_def read_log_def)

end
